(* ===== verification/Prelude.thy ===== *)
theory Prelude
  imports Main "HOL-Library.Word"
begin

text \<open>
  The vocabulary every other theory shares: results that may be a fault, bytes and
  fixed-size C buffers, the little-endian image of a 32-bit \<open>int\<close>, and the decimal
  text that \<open>sprintf("%d")\<close> writes.

  A C \<open>char\<close> is a HOL \<open>char\<close> (exactly 8 bits), so C strings, wire messages and
  memory buffers are all lists of \<open>char\<close>.  An access the C standard leaves undefined
  (past the end of an array, through NULL, a missing return value) is a value of type
  \<open>fault\<close>; it is never silently repaired.
\<close>

section \<open>Faults and results\<close>

datatype fault =
    Overrun        \<comment> \<open>an access outside an array or buffer\<close>
  | NullDeref      \<comment> \<open>a read or write through NULL\<close>
  | NoReturn       \<comment> \<open>control runs off the end of a non-void function\<close>
  | Blocked        \<comment> \<open>a blocking read with nothing to read\<close>
  | Aborted        \<comment> \<open>an explicit call of abort()\<close>
  | OutOfFuel      \<comment> \<open>a loop used up the iterations the model gives it\<close>

type_synonym 'a result = "fault + 'a"

named_theorems cmem "facts about buffers, byte images and results"
named_theorems bounds "length and range facts"

definition andthen :: "'a result \<Rightarrow> ('a \<Rightarrow> 'b result) \<Rightarrow> 'b result" where
  "andthen m f = (case m of Inl e \<Rightarrow> Inl e | Inr x \<Rightarrow> f x)"

lemma andthen_simps [simp]:
  "andthen (Inr x) f = f x"
  "andthen (Inl e) f = Inl e"
  by (simp_all add: andthen_def)

lemma andthen_cong:
  "m = m' \<Longrightarrow> (\<And>x. m' = Inr x \<Longrightarrow> f x = f' x) \<Longrightarrow> andthen m f = andthen m' f'"
  by (cases m') simp_all

lemma andthen_Inr_iff:
  "andthen m f = Inr y \<longleftrightarrow> (\<exists>x. m = Inr x \<and> f x = Inr y)"
  by (cases m) simp_all

definition guard :: "bool \<Rightarrow> fault \<Rightarrow> unit result" where
  "guard b e = (if b then Inr () else Inl e)"

lemma guard_simps [simp]:
  "b \<Longrightarrow> guard b e = Inr ()"
  "\<not> b \<Longrightarrow> guard b e = Inl e"
  by (simp_all add: guard_def)


section \<open>C integers\<close>

type_synonym int32 = "32 word"

text \<open>The conversion of any integer value to a C \<open>int\<close> (gcc: reduced modulo \<open>2^32\<close>).\<close>

definition to_int :: "int \<Rightarrow> int" where
  "to_int n = sint (word_of_int n :: int32)"

lemma sint_word_of_int32:
  "- 2147483648 \<le> n \<Longrightarrow> n < 2147483648 \<Longrightarrow> sint (word_of_int n :: int32) = n"
  by (simp add: signed_take_bit_int_eq_self_iff sint_sbintrunc')

lemma to_int_id [simp]:
  "- 2147483648 \<le> n \<Longrightarrow> n < 2147483648 \<Longrightarrow> to_int n = n"
  by (simp add: to_int_def sint_word_of_int32)

lemma sint_of_nat32:
  "n < 2147483648 \<Longrightarrow> sint (of_nat n :: int32) = int n"
  using sint_word_of_int32 [of "int n"] by simp

lemma sint32_range [bounds]:
  "- 2147483648 \<le> sint (w :: int32)" "sint (w :: int32) < 2147483648"
  using sint_greater_eq [of w] sint_less [of w] by simp_all

lemma sint32_inc:
  "sint (w :: int32) < 2147483647 \<Longrightarrow> sint (w + 1) = sint w + 1"
  using sint_word_of_int32 [of "sint w + 1"] sint32_range [of w] by simp

lemma sint32_dec:
  "- 2147483648 < sint (w :: int32) \<Longrightarrow> sint (w - 1) = sint w - 1"
  using sint_word_of_int32 [of "sint w - 1"] sint32_range [of w] by simp


section \<open>Buffers\<close>

abbreviation NUL :: char where "NUL \<equiv> CHR 0x00"
abbreviation NEWLINE :: char where "NEWLINE \<equiv> CHR 0x0A"
abbreviation crlf :: string where "crlf \<equiv> [CHR 0x0D, CHR 0x0A]"

text \<open>
  The contents of uninitialised storage are arbitrary.  A \<open>junk\<close> function gives them:
  \<open>J name k\<close> is byte \<open>k\<close> of the local array or \<open>malloc\<close> block \<open>name\<close>.  A call gets its own
  junk \<open>at J site\<close>, named after the call site, and so does each iteration of a loop, so no
  two objects share contents.  Every theorem holds for every \<open>J\<close>.
\<close>

type_synonym junk = "string \<Rightarrow> nat \<Rightarrow> char"

definition uninit :: "junk \<Rightarrow> string \<Rightarrow> nat \<Rightarrow> string" where
  "uninit J name n = map (J name) [0..<n]"

definition at :: "junk \<Rightarrow> string \<Rightarrow> junk" where
  "at J site = (\<lambda>name. J (site @ ''.'' @ name))"

lemma length_uninit [simp, bounds]: "length (uninit J name n) = n"
  by (simp add: uninit_def)

text \<open>The C string at the start of a buffer: the bytes before the first NUL.\<close>

definition cstr :: "string \<Rightarrow> string" where
  "cstr b = takeWhile (\<lambda>c. c \<noteq> NUL) b"

lemma cstr_NUL [simp]: "NUL \<notin> set s \<Longrightarrow> cstr (s @ NUL # r) = s"
  by (induction s) (auto simp: cstr_def)

lemma cstr_no_NUL: "NUL \<notin> set s \<Longrightarrow> cstr s = s"
  by (induction s) (auto simp: cstr_def)

text \<open>\<open>memcpy(dst + d, src + s, n)\<close>, with both ranges checked against the objects.\<close>

definition memcpy :: "string \<Rightarrow> nat \<Rightarrow> string \<Rightarrow> nat \<Rightarrow> int \<Rightarrow> string result" where
  "memcpy dst d src s n =
     (if 0 \<le> n \<and> d + nat n \<le> length dst \<and> s + nat n \<le> length src
      then Inr (take d dst @ take (nat n) (drop s src) @ drop (d + nat n) dst)
      else Inl Overrun)"

text \<open>An in-range store of known bytes, for fields at constant offsets.\<close>

definition poke :: "string \<Rightarrow> nat \<Rightarrow> string \<Rightarrow> string" where
  "poke b off bs = take off b @ bs @ drop (off + length bs) b"

lemma length_poke [simp, bounds]:
  "off + length bs \<le> length b \<Longrightarrow> length (poke b off bs) = length b"
  by (simp add: poke_def)

lemma poke_poke:
  "w + length a \<le> length b \<Longrightarrow>
   poke (poke b w a) (w + length a) c = poke b w (a @ c)"
  by (simp add: poke_def ac_simps)

lemma poke_Nil [simp]: "poke b w [] = b"
  by (simp add: poke_def)

lemma memcpy_ok [cmem]:
  "d + n \<le> length dst \<Longrightarrow> s + n \<le> length src \<Longrightarrow>
   memcpy dst d src s (int n) = Inr (poke dst d (take n (drop s src)))"
  by (simp add: memcpy_def poke_def)

lemma memcpy_length:
  "memcpy dst d src s n = Inr b \<Longrightarrow> length b = length dst"
  by (auto simp: memcpy_def split: if_splits)

text \<open>A string written into a \<open>char\<close> array of \<open>cap\<close> bytes needs room for its NUL.\<close>

definition fits :: "nat \<Rightarrow> string \<Rightarrow> string result" where
  "fits cap s = (if length s < cap then Inr s else Inl Overrun)"

lemma fits_simps [simp]:
  "length s < cap \<Longrightarrow> fits cap s = Inr s"
  "\<not> length s < cap \<Longrightarrow> fits cap s = Inl Overrun"
  by (simp_all add: fits_def)


text \<open>
  \<open>strncpy(dst, b + off, n); dst[n] = '\0'\<close> into a \<open>char dst[cap]\<close>: the C string that
  results.  \<open>strncpy\<close> stops reading at a NUL.
\<close>

definition strncpy_str :: "nat \<Rightarrow> string \<Rightarrow> nat \<Rightarrow> int \<Rightarrow> string result" where
  "strncpy_str cap b off n =
     (if 0 \<le> n \<and> nat n < cap \<and> (off + nat n \<le> length b \<or> NUL \<in> set (drop off b))
      then Inr (cstr (take (nat n) (drop off b)))
      else Inl Overrun)"


section \<open>The image of an \<open>int\<close> in memory\<close>

definition enc32 :: "int32 \<Rightarrow> string" where
  "enc32 w = (let n = unat w in
     [char_of n, char_of (n div 256), char_of (n div 65536), char_of (n div 16777216)])"

fun dec32 :: "string \<Rightarrow> int32" where
  "dec32 (b0 # b1 # b2 # b3 # r) =
     of_nat (of_char b0 + 256 * of_char b1 + 65536 * of_char b2 + 16777216 * of_char b3)"
| "dec32 _ = 0"

definition peek32 :: "string \<Rightarrow> nat \<Rightarrow> int32" where
  "peek32 b off = dec32 (drop off b)"

text \<open>A checked load, for offsets that are computed.\<close>

definition load32 :: "string \<Rightarrow> nat \<Rightarrow> int32 result" where
  "load32 b off = (if off + 4 \<le> length b then Inr (peek32 b off) else Inl Overrun)"

lemma length_enc32 [simp, bounds]: "length (enc32 w) = 4"
  by (simp add: enc32_def Let_def)

lemma base256_split:
  assumes "(n::nat) < 4294967296"
  shows "n mod 256 + 256 * ((n div 256) mod 256) + 65536 * ((n div 65536) mod 256)
         + 16777216 * ((n div 16777216) mod 256) = n"
proof -
  have a: "n div 16777216 mod 256 = n div 16777216"
    using assms by (intro mod_less) simp
  have b: "n div 65536 = n div 65536 mod 256 + 256 * (n div 16777216)"
    using div_mult2_eq [of n 65536 256] mod_div_mult_eq [of "n div 65536" 256] by simp
  have c: "n div 256 = n div 256 mod 256 + 256 * (n div 65536)"
    using div_mult2_eq [of n 256 256] mod_div_mult_eq [of "n div 256" 256] by simp
  have d: "n = n mod 256 + 256 * (n div 256)" by simp
  show ?thesis using a b c d by linarith
qed

lemma dec32_enc32 [simp, cmem]: "dec32 (enc32 w @ r) = w"
proof -
  have "unat w < 4294967296" using unsigned_less [of w] by simp
  then have "dec32 (enc32 w @ r) = of_nat (unat w)"
    using base256_split [of "unat w"] by (simp add: enc32_def Let_def)
  then show ?thesis by simp
qed

lemma dec32_enc32_nil [simp, cmem]: "dec32 (enc32 w) = w"
  using dec32_enc32 [of w "[]"] by simp

lemma enc32_inject [simp]: "enc32 v = enc32 w \<longleftrightarrow> v = w"
  by (metis dec32_enc32_nil)

lemma dec32_append: "4 \<le> length a \<Longrightarrow> dec32 (a @ r) = dec32 a"
  by (cases a rule: dec32.cases) auto

lemma div_digit: "(x::nat) < b \<Longrightarrow> (x + b * y) div b = y"
  by simp

lemma enc32_dec32 [cmem]:
  assumes "length b = 4" shows "enc32 (dec32 b) = b"
proof -
  obtain b0 b1 b2 b3 where b: "b = [b0, b1, b2, b3]"
    using assms by (auto simp: length_Suc_conv numeral_eq_Suc)
  define n where
    "n = (of_char b0 + 256 * of_char b1 + 65536 * of_char b2 + 16777216 * of_char b3 :: nat)"
  have r: "(of_char c :: nat) < 256" for c by (rule nat_of_char_less_256)
  have "n < 4294967296"
    using r [of b0] r [of b1] r [of b2] r [of b3] unfolding n_def by linarith
  then have u: "unat (of_nat n :: int32) = n"
    by (simp add: unsigned_of_nat take_bit_nat_eq_self)
  have d: "dec32 b = of_nat n" by (simp only: b dec32.simps n_def)
  have 0: "n = of_char b0 + 256 * (of_char b1 + 256 * (of_char b2 + 256 * of_char b3))"
    unfolding n_def by simp
  have 1: "n div 256 = of_char b1 + 256 * (of_char b2 + 256 * of_char b3)"
    unfolding 0 using r by (rule div_digit)
  have "n div 65536 = n div 256 div 256" by (simp add: div_mult2_eq [symmetric])
  then have 2: "n div 65536 = of_char b2 + 256 * of_char b3"
    unfolding 1 using div_digit [OF r [of b1]] by metis
  have "n div 16777216 = n div 65536 div 256" by (simp add: div_mult2_eq [symmetric])
  then have 3: "n div 16777216 = of_char b3"
    unfolding 2 using div_digit [OF r [of b2]] by metis
  have c: "char_of (of_char c + 256 * m :: nat) = c" for c m
    by (metis char_of_char char_of_mod_256 mod_mult_self2)
  have "char_of n = b0" by (subst 0) (rule c)
  moreover have "char_of (n div 256) = b1" unfolding 1 by (rule c)
  moreover have "char_of (n div 65536) = b2" unfolding 2 by (rule c)
  moreover have "char_of (n div 16777216) = b3" unfolding 3 by simp
  ultimately have "enc32 (of_nat n) = [b0, b1, b2, b3]"
    by (simp only: enc32_def u Let_def)
  with d b show ?thesis by simp
qed

lemma peek32_append1 [simp, cmem]:
  "off = length a \<Longrightarrow> peek32 (a @ enc32 w @ r) off = w"
  by (simp add: peek32_def)

lemma peek32_0 [simp, cmem]: "peek32 (enc32 w @ r) 0 = w"
  by (simp add: peek32_def)


section \<open>Decimal text\<close>

definition digit :: "nat \<Rightarrow> char" where "digit d = char_of (48 + d)"

fun dec_nat :: "nat \<Rightarrow> string" where
  "dec_nat n = (if n < 10 then [digit n] else dec_nat (n div 10) @ [digit (n mod 10)])"

declare dec_nat.simps [simp del]

definition dec_int :: "int \<Rightarrow> string" where
  "dec_int i = (if i < 0 then CHR ''-'' # dec_nat (nat (- i)) else dec_nat (nat i))"

definition is_digit :: "char \<Rightarrow> bool" where
  "is_digit c \<longleftrightarrow> 48 \<le> (of_char c :: nat) \<and> (of_char c :: nat) \<le> 57"

fun undec :: "string \<Rightarrow> nat" where
  "undec [] = 0"
| "undec (c # cs) = (of_char c - 48) * 10 ^ length cs + undec cs"

lemma is_digit_digit [simp]: "d < 10 \<Longrightarrow> is_digit (digit d)"
  by (simp add: is_digit_def digit_def)

lemma undec_snoc: "undec (s @ [c]) = 10 * undec s + (of_char c - 48)"
  by (induction s) (simp_all add: algebra_simps)

lemma undec_dec_nat [simp]: "undec (dec_nat n) = n"
proof (induction n rule: dec_nat.induct)
  case (1 n)
  then show ?case
    by (cases "n < 10") (simp_all add: dec_nat.simps [of n] undec_snoc digit_def)
qed

lemma dec_nat_inject [simp]: "dec_nat m = dec_nat n \<longleftrightarrow> m = n"
  by (metis undec_dec_nat)

lemma dec_nat_digits: "c \<in> set (dec_nat n) \<Longrightarrow> is_digit c"
proof (induction n rule: dec_nat.induct)
  case (1 n)
  then show ?case
    by (cases "n < 10") (auto simp: dec_nat.simps [of n])
qed

lemma dec_nat_nonempty [simp]: "dec_nat n \<noteq> []"
  by (subst dec_nat.simps) simp

lemma length_dec_nat: "n < 10 ^ k \<Longrightarrow> 0 < k \<Longrightarrow> length (dec_nat n) \<le> k"
proof (induction n arbitrary: k rule: dec_nat.induct)
  case (1 n)
  show ?case
  proof (cases "n < 10")
    case True
    with 1 show ?thesis by (simp add: dec_nat.simps [of n])
  next
    case False
    with 1 obtain j where j: "k = Suc j" "0 < j" by (cases k; cases "k - 1") auto
    with 1 have "n div 10 < 10 ^ j" by auto
    with 1 False j have "length (dec_nat (n div 10)) \<le> j" by blast
    with False j show ?thesis by (simp add: dec_nat.simps [of n])
  qed
qed

lemma length_dec_nat32: "n < 2147483648 \<Longrightarrow> length (dec_nat n) \<le> 10"
  by (rule length_dec_nat) simp_all

lemma dec_int_nonneg: "0 \<le> i \<Longrightarrow> dec_int i = dec_nat (nat i)"
  by (simp add: dec_int_def)

lemma dec_int_of_nat [simp]: "dec_int (int n) = dec_nat n"
  by (simp add: dec_int_def)

lemma length_dec_int32:
  "- 2147483648 \<le> i \<Longrightarrow> i < 2147483648 \<Longrightarrow> length (dec_int i) \<le> 11"
  using length_dec_nat [of "nat (- i)" 10] length_dec_nat32 [of "nat i"]
  by (auto simp: dec_int_def nat_less_iff)

lemma dec_int_nonempty [simp]: "dec_int i \<noteq> []"
  by (simp add: dec_int_def)

lemma dec_int_inject [simp]: "dec_int i = dec_int j \<longleftrightarrow> i = j"
proof
  have m: "CHR ''-'' \<notin> set (dec_nat n)" for n
    by (auto simp: is_digit_def dest!: dec_nat_digits)
  assume eq: "dec_int i = dec_int j"
  have "CHR ''-'' \<in> set (dec_int k) \<longleftrightarrow> k < 0" for k using m by (auto simp: dec_int_def)
  with eq have "i < 0 \<longleftrightarrow> j < 0" by metis
  with eq show "i = j" by (auto simp: dec_int_def split: if_splits)
qed simp

lemma dec_int_no_slash: "CHR ''/'' \<notin> set (dec_int i)"
  by (auto simp: dec_int_def is_digit_def dest: dec_nat_digits)

lemma dec_nat_takeWhile:
  "q = [] \<or> \<not> is_digit (hd q) \<Longrightarrow> takeWhile is_digit (dec_nat n @ q) = dec_nat n"
  by (cases q) (simp_all add: takeWhile_append2 dec_nat_digits)

end
