(* ===== verification/Memcache.thy ===== *)
theory Memcache
  imports Prelude
begin

text \<open>
  The client side of the memcached text protocol: \<open>cachedfs/memcache.c\<close> and
  \<open>cachedfs/memcache.h\<close>.  The memcached server is not part of the repository.  It is a
  parameter \<open>serve\<close> of every operation: given the server's state and the bytes of one
  \<open>send\<close>, it gives the bytes the server answers with and its next state, or \<open>None\<close> when
  \<open>send\<close> itself fails (returns -1).  What the code relies on is the locale \<open>memcached\<close>:
  the documented answers to \<open>get\<close>, \<open>set\<close>, \<open>delete\<close> and \<open>flush_all\<close> (the code ends the last with
  a bare newline where the document has CRLF; memcached accepts both).

  A socket is the server's state and the bytes that have arrived and not been read yet.
  \<open>read\<close> takes at most the number of bytes it asks for; the rest stays for the next
  \<open>read\<close>.  An answer arrives whole before it is read (\<open>PartialReads\<close> has the other case).  Console output (\<open>printf\<close>) is not
  modelled.
\<close>

section \<open>The socket\<close>

type_synonym 'm server = "'m \<Rightarrow> string \<Rightarrow> (string \<times> 'm) option"

record 'm sock =
  peer :: 'm
  inbox :: string

definition sock_send :: "'m server \<Rightarrow> 'm sock \<Rightarrow> string \<Rightarrow> 'm sock option" where
  "sock_send serve s msg =
     (case serve (peer s) msg of
        None \<Rightarrow> None
      | Some (reply, m) \<Rightarrow> Some (s\<lparr>peer := m, inbox := inbox s @ reply\<rparr>))"

definition sock_read :: "'m sock \<Rightarrow> nat \<Rightarrow> (string \<times> 'm sock) result" where
  "sock_read s n =
     (if inbox s = [] then Inl Blocked
      else Inr (take n (inbox s), s\<lparr>inbox := drop n (inbox s)\<rparr>))"

text \<open>\<open>read\<close> into a buffer: the bytes read replace the front, the rest is kept.\<close>

definition overlay :: "string \<Rightarrow> string \<Rightarrow> string" where
  "overlay got buf = got @ drop (length got) buf"


lemma inbox_empty_id: "inbox s = [] \<Longrightarrow> s\<lparr>inbox := []\<rparr> = s"
  by (cases s) simp

section \<open>cache\_get, cache\_msg, cache\_set\<close>

definition SPACE_FOR_STRUCTS :: nat where "SPACE_FOR_STRUCTS = 200"
definition MAX_BUCKET_SIZE :: nat where "MAX_BUCKET_SIZE = 1024"
definition FAST_MODE :: bool where "FAST_MODE = False"

definition sizeof_bucket :: nat where "sizeof_bucket = 4"

text \<open>\<open>while(ans[pos] != '\n') pos++; pos++;\<close>\<close>

fun past_newline :: "string \<Rightarrow> nat \<Rightarrow> nat result" where
  "past_newline [] pos = Inl Overrun"
| "past_newline (c # cs) pos =
     (if c = NEWLINE then Inr (pos + 1) else past_newline cs (pos + 1))"

text \<open>
  Returns the C result, the caller's buffer and the socket.  The parameter \<open>size\<close> of the C
  function is never used; the number of bytes copied is the \<open>cur_size\<close> the value itself
  starts with, and \<open>memcpy\<close> checks it against the real size of the buffer.
\<close>

definition cache_get ::
    "'m server \<Rightarrow> junk \<Rightarrow> string \<Rightarrow> string \<Rightarrow> 'm sock \<Rightarrow> (int \<times> string \<times> 'm sock) result" where
  "cache_get serve J key buffer s =
     andthen (fits 264 (''get '' @ key @ crlf)) (\<lambda>data.
     case sock_send serve s data of
       None \<Rightarrow> Inr (- 1, buffer, s)
     | Some s \<Rightarrow>
         andthen (sock_read s 66000) (\<lambda>(got, s).
         let ans = overlay got (uninit J ''ans'' 66000) in
         if take 5 ans = ''VALUE'' then
           andthen (past_newline (drop 5 ans) 5) (\<lambda>pos.
           andthen (load32 ans pos) (\<lambda>len.
           andthen (memcpy buffer 0 ans pos (sint len)) (\<lambda>buffer.
           Inr (0, buffer, s))))
         else Inr (- 1, buffer, s)))"

definition cache_msg ::
    "'m server \<Rightarrow> string \<Rightarrow> string \<Rightarrow> 'm sock \<Rightarrow> (int \<times> string \<times> 'm sock) result" where
  "cache_msg serve data buffer s =
     (case sock_send serve s data of
        None \<Rightarrow> Inr (- 1, buffer, s)
      | Some s \<Rightarrow>
          andthen (sock_read s (length buffer)) (\<lambda>(got, s).
          Inr (0, overlay got buffer, s)))"

definition cache_set ::
    "'m server \<Rightarrow> junk \<Rightarrow> string \<Rightarrow> string \<Rightarrow> int \<Rightarrow> 'm sock \<Rightarrow> (int \<times> 'm sock) result" where
  "cache_set serve J key val val_length s =
     andthen (fits 66000 (''set '' @ key @ '' 0 0 '' @ dec_int val_length @ crlf)) (\<lambda>data.
     andthen (guard (0 \<le> val_length \<and> nat val_length \<le> length val
                     \<and> length data + nat val_length + 3 \<le> 66000) Overrun) (\<lambda>_.
     case sock_send serve s (data @ take (nat val_length) val @ crlf) of
       None \<Rightarrow> Inr (- 1, s)
     | Some s \<Rightarrow>
         if FAST_MODE then Inr (0, s)
         else andthen (sock_read s 128) (\<lambda>(got, s).
           let buffer = overlay got (uninit J ''buffer'' 128) in
           if cstr buffer = ''NOT_STORED'' @ crlf \<or> cstr buffer = ''ERROR'' @ crlf
           then Inr (- 1, s)
           else Inr (0, s))))"


section \<open>Well-formed keys and values\<close>

text \<open>protocol.txt: at most 250 bytes, no control characters and no white space.\<close>

definition key_char :: "char \<Rightarrow> bool" where
  "key_char c \<longleftrightarrow> 32 < (of_char c :: nat) \<and> (of_char c :: nat) \<noteq> 127"

definition valid_key :: "string \<Rightarrow> bool" where
  "valid_key k \<longleftrightarrow> k \<noteq> [] \<and> length k \<le> 250 \<and> list_all key_char k"

text \<open>
  Every value the file system stores starts with \<open>struct bucket_struct\<close>, whose
  \<open>cur_size\<close> is the length of the whole value.
\<close>

definition framed :: "string \<Rightarrow> bool" where
  "framed v \<longleftrightarrow> 4 \<le> length v \<and> length v \<le> 65000 \<and> dec32 v = of_nat (length v)"

definition get_req :: "string \<Rightarrow> string" where
  "get_req k = ''get '' @ k @ crlf"

definition set_req :: "string \<Rightarrow> string \<Rightarrow> string" where
  "set_req k v = ''set '' @ k @ '' 0 0 '' @ dec_nat (length v) @ crlf @ v @ crlf"

definition del_req :: "string \<Rightarrow> string" where
  "del_req k = ''delete '' @ k @ crlf"

definition value_reply :: "string \<Rightarrow> string \<Rightarrow> string" where
  "value_reply k v = ''VALUE '' @ k @ '' 0 '' @ dec_nat (length v) @ crlf @ v @ crlf @ ''END'' @ crlf"

lemma valid_key_facts:
  assumes "valid_key k"
  shows "NUL \<notin> set k" "NEWLINE \<notin> set k" "CHR '' '' \<notin> set k" "CHR 0x0D \<notin> set k"
    "k \<noteq> []" "length k \<le> 250"
  using assms by (auto simp: valid_key_def key_char_def list_all_iff)

lemma past_newline_append:
  "NEWLINE \<notin> set a \<Longrightarrow> past_newline (a @ NEWLINE # r) p = Inr (p + length a + 1)"
  by (induction a arbitrary: p) auto

lemma dec_nat_plain:
  "NEWLINE \<notin> set (dec_nat n)" "CHR 0x0D \<notin> set (dec_nat n)" "NUL \<notin> set (dec_nat n)"
  "CHR '' '' \<notin> set (dec_nat n)"
  by (auto dest!: dec_nat_digits simp: is_digit_def)

text \<open>The states the server passes through, as functions of the state before.\<close>

definition cput :: "'m server \<Rightarrow> 'm \<Rightarrow> string \<Rightarrow> string \<Rightarrow> 'm" where
  "cput serve m k v = snd (the (serve m (set_req k v)))"

definition cdel :: "'m server \<Rightarrow> 'm \<Rightarrow> string \<Rightarrow> 'm" where
  "cdel serve m k = snd (the (serve m (del_req k)))"

definition cflush :: "'m server \<Rightarrow> 'm \<Rightarrow> 'm" where
  "cflush serve m = snd (the (serve m (''flush_all'' @ [NEWLINE])))"


section \<open>The service\<close>

text \<open>
  What the client relies on, as memcached's protocol.txt documents it, for a server that
  neither evicts nor expires the items it holds: \<open>store m\<close> is the map from keys to data
  blocks.  A retrieval does not change what later commands answer.
\<close>

locale memcached =
  fixes serve :: "'m server" and store :: "'m \<Rightarrow> string \<Rightarrow> string option"
  assumes serve_get: "valid_key k \<Longrightarrow>
      serve m (get_req k) =
        Some (case store m k of None \<Rightarrow> ''END'' @ crlf | Some v \<Rightarrow> value_reply k v, m)"
    and serve_set: "valid_key k \<Longrightarrow> length v \<le> 1000000 \<Longrightarrow>
      \<exists>m'. serve m (set_req k v) = Some (''STORED'' @ crlf, m') \<and> store m' = (store m)(k \<mapsto> v)"
    and serve_del: "valid_key k \<Longrightarrow>
      \<exists>m'. serve m (del_req k) =
             Some (if store m k = None then ''NOT_FOUND'' @ crlf else ''DELETED'' @ crlf, m')
           \<and> store m' = (store m)(k := None)"
    and serve_flush:
      "\<exists>m'. serve m (''flush_all'' @ [NEWLINE]) = Some (''OK'' @ crlf, m') \<and> store m' = Map.empty"
begin

lemma store_cput [simp]:
  "valid_key k \<Longrightarrow> length v \<le> 1000000 \<Longrightarrow> store (cput serve m k v) = (store m)(k \<mapsto> v)"
  using serve_set [of k v m] by (auto simp: cput_def)

lemma store_cdel [simp]:
  "valid_key k \<Longrightarrow> store (cdel serve m k) = (store m)(k := None)"
  using serve_del [of k m] by (auto simp: cdel_def)

lemma store_cflush [simp]: "store (cflush serve m) = Map.empty"
  using serve_flush [of m] by (auto simp: cflush_def)

lemma cache_get_miss:
  assumes "inbox s = []" "valid_key k" "store (peer s) k = None"
  shows "cache_get serve J k buf s = Inr (- 1, buf, s)"
proof -
  have s: "sock_send serve s (get_req k) = Some (s\<lparr>inbox := ''END'' @ crlf\<rparr>)"
    using assms serve_get [of k "peer s"] by (simp add: sock_send_def)
  have f: "fits 264 (get_req k) = Inr (get_req k)"
    using valid_key_facts(6) [OF assms(2)] by (simp add: get_req_def)
  show ?thesis
    unfolding cache_get_def get_req_def [symmetric]
    using s f assms(1) by (simp add: sock_read_def overlay_def inbox_empty_id)
qed

lemma cache_get_hit:
  assumes "inbox s = []" "valid_key k" "store (peer s) k = Some v" "framed v"
    "length v \<le> length buf"
  shows "cache_get serve J k buf s = Inr (0, overlay v buf, s)"
proof -
  note k = valid_key_facts [OF assms(2)]
  have v: "4 \<le> length v" "length v \<le> 65000" "dec32 v = of_nat (length v)"
    using assms(4) by (auto simp: framed_def)
  then have d: "length (dec_nat (length v)) \<le> 10" by (intro length_dec_nat32) simp
  define r where "r = value_reply k v"
  define h where "h = '' '' @ k @ '' 0 '' @ dec_nat (length v) @ [CHR 0x0D]"
  define H where "H = ''VALUE'' @ h @ [NEWLINE]"
  define z where "z = crlf @ ''END'' @ crlf @ drop (length r) (uninit J ''ans'' 66000)"
  have s: "sock_send serve s (get_req k) = Some (s\<lparr>inbox := r\<rparr>)"
    using assms serve_get [of k "peer s"] by (simp add: sock_send_def r_def)
  have f: "fits 264 (get_req k) = Inr (get_req k)"
    using k(6) by (simp add: get_req_def)
  have rn: "r \<noteq> []" and rl: "length r \<le> 66000"
    using k(6) v d by (simp_all add: value_reply_def r_def)
  have ov: "overlay r (uninit J ''ans'' 66000) = H @ v @ z"
    by (simp add: overlay_def r_def z_def H_def h_def value_reply_def)
  have t5: "take 5 (H @ v @ z) = ''VALUE''" by (simp add: H_def)
  have "drop 5 (H @ v @ z) = h @ NEWLINE # v @ z" by (simp add: H_def)
  moreover have "NEWLINE \<notin> set h" using k dec_nat_plain by (simp add: h_def)
  moreover have "5 + length h + 1 = length H" by (simp add: H_def)
  ultimately have pos: "past_newline (drop 5 (H @ v @ z)) 5 = Inr (length H)"
    by (metis past_newline_append)
  have ld: "load32 (H @ v @ z) (length H) = Inr (of_nat (length v))"
    using v dec32_append [OF v(1)] by (simp add: load32_def peek32_def)
  have cp: "memcpy buf 0 (H @ v @ z) (length H) (int (length v)) = Inr (overlay v buf)"
    using assms(5) by (simp add: memcpy_ok poke_def overlay_def)
  have sl: "sint (of_nat (length v) :: int32) = int (length v)"
    using v(2) by (intro sint_of_nat32) simp
  show ?thesis
    unfolding cache_get_def get_req_def [symmetric]
    using f rn rl assms(1)
    by (simp add: s sock_read_def Let_def ov t5 pos ld cp sl inbox_empty_id
             del: take_append drop_append)
qed

lemma cache_set_stored:
  assumes "inbox s = []" "valid_key k" "0 \<le> n" "nat n \<le> length val" "n \<le> 65000"
  shows "cache_set serve J k val n s =
           Inr (0, s\<lparr>peer := cput serve (peer s) k (take (nat n) val)\<rparr>)"
proof -
  let ?v = "take (nat n) val"
  let ?d = "''set '' @ k @ '' 0 0 '' @ dec_int n @ crlf"
  note k = valid_key_facts [OF assms(2)]
  have n: "dec_int n = dec_nat (length ?v)" "length ?v = nat n"
    using assms by (simp_all add: dec_int_nonneg)
  have dl: "length (dec_int n) \<le> 10"
    using assms n length_dec_nat32 [of "nat n"] by simp
  have f: "fits 66000 ?d = Inr ?d" using k(6) dl by simp
  have g: "0 \<le> n \<and> nat n \<le> length val \<and> length ?d + nat n + 3 \<le> 66000"
    using k(6) dl assms by simp
  have req: "?d @ ?v @ crlf = set_req k ?v" unfolding set_req_def n by simp
  obtain m' where m': "serve (peer s) (set_req k ?v) = Some (''STORED'' @ crlf, m')"
    using serve_set [of k ?v "peer s"] assms n by force
  then have s: "sock_send serve s (set_req k ?v) =
      Some (s\<lparr>peer := cput serve (peer s) k ?v, inbox := ''STORED'' @ crlf\<rparr>)"
    using assms(1) by (simp add: sock_send_def cput_def)
  show ?thesis
    unfolding cache_set_def
    using f g assms(1)
    by (simp add: req [simplified] s sock_read_def overlay_def cstr_def FAST_MODE_def)
qed

lemma cache_delete_ok:
  assumes "inbox s = []" "valid_key k" "16 \<le> length buf"
  shows "\<exists>buf'. length buf' = length buf \<and>
    cache_msg serve (del_req k) buf s = Inr (0, buf', s\<lparr>peer := cdel serve (peer s) k\<rparr>)"
  using serve_del [of k "peer s"] assms
  by (auto simp: cache_msg_def sock_send_def sock_read_def cdel_def overlay_def)

end


section \<open>A reference server\<close>

text \<open>
  A server that meets the contract: its state is the map itself, and it parses the four
  requests the client sends.  It shows that the hypotheses of \<open>memcached\<close> can hold and
  serves the concrete instances of the theorems.
\<close>

definition ref_serve :: "(string \<Rightarrow> string option) server" where
  "ref_serve st req =
     (if take 4 req = ''get '' then
        (let k = takeWhile (\<lambda>c. c \<noteq> CHR 0x0D) (drop 4 req) in
         Some (case st k of None \<Rightarrow> ''END'' @ crlf | Some v \<Rightarrow> value_reply k v, st))
      else if take 4 req = ''set '' then
        (let k = takeWhile (\<lambda>c. c \<noteq> CHR '' '') (drop 4 req);
             body = tl (dropWhile (\<lambda>c. c \<noteq> NEWLINE) req) in
         Some (''STORED'' @ crlf, st(k \<mapsto> take (length body - 2) body)))
      else if take 7 req = ''delete '' then
        (let k = takeWhile (\<lambda>c. c \<noteq> CHR 0x0D) (drop 7 req) in
         Some (if st k = None then ''NOT_FOUND'' @ crlf else ''DELETED'' @ crlf,
               st(k := None)))
      else if req = ''flush_all'' @ [NEWLINE] then Some (''OK'' @ crlf, Map.empty)
      else Some (''ERROR'' @ crlf, st))"

definition ref_store :: "(string \<Rightarrow> string option) \<Rightarrow> string \<Rightarrow> string option" where
  "ref_store st = st"

lemma takeWhile_stop: "c \<notin> set k \<Longrightarrow> takeWhile (\<lambda>d. d \<noteq> c) (k @ c # r) = k"
  by (induction k) auto

lemma dropWhile_stop: "c \<notin> set k \<Longrightarrow> dropWhile (\<lambda>d. d \<noteq> c) (k @ c # r) = c # r"
  by (induction k) auto

lemma ref_serve_get:
  "valid_key k \<Longrightarrow> ref_serve st (get_req k) =
     Some (case st k of None \<Rightarrow> ''END'' @ crlf | Some v \<Rightarrow> value_reply k v, st)"
  using valid_key_facts [of k] by (simp add: ref_serve_def get_req_def takeWhile_stop)

lemma ref_serve_set:
  assumes "valid_key k"
  shows "ref_serve st (set_req k v) = Some (''STORED'' @ crlf, st(k \<mapsto> v))"
proof -
  note k = valid_key_facts [OF assms]
  let ?h = "''set '' @ k @ '' 0 0 '' @ dec_nat (length v) @ [CHR 0x0D]"
  have "set_req k v = ?h @ NEWLINE # v @ crlf" by (simp add: set_req_def)
  moreover have "NEWLINE \<notin> set ?h" using k dec_nat_plain by simp
  ultimately have "tl (dropWhile (\<lambda>c. c \<noteq> NEWLINE) (set_req k v)) = v @ crlf"
    by (metis dropWhile_stop list.sel(3))
  moreover have "takeWhile (\<lambda>c. c \<noteq> CHR '' '') (drop 4 (set_req k v)) = k"
    using k by (simp add: set_req_def takeWhile_stop)
  ultimately show ?thesis
    by (simp add: ref_serve_def set_req_def)
qed

lemma ref_serve_del:
  "valid_key k \<Longrightarrow> ref_serve st (del_req k) =
     Some (if st k = None then ''NOT_FOUND'' @ crlf else ''DELETED'' @ crlf, st(k := None))"
  using valid_key_facts [of k] by (simp add: ref_serve_def del_req_def takeWhile_stop)

lemma ref_serve_flush:
  "ref_serve st (''flush_all'' @ [NEWLINE]) = Some (''OK'' @ crlf, Map.empty)"
  by (simp add: ref_serve_def)

interpretation ref: memcached ref_serve ref_store
  by unfold_locales
     (simp_all add: ref_store_def ref_serve_get ref_serve_set ref_serve_del ref_serve_flush [simplified])

lemma ref_cput [simp]: "valid_key k \<Longrightarrow> cput ref_serve m k v = m(k \<mapsto> v)"
  by (simp add: cput_def ref_serve_set)

lemma ref_cdel [simp]: "valid_key k \<Longrightarrow> cdel ref_serve m k = m(k := None)"
  by (simp add: cdel_def ref_serve_del)

end
