(* ===== verification/Layout.thy ===== *)
theory Layout
  imports Memcache
begin

text \<open>
  How \<open>cachedfs/main.c\<close> lays files and directories out as key-value pairs: the structs that
  every value starts with, and the keys.

  A file or directory at \<open>path\<close> has its header under the key \<open>path\<close>.  A directory keeps the
  full path of its \<open>i\<close>-th child under \<open>child_key i path\<close> (\<open>"<i><path>"\<close>), a file keeps its
  \<open>i\<close>-th block under \<open>data_key i path\<close> (\<open>"&<i><path>"\<close>), and both keep their \<open>i\<close>-th extended
  attribute under \<open>xattr_key i path\<close> (\<open>"$<i><path>"\<close>); \<open>"stats"\<close> holds the file system's own
  record.  The lemmas show that the scheme never gives two objects the same key.
\<close>

section \<open>Structs\<close>

record header_struct =
  is_dir :: int32
  data_len :: int32
  num_buckets :: int32
  parent_index :: int32
  xattr_num :: int32

definition sizeof_header :: nat where "sizeof_header = 20"

definition enc_header :: "header_struct \<Rightarrow> string" where
  "enc_header h = enc32 (is_dir h) @ enc32 (data_len h) @ enc32 (num_buckets h)
                  @ enc32 (parent_index h) @ enc32 (xattr_num h)"

text \<open>The fields read through \<open>(struct header_struct *)(b + sizeof(struct bucket_struct))\<close>.\<close>

definition cur_size :: "string \<Rightarrow> int32" where "cur_size b = peek32 b 0"
definition hdr_is_dir :: "string \<Rightarrow> int32" where "hdr_is_dir b = peek32 b 4"
definition hdr_data_len :: "string \<Rightarrow> int32" where "hdr_data_len b = peek32 b 8"
definition hdr_num_buckets :: "string \<Rightarrow> int32" where "hdr_num_buckets b = peek32 b 12"
definition hdr_parent_index :: "string \<Rightarrow> int32" where "hdr_parent_index b = peek32 b 16"
definition hdr_xattr_num :: "string \<Rightarrow> int32" where "hdr_xattr_num b = peek32 b 20"

definition set_cur_size :: "int32 \<Rightarrow> string \<Rightarrow> string" where
  "set_cur_size w b = poke b 0 (enc32 w)"
definition set_is_dir :: "int32 \<Rightarrow> string \<Rightarrow> string" where
  "set_is_dir w b = poke b 4 (enc32 w)"
definition set_data_len :: "int32 \<Rightarrow> string \<Rightarrow> string" where
  "set_data_len w b = poke b 8 (enc32 w)"
definition set_num_buckets :: "int32 \<Rightarrow> string \<Rightarrow> string" where
  "set_num_buckets w b = poke b 12 (enc32 w)"
definition set_parent_index :: "int32 \<Rightarrow> string \<Rightarrow> string" where
  "set_parent_index w b = poke b 16 (enc32 w)"
definition set_xattr_num :: "int32 \<Rightarrow> string \<Rightarrow> string" where
  "set_xattr_num w b = poke b 20 (enc32 w)"

lemmas hdr_defs = hdr_is_dir_def hdr_data_len_def hdr_num_buckets_def hdr_parent_index_def
  hdr_xattr_num_def cur_size_def
lemmas set_hdr_defs = set_is_dir_def set_data_len_def set_num_buckets_def
  set_parent_index_def set_xattr_num_def set_cur_size_def

text \<open>The stored form of a header, and of a block of bytes (a child's path, file data).\<close>

definition meta_value :: "header_struct \<Rightarrow> string" where
  "meta_value h = enc32 24 @ enc_header h"

definition bucket_value :: "string \<Rightarrow> string" where
  "bucket_value d = enc32 (of_nat (sizeof_bucket + length d)) @ d"

lemma length_meta_value [simp, bounds]: "length (meta_value h) = 24"
  by (simp add: meta_value_def enc_header_def)

lemma length_bucket_value [simp, bounds]: "length (bucket_value d) = 4 + length d"
  by (simp add: bucket_value_def sizeof_bucket_def)

lemma framed_meta_value [simp]: "framed (meta_value h)"
  by (simp add: framed_def) (simp add: meta_value_def)

lemma framed_bucket_value [simp]: "length d \<le> 64996 \<Longrightarrow> framed (bucket_value d)"
  by (simp add: framed_def) (simp add: bucket_value_def sizeof_bucket_def)

lemma peek_meta_value [simp]:
  "cur_size (meta_value h @ r) = 24"
  "hdr_is_dir (meta_value h @ r) = is_dir h"
  "hdr_data_len (meta_value h @ r) = data_len h"
  "hdr_num_buckets (meta_value h @ r) = num_buckets h"
  "hdr_parent_index (meta_value h @ r) = parent_index h"
  "hdr_xattr_num (meta_value h @ r) = xattr_num h"
  by (simp_all add: hdr_defs peek32_def meta_value_def enc_header_def)

lemma poke_meta_value [simp]:
  "set_is_dir w (meta_value h @ r) = meta_value (h\<lparr>is_dir := w\<rparr>) @ r"
  "set_data_len w (meta_value h @ r) = meta_value (h\<lparr>data_len := w\<rparr>) @ r"
  "set_num_buckets w (meta_value h @ r) = meta_value (h\<lparr>num_buckets := w\<rparr>) @ r"
  "set_parent_index w (meta_value h @ r) = meta_value (h\<lparr>parent_index := w\<rparr>) @ r"
  "set_xattr_num w (meta_value h @ r) = meta_value (h\<lparr>xattr_num := w\<rparr>) @ r"
  by (simp_all add: set_hdr_defs poke_def meta_value_def enc_header_def)

lemma length_set_hdr [simp, bounds]:
  "24 \<le> length b \<Longrightarrow> length (set_cur_size w b) = length b"
  "24 \<le> length b \<Longrightarrow> length (set_is_dir w b) = length b"
  "24 \<le> length b \<Longrightarrow> length (set_data_len w b) = length b"
  "24 \<le> length b \<Longrightarrow> length (set_num_buckets w b) = length b"
  "24 \<le> length b \<Longrightarrow> length (set_parent_index w b) = length b"
  "24 \<le> length b \<Longrightarrow> length (set_xattr_num w b) = length b"
  by (simp_all add: set_hdr_defs)

text \<open>A header written field by field into fresh memory; what is not written stays.\<close>

lemma peek_bucket_value [simp]:
  "length d < 2147483644 \<Longrightarrow> sint (cur_size (bucket_value d @ r)) = 4 + int (length d)"
  using sint_of_nat32 [of "4 + length d"]
  by (simp add: bucket_value_def hdr_defs peek32_def sizeof_bucket_def)

lemma meta_value_inject [simp]: "meta_value h = meta_value h' \<longleftrightarrow> h = h'"
proof
  assume "meta_value h = meta_value h'"
  then have "meta_value h @ [] = meta_value h' @ []" by simp
  then show "h = h'" using peek_meta_value [of h "[]"] peek_meta_value [of h' "[]"]
    by (metis header_struct.equality unit_eq)
qed simp

lemma take_meta_value [simp]: "take 24 (meta_value h @ r) = meta_value h"
  by simp


section \<open>Keys\<close>

definition child_key :: "int \<Rightarrow> string \<Rightarrow> string" where
  "child_key i path = dec_int i @ path"

definition data_key :: "int \<Rightarrow> string \<Rightarrow> string" where
  "data_key i path = ''&'' @ dec_int i @ path"

definition xattr_key :: "int \<Rightarrow> string \<Rightarrow> string" where
  "xattr_key i path = ''$'' @ dec_int i @ path"

text \<open>
  Paths the scheme can hold: absolute, without white space or control characters, and
  short enough that every key made from them fits the code's 250-byte arrays.
\<close>

definition valid_path :: "string \<Rightarrow> bool" where
  "valid_path p \<longleftrightarrow> p \<noteq> [] \<and> hd p = CHR ''/'' \<and> length p \<le> 230 \<and> list_all key_char p"

definition valid_name :: "string \<Rightarrow> bool" where
  "valid_name n \<longleftrightarrow> n \<noteq> [] \<and> CHR ''/'' \<notin> set n \<and> list_all key_char n"

definition join :: "string \<Rightarrow> string \<Rightarrow> string" where
  "join d n = (if d = ''/'' then ''/'' @ n else d @ ''/'' @ n)"

lemma takeWhile_key:
  assumes "CHR ''/'' \<notin> set a" "p \<noteq> []" "hd p = CHR ''/''"
  shows "takeWhile (\<lambda>c. c \<noteq> CHR ''/'') (a @ p) = a"
  using assms by (cases p) (auto simp: takeWhile_stop)

lemma key_append_inject:
  assumes "a @ p = b @ q" "CHR ''/'' \<notin> set a" "CHR ''/'' \<notin> set b" "valid_path p" "valid_path q"
  shows "a = b \<and> p = q"
  using assms takeWhile_key [of a p] takeWhile_key [of b q] by (simp add: valid_path_def)

lemma child_key_inject [simp]:
  "valid_path p \<Longrightarrow> valid_path q \<Longrightarrow> child_key i p = child_key j q \<longleftrightarrow> i = j \<and> p = q"
  using key_append_inject [of "dec_int i" p "dec_int j" q] dec_int_no_slash
  by (auto simp: child_key_def)

lemma data_key_inject [simp]:
  "valid_path p \<Longrightarrow> valid_path q \<Longrightarrow> data_key i p = data_key j q \<longleftrightarrow> i = j \<and> p = q"
  using key_append_inject [of "dec_int i" p "dec_int j" q] dec_int_no_slash
  by (auto simp: data_key_def)

lemma xattr_key_inject [simp]:
  "valid_path p \<Longrightarrow> valid_path q \<Longrightarrow> xattr_key i p = xattr_key j q \<longleftrightarrow> i = j \<and> p = q"
  using key_append_inject [of "dec_int i" p "dec_int j" q] dec_int_no_slash
  by (auto simp: xattr_key_def)

lemma hd_dec_int: "is_digit (hd (dec_int i)) \<or> hd (dec_int i) = CHR ''-''"
  using dec_nat_digits [of "hd (dec_nat n)" n for n] by (simp add: dec_int_def)

lemma hd_child_key: "is_digit (hd (child_key i p)) \<or> hd (child_key i p) = CHR ''-''"
  using hd_dec_int [of i] by (simp add: child_key_def)

lemma key_heads [simp]:
  "hd (child_key i p) \<noteq> CHR ''/''" "hd (child_key i p) \<noteq> CHR ''&''"
  "hd (child_key i p) \<noteq> CHR ''$''" "hd (child_key i p) \<noteq> CHR ''s''"
  "hd (data_key i p) = CHR ''&''" "hd (xattr_key i p) = CHR ''$''"
  using hd_child_key [of i p] by (auto simp: is_digit_def data_key_def xattr_key_def)

lemma keys_disjoint [simp]:
  "child_key i p \<noteq> data_key j q" "data_key j q \<noteq> child_key i p"
  "child_key i p \<noteq> xattr_key j q" "xattr_key j q \<noteq> child_key i p"
  "data_key i p \<noteq> xattr_key j q" "xattr_key j q \<noteq> data_key i p"
  "child_key i p \<noteq> ''stats''" "data_key i p \<noteq> ''stats''" "xattr_key i p \<noteq> ''stats''"
  "child_key i p \<noteq> ''/''" "''/'' \<noteq> child_key i p"
  using key_heads [of i p] key_heads [of j q]
  by (auto dest!: arg_cong [where f = hd] dest: sym)

lemma keys_not_path [simp]:
  assumes "valid_path q"
  shows "child_key i p \<noteq> q" "q \<noteq> child_key i p" "data_key i p \<noteq> q" "q \<noteq> data_key i p"
    "xattr_key i p \<noteq> q" "q \<noteq> xattr_key i p" "q \<noteq> ''stats''"
  using assms key_heads [of i p] by (auto simp: valid_path_def)

lemma keys_not_valid_path [simp]:
  "\<not> valid_path (child_key i p)" "\<not> valid_path (data_key i p)" "\<not> valid_path (xattr_key i p)"
  using keys_not_path by blast+

lemma valid_path_valid_key [simp]: "valid_path p \<Longrightarrow> valid_key p"
  by (simp add: valid_path_def valid_key_def)

lemma dec_int_key_char: "list_all key_char (dec_int i)"
proof -
  have "key_char c" if "is_digit c" for c using that by (simp add: is_digit_def key_char_def)
  moreover have "key_char (CHR ''-'')" by (simp add: key_char_def)
  ultimately show ?thesis by (auto simp: dec_int_def list_all_iff dest: dec_nat_digits)
qed

lemma valid_keys [simp]:
  assumes "valid_path p" "- 2147483648 \<le> i" "i < 2147483648"
  shows "valid_key (child_key i p)" "valid_key (data_key i p)" "valid_key (xattr_key i p)"
  using assms length_dec_int32 [of i] dec_int_key_char [of i]
  by (auto simp: child_key_def data_key_def xattr_key_def valid_key_def valid_path_def key_char_def)

lemma length_keys [bounds]:
  assumes "valid_path p" "- 2147483648 \<le> i" "i < 2147483648"
  shows "length (child_key i p) < 250" "length (data_key i p) < 250" "length (xattr_key i p) < 250"
  using assms length_dec_int32 [of i]
  by (auto simp: child_key_def data_key_def xattr_key_def valid_path_def)

lemma valid_path_root [simp]: "valid_path ''/''"
  by (simp add: valid_path_def key_char_def)

lemma valid_key_stats [simp]: "valid_key ''stats''"
  by (simp add: valid_key_def key_char_def)

lemma join_neq_dir [simp]: "join d n \<noteq> d" if "valid_name n"
  using that by (auto simp: join_def valid_name_def)

end
