(* ===== verification/CacheProps.thy ===== *)
theory CacheProps
  imports Layout
begin

text \<open>
  The properties of the memcached client and of the key scheme.
\<close>

text \<open>C29. What cache\_set stores, cache\_get gives back: the bytes reach the caller's buffer, the
  rest of the buffer and all other keys keep their contents, and nothing stays unread on the
  socket.\<close>

theorem cache_set_get_roundtrip:
  assumes "memcached serve store" "inbox s = []" "valid_key k" "framed v" "length v \<le> length buf"
  shows "\<exists>s'. cache_set serve J k (v @ r) (int (length v)) s = Inr (0, s') \<and>
    inbox s' = [] \<and> store (peer s') = (store (peer s))(k \<mapsto> v) \<and>
    cache_get serve J' k buf s' = Inr (0, v @ drop (length v) buf, s')"
proof -
  have l: "length v \<le> 65000" using assms(4) by (simp add: framed_def)
  define s' where "s' = s\<lparr>peer := cput serve (peer s) k v\<rparr>"
  have "cache_set serve J k (v @ r) (int (length v)) s = Inr (0, s')"
    using memcached.cache_set_stored [OF assms(1-3), of "int (length v)" "v @ r" J] l
    by (simp add: s'_def)
  moreover have st: "store (peer s') = (store (peer s))(k \<mapsto> v)"
    using memcached.store_cput [OF assms(1,3)] l by (simp add: s'_def)
  moreover have "cache_get serve J' k buf s' = Inr (0, v @ drop (length v) buf, s')"
    using memcached.cache_get_hit [OF assms(1) _ assms(3) _ assms(4,5), of s' J'] st assms(2)
    by (simp add: s'_def overlay_def)
  ultimately show ?thesis using assms(2) by (intro exI [of _ s']) (simp add: s'_def)
qed

theorem cache_set_get_roundtrip_witness:
  "\<exists>s'. cache_get ref_serve (\<lambda>_ _. NUL) ''/x'' (replicate 1280 NUL) s' =
     Inr (0, bucket_value ''hi'' @ replicate 1274 NUL, s')"
  using cache_set_get_roundtrip [where store = ref_store and s = "\<lparr>peer = Map.empty, inbox = []\<rparr>"
      and k = "''/x''" and v = "bucket_value ''hi''" and buf = "replicate 1280 NUL"
      and J = "\<lambda>_ _. NUL" and J' = "\<lambda>_ _. NUL" and r = "[]", OF ref.memcached_axioms]
  by (auto simp: valid_key_def key_char_def)

text \<open>A key that is not stored is a miss: cache\_get returns -1 and leaves the caller's buffer
  as it was.\<close>

theorem cache_get_after_delete:
  assumes "memcached serve store" "inbox s = []" "valid_key k" "16 \<le> length b"
  shows "\<exists>b' s'. cache_msg serve (''delete '' @ k @ crlf) b s = Inr (0, b', s') \<and>
    store (peer s') = (store (peer s))(k := None) \<and>
    cache_get serve J k buf s' = Inr (- 1, buf, s')"
proof -
  define s' where "s' = s\<lparr>peer := cdel serve (peer s) k\<rparr>"
  obtain b' where "cache_msg serve (del_req k) b s = Inr (0, b', s')"
    using memcached.cache_delete_ok [OF assms(1-4)] by (auto simp: s'_def)
  moreover have st: "store (peer s') = (store (peer s))(k := None)"
    using memcached.store_cdel [OF assms(1,3)] by (simp add: s'_def)
  moreover have "cache_get serve J k buf s' = Inr (- 1, buf, s')"
    using memcached.cache_get_miss [OF assms(1) _ assms(3), of s'] st assms(2) by (simp add: s'_def)
  ultimately show ?thesis unfolding del_req_def by blast
qed

theorem cache_get_after_delete_witness:
  "\<exists>b' s'. cache_msg ref_serve (''delete '' @ ''/x'' @ crlf) (replicate 128 NUL)
     \<lparr>peer = [''/x'' \<mapsto> bucket_value ''hi''], inbox = []\<rparr> = Inr (0, b', s') \<and>
   cache_get ref_serve (\<lambda>_ _. NUL) ''/x'' ''abc'' s' = Inr (- 1, ''abc'', s')"
proof -
  have "valid_key ''/x''" by (simp add: valid_key_def key_char_def)
  then show ?thesis
    using cache_get_after_delete [where store = ref_store and b = "replicate 128 NUL"
        and s = "\<lparr>peer = [''/x'' \<mapsto> bucket_value ''hi''], inbox = []\<rparr>"
        and J = "\<lambda>_ _. NUL" and buf = "''abc''" and k = "''/x''", OF ref.memcached_axioms]
    by fastforce
qed

text \<open>A refused store is reported only by accident: after the answer NOT\_STORED, cache\_set
  returns -1 exactly when the uninitialised byte behind the answer happens to be NUL, and 0
  (success) otherwise.\<close>

theorem cache_set_not_stored:
  assumes "serve (peer s) (set_req k v) = Some (''NOT_STORED'' @ crlf, m')" "inbox s = []"
    "valid_key k" "length v \<le> 65000"
  shows "cache_set serve J k v (int (length v)) s =
    Inr (if J ''buffer'' 12 = NUL then - 1 else 0, s\<lparr>peer := m'\<rparr>)"
proof -
  let ?d = "''set '' @ k @ '' 0 0 '' @ dec_int (int (length v)) @ crlf"
  note k = valid_key_facts [OF assms(3)]
  have dl: "length (dec_nat (length v)) \<le> 10"
    using assms(4) by (intro length_dec_nat32) simp
  have f: "fits 66000 ?d = Inr ?d" using k(6) dl by simp
  have g: "length ?d + length v + 3 \<le> 66000" using k(6) dl assms(4) by simp
  have req: "?d @ v @ crlf = set_req k v" by (simp add: set_req_def)
  define r where "r = ''NOT_STORED'' @ crlf"
  have r: "length r = 12" "r \<noteq> []" by (simp_all add: r_def)
  have s: "sock_send serve s (set_req k v) = Some (s\<lparr>peer := m', inbox := r\<rparr>)"
    using assms(1,2) by (simp add: sock_send_def r_def)
  have j: "drop 12 (uninit J ''buffer'' 128) = J ''buffer'' 12 # drop 13 (uninit J ''buffer'' 128)"
    using Cons_nth_drop_Suc [of 12 "uninit J ''buffer'' 128"] by (simp add: uninit_def)
  have o: "overlay r (uninit J ''buffer'' 128) = r @ J ''buffer'' 12 # drop 13 (uninit J ''buffer'' 128)"
    by (simp add: overlay_def r j)
  have c1: "cstr (r @ c # x) = r \<longleftrightarrow> c = NUL" for c x by (simp add: cstr_def r_def)
  have c2: "cstr (r @ c # x) \<noteq> ''ERROR'' @ crlf" for c x by (simp add: cstr_def r_def)
  show ?thesis
    unfolding cache_set_def r_def [symmetric]
    using f g assms(2) r c2
    by (simp add: req [simplified] s sock_read_def o c1 FAST_MODE_def Let_def)
qed

theorem cache_set_not_stored_witness:
  "cache_set (\<lambda>m req. Some (''NOT_STORED'' @ crlf, m)) (\<lambda>_ _. CHR ''?'') ''/x'' ''hi'' 2
     \<lparr>peer = (), inbox = []\<rparr> = Inr (0, \<lparr>peer = (), inbox = []\<rparr>)"
proof -
  have "valid_key ''/x''" by (simp add: valid_key_def key_char_def)
  then show ?thesis
    using cache_set_not_stored [of "\<lambda>m req. Some (''NOT_STORED'' @ crlf, m)"
        "\<lparr>peer = (), inbox = []\<rparr>" "''/x''" "''hi''" "()" "\<lambda>_ _. CHR ''?''"]
    by simp
qed

text \<open>The key scheme is injective: the header of a node, the child slots, the data buckets and
  the attributes of any two nodes never share a key, and none of them is ``stats''.\<close>

theorem keys_unique:
  assumes "valid_path p" "valid_path q"
  shows "(child_key i p = child_key j q \<longleftrightarrow> i = j \<and> p = q) \<and>
    (data_key i p = data_key j q \<longleftrightarrow> i = j \<and> p = q) \<and>
    (xattr_key i p = xattr_key j q \<longleftrightarrow> i = j \<and> p = q) \<and>
    child_key i p \<noteq> data_key j q \<and> child_key i p \<noteq> xattr_key j q \<and> data_key i p \<noteq> xattr_key j q \<and>
    child_key i p \<noteq> q \<and> data_key i p \<noteq> q \<and> xattr_key i p \<noteq> q \<and>
    ''stats'' \<notin> {p, child_key i p, data_key i p, xattr_key i p}"
proof -
  have "''stats'' \<noteq> child_key i p" "''stats'' \<noteq> data_key i p" "''stats'' \<noteq> xattr_key i p"
    "''stats'' \<noteq> p"
    using keys_disjoint(7-9) [of i p] keys_not_path(7) [OF assms(1)] by metis+
  then show ?thesis using assms by simp
qed

theorem keys_unique_witness:
  "child_key 11 ''/'' \<noteq> child_key 1 ''/1'' \<and> data_key 1 ''/a'' \<noteq> data_key 1 ''/b''"
proof -
  have "valid_path ''/1''" "valid_path ''/a''" "valid_path ''/b''"
    by (simp_all add: valid_path_def key_char_def)
  then show ?thesis
    using keys_unique [of "''/''" "''/1''" 11 1] keys_unique [of "''/a''" "''/b''" 1 1] by simp
qed

end
