(* ===== verification/PartialReads.thy ===== *)
theory PartialReads
  imports CacheProps
begin

text \<open>
  Answers of the server that arrive in parts.  \<open>read\<close> on a stream socket returns what has arrived;
  \<open>cache_get\<close> calls it once and takes what it gets for the whole answer.
\<close>

section \<open>A read that delivers a part\<close>

text \<open>\<open>arrived\<close> bytes of what the server has sent have arrived when \<open>read\<close> is called.\<close>

definition sock_read_part :: "nat \<Rightarrow> 'm sock \<Rightarrow> nat \<Rightarrow> (string \<times> 'm sock) result" where
  "sock_read_part arrived s n =
     (if inbox s = [] \<or> arrived = 0 then Inl Blocked
      else Inr (take (min arrived n) (inbox s), s\<lparr>inbox := drop (min arrived n) (inbox s)\<rparr>))"

definition cache_get_part ::
    "nat \<Rightarrow> 'm server \<Rightarrow> junk \<Rightarrow> string \<Rightarrow> string \<Rightarrow> 'm sock \<Rightarrow> (int \<times> string \<times> 'm sock) result" where
  "cache_get_part arrived serve J key buffer s =
     andthen (fits 264 (''get '' @ key @ crlf)) (\<lambda>data.
     case sock_send serve s data of
       None \<Rightarrow> Inr (- 1, buffer, s)
     | Some s \<Rightarrow>
         andthen (sock_read_part arrived s 66000) (\<lambda>(got, s).
         let ans = overlay got (uninit J ''ans'' 66000) in
         if take 5 ans = ''VALUE'' then
           andthen (past_newline (drop 5 ans) 5) (\<lambda>pos.
           andthen (load32 ans pos) (\<lambda>len.
           andthen (memcpy buffer 0 ans pos (sint len)) (\<lambda>buffer.
           Inr (0, buffer, s))))
         else Inr (- 1, buffer, s)))"

text \<open>When everything has arrived this is \<open>cache_get\<close>.\<close>

lemma sock_read_whole: "66000 \<le> arrived \<Longrightarrow> sock_read_part arrived s 66000 = sock_read s 66000"
  by (simp add: sock_read_part_def sock_read_def)

lemma cache_get_whole: "66000 \<le> arrived \<Longrightarrow> cache_get_part arrived = cache_get"
  by (intro ext) (simp add: cache_get_part_def cache_get_def sock_read_whole cong: option.case_cong)


section \<open>The header of an answer\<close>






section \<open>Properties\<close>






end
