(* ===== verification/Nodes.thy ===== *)
theory Nodes
  imports Layout
begin

text \<open>
  The operations of \<open>cachedfs/main.c\<close> that create, remove, list and look up files and
  directories, in the order of the source.  Each takes the server, the junk of its
  uninitialised storage, the C arguments the code reads, and the socket; it returns the C
  result and the socket, or a fault.  Error numbers are those of Linux.
\<close>

section \<open>Constants and the stat buffer\<close>

definition EPERM :: int where "EPERM = 1"
definition ENOENT :: int where "ENOENT = 2"
definition EFAULT :: int where "EFAULT = 14"
definition ENOTDIR :: int where "ENOTDIR = 20"
definition ENOTEMPTY :: int where "ENOTEMPTY = 39"

lemmas errno_defs = EPERM_def ENOENT_def EFAULT_def ENOTDIR_def ENOTEMPTY_def

record stat =
  st_mode :: nat
  st_nlink :: nat
  st_size :: int

definition S_IFDIR_0755 :: nat where "S_IFDIR_0755 = 16384 + 493"
definition S_IFREG_0444 :: nat where "S_IFREG_0444 = 32768 + 292"


section \<open>getattr and readdir\<close>

definition hello_getattr ::
    "'m server \<Rightarrow> junk \<Rightarrow> string \<Rightarrow> 'm sock \<Rightarrow> (int \<times> stat \<times> 'm sock) result" where
  "hello_getattr serve J path s =
     andthen (cache_get serve (at J ''get'') path (uninit J ''mabuf'' 1280) s) (\<lambda>(r, mabuf, s).
     let res = (if r = - 1 then - ENOENT else 0);
         stbuf = (if hdr_is_dir mabuf \<noteq> 0
                  then \<lparr>st_mode = S_IFDIR_0755, st_nlink = 2, st_size = 0\<rparr>
                  else \<lparr>st_mode = S_IFREG_0444, st_nlink = 1,
                        st_size = sint (hdr_data_len mabuf)\<rparr>)
     in Inr (res, stbuf, s))"

text \<open>
  \<open>while(buffer[startIndex] != '/') startIndex--; startIndex++;\<close>  The argument is
  \<open>startIndex + 1\<close>.
\<close>

fun back_to_slash :: "string \<Rightarrow> nat \<Rightarrow> nat result" where
  "back_to_slash b 0 = Inl Overrun"
| "back_to_slash b (Suc i) =
     (if length b \<le> i then Inl Overrun
      else if b ! i = CHR ''/'' then Inr (Suc i)
      else back_to_slash b i)"

text \<open>
  The loop of readdir over \<open>i = 1 .. cur\<close>; \<open>names\<close> is what \<open>filler\<close> has been called with.
\<close>

fun readdir_loop ::
    "'m server \<Rightarrow> junk \<Rightarrow> string \<Rightarrow> int list \<Rightarrow> string list \<Rightarrow> 'm sock \<Rightarrow>
     (string list \<times> 'm sock) result" where
  "readdir_loop serve J path [] names s = Inr (names, s)"
| "readdir_loop serve J path (i # is) names s =
     andthen (fits 250 (child_key i path)) (\<lambda>curKey.
     andthen (cache_get serve (at J (dec_int i)) curKey
                (uninit (at J (dec_int i)) ''buffer'' 1280) s) (\<lambda>(_, buffer, s).
     let size = sint (cur_size buffer) in
     andthen (back_to_slash buffer (nat size)) (\<lambda>startIndex.
     andthen (strncpy_str 264 buffer startIndex (size - int startIndex)) (\<lambda>fml.
     readdir_loop serve J path is (names @ [fml]) s))))"

definition hello_readdir ::
    "'m server \<Rightarrow> junk \<Rightarrow> string \<Rightarrow> 'm sock \<Rightarrow> (int \<times> string list \<times> 'm sock) result" where
  "hello_readdir serve J path s =
     andthen (cache_get serve (at J ''get'') path (uninit J ''buffer'' 1280) s) (\<lambda>(r, buffer, s).
     if r = - 1 then Inr (- ENOENT, [], s)
     else
       let cur = sint (hdr_num_buckets buffer) in
       andthen (readdir_loop serve J path [1..cur] [''.'', ''..''] s) (\<lambda>(names, s).
       Inr (0, names, s)))"

definition hello_open :: "string \<Rightarrow> int" where "hello_open path = 0"
definition hello_opendir :: "string \<Rightarrow> int" where "hello_opendir path = 0"
definition hello_release :: "string \<Rightarrow> int" where "hello_release path = 0"


section \<open>Counters in a header\<close>

definition increaseChildrensNum ::
    "'m server \<Rightarrow> junk \<Rightarrow> string \<Rightarrow> 'm sock \<Rightarrow> (int \<times> 'm sock) result" where
  "increaseChildrensNum serve J path s =
     andthen (cache_get serve (at J ''get'') path (uninit J ''buffer'' 1280) s) (\<lambda>(r, buffer, s).
     if r \<noteq> - 1 then
       let cur = hdr_num_buckets buffer + 1; buffer = set_num_buckets cur buffer in
       andthen (cache_set serve (at J ''set'') path buffer
                  (int (sizeof_bucket + sizeof_header)) s) (\<lambda>(_, s).
       Inr (sint cur, s))
     else Inr (- 1, s))"

definition increaseXattrNum ::
    "'m server \<Rightarrow> junk \<Rightarrow> string \<Rightarrow> 'm sock \<Rightarrow> (int \<times> 'm sock) result" where
  "increaseXattrNum serve J path s =
     andthen (cache_get serve (at J ''get'') path (uninit J ''buffer'' 1280) s) (\<lambda>(r, buffer, s).
     if r \<noteq> - 1 then
       let cur = hdr_xattr_num buffer + 1; buffer = set_xattr_num cur buffer in
       andthen (cache_set serve (at J ''set'') path buffer
                  (int (sizeof_bucket + sizeof_header)) s) (\<lambda>(_, s).
       Inr (sint cur, s))
     else Inr (- 1, s))"

definition decreaseChildrensNum ::
    "'m server \<Rightarrow> junk \<Rightarrow> string \<Rightarrow> 'm sock \<Rightarrow> (int \<times> 'm sock) result" where
  "decreaseChildrensNum serve J path s =
     andthen (cache_get serve (at J ''get'') path (uninit J ''buffer'' 1280) s) (\<lambda>(r, buffer, s).
     if r \<noteq> - 1 then
       let cur = hdr_num_buckets buffer - 1; buffer = set_num_buckets cur buffer in
       andthen (cache_set serve (at J ''set'') path buffer
                  (int (sizeof_bucket + sizeof_header)) s) (\<lambda>(_, s).
       Inr (sint cur, s))
     else Inr (- 1, s))"

definition decreaseXattrNum ::
    "'m server \<Rightarrow> junk \<Rightarrow> string \<Rightarrow> 'm sock \<Rightarrow> (int \<times> 'm sock) result" where
  "decreaseXattrNum serve J path s =
     andthen (cache_get serve (at J ''get'') path (uninit J ''buffer'' 1280) s) (\<lambda>(r, buffer, s).
     if r \<noteq> - 1 then
       let cur = hdr_xattr_num buffer - 1; buffer = set_xattr_num cur buffer in
       andthen (cache_set serve (at J ''set'') path buffer
                  (int (sizeof_bucket + sizeof_header)) s) (\<lambda>(_, s).
       Inr (sint cur, s))
     else Inr (- 1, s))"


section \<open>The parent of a path, addToParent\<close>

text \<open>
  \<open>len--; while(parent[len] != '/') { parent[len] = '\0'; len--; }\<close> on the copy of the
  path: the remaining string and \<open>len\<close>.  The argument is \<open>len + 1\<close>; reading
  \<open>parent[-1]\<close> is an overrun.
\<close>

fun cut :: "string \<Rightarrow> nat \<Rightarrow> (string \<times> nat) result" where
  "cut parent 0 = Inl Overrun"
| "cut parent (Suc len) =
     (if parent ! len = CHR ''/'' then Inr (take (Suc len) parent, len) else cut parent len)"

definition parent_dir :: "string \<Rightarrow> string result" where
  "parent_dir path =
     andthen (fits 250 path) (\<lambda>parent.
     andthen (cut parent (length parent)) (\<lambda>(parent, len).
     Inr (if len \<noteq> 0 then take len parent else parent)))"

definition addToParent ::
    "'m server \<Rightarrow> junk \<Rightarrow> string \<Rightarrow> 'm sock \<Rightarrow> (int \<times> 'm sock) result" where
  "addToParent serve J path s =
     (if path = ''/'' then Inr (0, s)
      else
        andthen (parent_dir path) (\<lambda>parent.
        andthen (increaseChildrensNum serve (at J ''increase'') parent s) (\<lambda>(curNum, s).
        andthen (fits 264 (child_key curNum parent)) (\<lambda>newKey.
        let cur_buf_real_len = sizeof_bucket + length path;
            buff = set_cur_size (of_nat cur_buf_real_len) (uninit J ''buff'' 332) in
        andthen (memcpy buff sizeof_bucket (path @ [NUL]) 0 (int (length path) + 1)) (\<lambda>buff.
        andthen (cache_set serve (at J ''set'') newKey buff (int cur_buf_real_len) s) (\<lambda>(_, s).
        Inr (curNum, s)))))))"

definition hello_mkdir ::
    "'m server \<Rightarrow> junk \<Rightarrow> string \<Rightarrow> 'm sock \<Rightarrow> (int \<times> 'm sock) result" where
  "hello_mkdir serve J path s =
     andthen (addToParent serve (at J ''addToParent'') path s) (\<lambda>(parentIndex, s).
     if parentIndex \<ge> 0 then
       let cur_bucket_size = sizeof_bucket + sizeof_header;
           buf = set_cur_size (of_nat cur_bucket_size) (uninit J ''buf'' cur_bucket_size);
           buf = set_is_dir 1 buf;
           buf = set_num_buckets 0 buf;
           buf = set_data_len 0 buf;
           buf = set_parent_index (of_int parentIndex) buf in
       andthen (cache_set serve (at J ''set'') path buf (int cur_bucket_size) s) (\<lambda>(_, s).
       Inr (0, s))
     else Inr (- EFAULT, s))"

text \<open>\<open>hello_create\<close> has no \<open>return\<close> on the path where the parent does not exist.\<close>

definition hello_create ::
    "'m server \<Rightarrow> junk \<Rightarrow> string \<Rightarrow> 'm sock \<Rightarrow> (int \<times> 'm sock) result" where
  "hello_create serve J path s =
     andthen (addToParent serve (at J ''addToParent'') path s) (\<lambda>(parentIndex, s).
     if parentIndex \<ge> 0 then
       let cur_bucket_size = sizeof_bucket + sizeof_header;
           buffer = set_cur_size (of_nat cur_bucket_size) (uninit J ''buffer'' cur_bucket_size);
           buffer = set_is_dir 0 buffer;
           buffer = set_data_len 0 buffer;
           buffer = set_num_buckets 0 buffer;
           buffer = set_parent_index (of_int parentIndex) buffer;
           buffer = set_xattr_num 0 buffer in
       andthen (cache_set serve (at J ''set'') path buffer (int cur_bucket_size) s) (\<lambda>(_, s).
       Inr (0, s))
     else Inl NoReturn)"


section \<open>Start-up\<close>

definition sizeof_stats :: nat where "sizeof_stats = 8"

text \<open>\<open>struct stats_struct\<close> behind the bucket struct: \<open>total_bytes\<close>, \<open>block_size\<close>.\<close>

definition stats_value :: string where
  "stats_value = enc32 (of_nat (sizeof_bucket + sizeof_stats)) @ enc32 0 @ enc32 (of_nat MAX_BUCKET_SIZE)"

definition init_check ::
    "'m server \<Rightarrow> junk \<Rightarrow> 'm sock \<Rightarrow> (int \<times> 'm sock) result" where
  "init_check serve J s =
     andthen (cache_get serve (at J ''get'') ''stats'' (uninit J ''curBuf'' 128) s) (\<lambda>(r, curBuf, s).
     if r = - 1 then Inr (0, s)
     else if peek32 curBuf (sizeof_bucket + 4) \<noteq> of_nat MAX_BUCKET_SIZE then Inr (0, s)
     else Inr (1, s))"

text \<open>After \<open>cache_init\<close>, which opens the connection; \<open>Startup\<close> has both.\<close>

definition hello_init :: "'m server \<Rightarrow> junk \<Rightarrow> 'm sock \<Rightarrow> 'm sock result" where
  "hello_init serve J s =
     andthen (init_check serve (at J ''init_check'') s) (\<lambda>(ok, s).
     if ok = 0 then
       andthen (cache_msg serve (''flush_all'' @ [NEWLINE]) (uninit J ''buffer'' 32) s) (\<lambda>(_, _, s).
       let cur_bucket_len = sizeof_bucket + sizeof_stats;
           buffer = poke (uninit J ''buffer2'' cur_bucket_len) 0 (enc32 (of_nat cur_bucket_len));
           buffer = poke buffer 4 (enc32 0);
           buffer = poke buffer 8 (enc32 (of_nat MAX_BUCKET_SIZE)) in
       andthen (cache_set serve (at J ''set'') ''stats'' buffer (int cur_bucket_len) s) (\<lambda>(_, s).
       andthen (hello_mkdir serve (at J ''mkdir'') ''/'' s) (\<lambda>(_, s).
       Inr s)))
     else Inr s)"


section \<open>rmdir and unlink\<close>

text \<open>
  The part \<open>hello_rmdir\<close> and \<open>hello_unlink\<close> have in common, statement for statement: the
  last child of the parent moves to the slot of the element that goes, the last slot and the
  element's own key are deleted.
\<close>

definition detach ::
    "'m server \<Rightarrow> junk \<Rightarrow> string \<Rightarrow> string \<Rightarrow> string \<Rightarrow> 'm sock \<Rightarrow> 'm sock result" where
  "detach serve J path parent current_element s =
     andthen (cache_get serve (at J ''1'') parent (uninit J ''parent_element'' 1280) s) (\<lambda>(_, _, s).
     let parentCurNum = hdr_parent_index current_element in
     andthen (fits 250 (child_key (sint parentCurNum) parent)) (\<lambda>keyToChange.
     andthen (decreaseChildrensNum serve (at J ''2'') parent s) (\<lambda>(num, s).
     let parentMaxIndex = to_int (num + 1) in
     andthen (fits 250 (child_key parentMaxIndex parent)) (\<lambda>parentLastElemKey.
     andthen (cache_get serve (at J ''3'') parentLastElemKey
                (uninit J ''lastElemOfParent'' 1280) s) (\<lambda>(_, lastElemOfParent, s).
     let elemLen = sint (cur_size lastElemOfParent) in
     andthen (cache_set serve (at J ''4'') keyToChange lastElemOfParent elemLen s) (\<lambda>(_, s).
     andthen (strncpy_str 260 lastElemOfParent sizeof_bucket
                (elemLen - int sizeof_bucket)) (\<lambda>keyBuf.
     andthen (cache_get serve (at J ''5'') keyBuf (uninit J ''tempBuf'' 1280) s) (\<lambda>(_, tempBuf, s).
     let tempBuf = set_parent_index parentCurNum tempBuf;
         curLength = sint (cur_size tempBuf) in
     andthen (cache_set serve (at J ''6'') keyBuf tempBuf curLength s) (\<lambda>(_, s).
     andthen (fits 264 (''delete '' @ parentLastElemKey @ crlf)) (\<lambda>removeLastMsg.
     andthen (cache_msg serve removeLastMsg (uninit J ''answer'' 128) s) (\<lambda>(_, _, s).
     andthen (fits 264 (''delete '' @ path @ crlf)) (\<lambda>curRemoveMsg.
     andthen (cache_msg serve curRemoveMsg (uninit J ''curAnswer'' 128) s) (\<lambda>(_, _, s).
     Inr s)))))))))))))"

definition hello_rmdir ::
    "'m server \<Rightarrow> junk \<Rightarrow> string \<Rightarrow> 'm sock \<Rightarrow> (int \<times> 'm sock) result" where
  "hello_rmdir serve J path s =
     (if path = ''/'' then Inr (- EPERM, s)
      else
        andthen (parent_dir path) (\<lambda>parent.
        andthen (cache_get serve (at J ''get'') path (uninit J ''current_element'' 1280) s)
          (\<lambda>(r, current_element, s).
        if r = - 1 then Inr (- ENOTDIR, s)
        else if sint (hdr_num_buckets current_element) > 0 then Inr (- ENOTEMPTY, s)
        else
          andthen (detach serve (at J ''detach'') path parent current_element s) (\<lambda>s.
          Inr (0, s)))))"

text \<open>
  \<open>for(i = 1; i <= n; i++)\<close> over the extended attributes (\<open>mk = xattr_key\<close>) and over the
  data buckets (\<open>mk = data_key\<close>) of the file that goes.
\<close>

fun delete_keys ::
    "'m server \<Rightarrow> junk \<Rightarrow> (int \<Rightarrow> string) \<Rightarrow> int list \<Rightarrow> 'm sock \<Rightarrow> 'm sock result" where
  "delete_keys serve J mk [] s = Inr s"
| "delete_keys serve J mk (i # is) s =
     andthen (fits 264 (''delete '' @ mk i @ crlf)) (\<lambda>rmChildMsg.
     andthen (cache_msg serve rmChildMsg (uninit (at J (dec_int i)) ''buffer'' 1280) s) (\<lambda>(_, _, s).
     delete_keys serve J mk is s))"

definition hello_unlink ::
    "'m server \<Rightarrow> junk \<Rightarrow> string \<Rightarrow> 'm sock \<Rightarrow> (int \<times> 'm sock) result" where
  "hello_unlink serve J path s =
     (if path = ''/'' then Inr (- EPERM, s)
      else
        andthen (parent_dir path) (\<lambda>parent.
        andthen (cache_get serve (at J ''get'') path (uninit J ''current_element'' 1280) s)
          (\<lambda>(r, current_element, s).
        if r = - 1 then Inr (- ENOENT, s)
        else
          let bucksNum = sint (hdr_num_buckets current_element);
              xattrsNum = sint (hdr_xattr_num current_element) in
          andthen (detach serve (at J ''detach'') path parent current_element s) (\<lambda>s.
          andthen (delete_keys serve (at J ''xattrs'') (\<lambda>i. xattr_key i path) [1..xattrsNum] s) (\<lambda>s.
          andthen (delete_keys serve (at J ''buckets'') (\<lambda>i. data_key i path) [1..bucksNum] s) (\<lambda>s.
          Inr (0, s)))))))"


section \<open>access\<close>

definition hello_access ::
    "'m server \<Rightarrow> junk \<Rightarrow> string \<Rightarrow> 'm sock \<Rightarrow> (int \<times> 'm sock) result" where
  "hello_access serve J path s =
     andthen (cache_get serve (at J ''get'') path (uninit J ''buf'' 1280) s) (\<lambda>(r, _, s).
     if r = - 1 then Inr (- ENOENT, s) else Inr (0, s))"

end
