(* ===== verification/NodeRuns.thy ===== *)
theory NodeRuns
  imports Nodes
begin

text \<open>
  What each operation of \<open>Nodes\<close> does on a socket with no unread bytes, as an equation:
  the result and the server's final state.  Proved once for every server that meets the
  contract \<open>memcached\<close>.
\<close>

section \<open>The parent of a path\<close>

lemma cut_append:
  "CHR ''/'' \<notin> set n \<Longrightarrow>
   cut (a @ CHR ''/'' # n @ r) (Suc (length a + length n)) = Inr (a @ ''/'', length a)"
proof (induction n arbitrary: r rule: rev_induct)
  case Nil
  then show ?case by (simp add: nth_append)
next
  case (snoc c n)
  from snoc.prems have c: "c \<noteq> CHR ''/''" and n: "CHR ''/'' \<notin> set n" by auto
  have "(a @ CHR ''/'' # (n @ [c]) @ r) ! Suc (length a + length n) = c"
    by (simp add: nth_append)
  then show ?case using c snoc.IH [OF n, of "c # r"] by simp
qed

lemma parent_dir_join [simp]:
  assumes "valid_path d" "valid_name n" "valid_path (join d n)"
  shows "parent_dir (join d n) = Inr d"
proof -
  have l: "length (join d n) < 250" and d: "d \<noteq> []"
    using assms by (auto simp: valid_path_def)
  have n: "CHR ''/'' \<notin> set n" using assms by (simp add: valid_name_def)
  show ?thesis
    using l d cut_append [OF n, of "[]" "[]"] cut_append [OF n, of d "[]"]
    by (auto simp: parent_dir_def join_def)
qed

lemma join_not_root [simp]: "valid_name n \<Longrightarrow> valid_path d \<Longrightarrow> join d n \<noteq> ''/''"
  by (cases d) (auto simp: join_def valid_name_def valid_path_def)

lemma join_inject:
  assumes "join d n = join d' n'" "valid_path d" "valid_name n" "valid_path d'" "valid_name n'"
    "valid_path (join d n)"
  shows "d = d' \<and> n = n'"
proof -
  have "d = d'" using assms parent_dir_join [of d n] parent_dir_join [of d' n'] by simp
  with assms show ?thesis by (simp add: join_def split: if_splits)
qed

lemma fits_delete:
  "length k < 250 \<Longrightarrow> fits 264 (''delete '' @ k @ crlf) = Inr (del_req k)"
  by (simp add: fits_def del_req_def)

lemmas fits_delete_cons [simp] = fits_delete [simplified append.simps]

lemma length_keys_simps [simp]:
  assumes "valid_path p" "- 2147483648 \<le> i" "i < 2147483648"
  shows "length (child_key i p) < 250" "length (data_key i p) < 250"
    "length (xattr_key i p) < 250" "length (child_key i p) < 264" "length p < 250"
  using length_keys [OF assms] assms(1) by (simp_all add: valid_path_def)


lemma back_to_slash_append:
  "CHR ''/'' \<notin> set n \<Longrightarrow>
   back_to_slash (a @ CHR ''/'' # n @ r) (Suc (length a + length n)) = Inr (Suc (length a))"
proof (induction n arbitrary: r rule: rev_induct)
  case Nil
  then show ?case by (simp add: nth_append)
next
  case (snoc c n)
  from snoc.prems have c: "c \<noteq> CHR ''/''" and n: "CHR ''/'' \<notin> set n" by auto
  have "(a @ CHR ''/'' # (n @ [c]) @ r) ! Suc (length a + length n) = c"
    by (simp add: nth_append)
  then show ?case using c snoc.IH [OF n, of "c # r"] by simp
qed

lemma last_component:
  fixes d n r :: string
  assumes "valid_name n" "length (join d n) \<le> 230" "d \<noteq> []"
  defines "b \<equiv> bucket_value (join d n) @ r"
  obtains k where "back_to_slash b (4 + length (join d n)) = Inr k"
    "strncpy_str 264 b k (4 + int (length (join d n)) - int k) = Inr n"
proof -
  have n: "CHR ''/'' \<notin> set n" "NUL \<notin> set n"
    using assms(1) by (auto simp: valid_name_def list_all_iff key_char_def)
  define a where "a = (if d = ''/'' then [] else d)"
  define A where "A = enc32 (of_nat (sizeof_bucket + length (join d n))) @ a"
  have j: "join d n = a @ CHR ''/'' # n" by (simp add: a_def join_def)
  have b: "b = A @ CHR ''/'' # n @ r" by (simp add: b_def bucket_value_def A_def j)
  have A: "4 + length (join d n) = Suc (length A + length n)" by (simp add: A_def j)
  show thesis
  proof
    show "back_to_slash b (4 + length (join d n)) = Inr (Suc (length A))"
      unfolding A b by (rule back_to_slash_append [OF n(1)])
    have "4 + int (length (join d n)) - int (Suc (length A)) = int (length n)"
      using A by simp
    moreover have "length n < 264" using assms(2) j by simp
    ultimately show "strncpy_str 264 b (Suc (length A))
        (4 + int (length (join d n)) - int (Suc (length A))) = Inr n"
      using n(2) by (simp add: strncpy_str_def b cstr_no_NUL)
  qed
qed


section \<open>Headers under construction\<close>

definition dir_header :: "int32 \<Rightarrow> int32 \<Rightarrow> header_struct" where
  "dir_header idx x =
     \<lparr>is_dir = 1, data_len = 0, num_buckets = 0, parent_index = idx, xattr_num = x\<rparr>"

definition file_header :: "int32 \<Rightarrow> header_struct" where
  "file_header idx =
     \<lparr>is_dir = 0, data_len = 0, num_buckets = 0, parent_index = idx, xattr_num = 0\<rparr>"

lemma length24_split:
  assumes "length b = 24"
  obtains b0 b1 b2 b3 b4 b5 where
    "b = b0 @ b1 @ b2 @ b3 @ b4 @ b5" "length b0 = 4" "length b1 = 4" "length b2 = 4"
    "length b3 = 4" "length b4 = 4" "length b5 = 4"
proof -
  have t: "take 4 (drop n b) @ drop (n + 4) b = drop n b" for n
    using append_take_drop_id [of 4 "drop n b"] by (simp add: add.commute)
  have "b = take 4 b @ take 4 (drop 4 b) @ take 4 (drop 8 b) @ take 4 (drop 12 b)
            @ take 4 (drop 16 b) @ drop 20 b"
    using t [of 4] t [of 8] t [of 12] t [of 16] by simp
  then show thesis by (rule that) (simp_all add: assms)
qed

lemma build_dir_header:
  assumes "length b = 24"
  shows "set_parent_index w (set_data_len 0 (set_num_buckets 0 (set_is_dir 1 (set_cur_size 24 b))))
         = meta_value (dir_header w (hdr_xattr_num b))"
  using assms
  by (elim length24_split)
     (simp add: set_hdr_defs poke_def hdr_defs peek32_def meta_value_def enc_header_def
        dir_header_def enc32_dec32)

lemma build_file_header:
  assumes "length b = 24"
  shows "set_xattr_num 0 (set_parent_index w (set_num_buckets 0 (set_data_len 0
           (set_is_dir 0 (set_cur_size 24 b))))) = meta_value (file_header w)"
  using assms
  by (elim length24_split)
     (simp add: set_hdr_defs poke_def meta_value_def enc_header_def file_header_def)


section \<open>The stores before and after\<close>

text \<open>
  A new entry \<open>p\<close> in the directory \<open>d\<close> whose header is \<open>h\<close>, and the removal of \<open>p\<close>: on the
  map the server holds, and on the server's state.  \<open>q\<close> is the path in the last slot of \<open>d\<close>.
\<close>

definition add_entry ::
    "(string \<Rightarrow> string option) \<Rightarrow> string \<Rightarrow> header_struct \<Rightarrow> string \<Rightarrow> header_struct \<Rightarrow>
     string \<Rightarrow> string option" where
  "add_entry st d h p hp =
     st(d \<mapsto> meta_value (h\<lparr>num_buckets := num_buckets h + 1\<rparr>),
        child_key (sint (num_buckets h) + 1) d \<mapsto> bucket_value p,
        p \<mapsto> meta_value hp)"

definition add_state ::
    "'m server \<Rightarrow> 'm \<Rightarrow> string \<Rightarrow> header_struct \<Rightarrow> string \<Rightarrow> header_struct \<Rightarrow> 'm" where
  "add_state serve m d h p hp =
     cput serve (cput serve (cput serve m d (meta_value (h\<lparr>num_buckets := num_buckets h + 1\<rparr>)))
       (child_key (sint (num_buckets h) + 1) d) (bucket_value p)) p (meta_value hp)"

definition remove_entry ::
    "(string \<Rightarrow> string option) \<Rightarrow> string \<Rightarrow> header_struct \<Rightarrow> string \<Rightarrow> header_struct \<Rightarrow>
     string \<Rightarrow> header_struct \<Rightarrow> string \<Rightarrow> string option" where
  "remove_entry st d h p hp q hq =
     st(d \<mapsto> meta_value (h\<lparr>num_buckets := num_buckets h - 1\<rparr>),
        child_key (sint (parent_index hp)) d \<mapsto> bucket_value q,
        q \<mapsto> meta_value (hq\<lparr>parent_index := parent_index hp\<rparr>),
        child_key (sint (num_buckets h)) d := None,
        p := None)"

definition remove_state ::
    "'m server \<Rightarrow> 'm \<Rightarrow> string \<Rightarrow> header_struct \<Rightarrow> string \<Rightarrow> header_struct \<Rightarrow>
     string \<Rightarrow> header_struct \<Rightarrow> 'm" where
  "remove_state serve m d h p hp q hq =
     cdel serve (cdel serve (cput serve (cput serve (cput serve m
       d (meta_value (h\<lparr>num_buckets := num_buckets h - 1\<rparr>)))
       (child_key (sint (parent_index hp)) d) (bucket_value q))
       q (meta_value (hq\<lparr>parent_index := parent_index hp\<rparr>)))
       (child_key (sint (num_buckets h)) d)) p"


definition stat_of :: "header_struct \<Rightarrow> stat" where
  "stat_of h = (if is_dir h \<noteq> 0 then \<lparr>st_mode = S_IFDIR_0755, st_nlink = 2, st_size = 0\<rparr>
                else \<lparr>st_mode = S_IFREG_0444, st_nlink = 1, st_size = sint (data_len h)\<rparr>)"


section \<open>Runs\<close>

abbreviation small_count :: "int32 \<Rightarrow> bool" where
  "small_count w \<equiv> 0 \<le> sint w \<and> sint w < 2147483647"

context memcached
begin

lemma get_meta:
  assumes "inbox s = []" "valid_path p" "store (peer s) p = Some (meta_value h)" "24 \<le> length buf"
  shows "cache_get serve J p buf s = Inr (0, meta_value h @ drop 24 buf, s)"
  using cache_get_hit [of s p "meta_value h" buf J] assms by (simp add: overlay_def)

lemma get_bucket:
  assumes "inbox s = []" "valid_key k" "store (peer s) k = Some (bucket_value d)"
    "4 + length d \<le> length buf" "length d \<le> 64996"
  shows "cache_get serve J k buf s = Inr (0, bucket_value d @ drop (4 + length d) buf, s)"
  using cache_get_hit [of s k "bucket_value d" buf J] assms by (simp add: overlay_def)

lemma set_meta:
  assumes "inbox s = []" "valid_path p"
  shows "cache_set serve J p (meta_value h @ r) 24 s =
           Inr (0, s\<lparr>peer := cput serve (peer s) p (meta_value h)\<rparr>)"
  using cache_set_stored [of s p 24 "meta_value h @ r" J] assms by simp

lemma set_bucket:
  assumes "inbox s = []" "valid_key k" "length d \<le> 64996"
  shows "cache_set serve J k (bucket_value d @ r) (4 + int (length d)) s =
           Inr (0, s\<lparr>peer := cput serve (peer s) k (bucket_value d)\<rparr>)"
proof -
  have "nat (4 + int (length d)) = length (bucket_value d)" by (simp add: nat_add_distrib)
  then show ?thesis
    using cache_set_stored [of s k "4 + int (length d)" "bucket_value d @ r" J] assms by simp
qed

lemma increaseChildrensNum_run:
  assumes "inbox s = []" "valid_path p" "store (peer s) p = Some (meta_value h)"
  shows "increaseChildrensNum serve J p s =
    Inr (sint (num_buckets h + 1),
         s\<lparr>peer := cput serve (peer s) p (meta_value (h\<lparr>num_buckets := num_buckets h + 1\<rparr>))\<rparr>)"
  using assms
  by (simp add: increaseChildrensNum_def get_meta set_meta sizeof_bucket_def sizeof_header_def Let_def)

lemma decreaseChildrensNum_run:
  assumes "inbox s = []" "valid_path p" "store (peer s) p = Some (meta_value h)"
  shows "decreaseChildrensNum serve J p s =
    Inr (sint (num_buckets h - 1),
         s\<lparr>peer := cput serve (peer s) p (meta_value (h\<lparr>num_buckets := num_buckets h - 1\<rparr>))\<rparr>)"
  using assms
  by (simp add: decreaseChildrensNum_def get_meta set_meta sizeof_bucket_def sizeof_header_def Let_def)

lemma increaseChildrensNum_missing:
  assumes "inbox s = []" "valid_path p" "store (peer s) p = None"
  shows "increaseChildrensNum serve J p s = Inr (- 1, s)"
  using assms by (simp add: increaseChildrensNum_def cache_get_miss)

text \<open>The value addToParent stores: the child's path behind its size.\<close>

lemma child_buffer:
  assumes "length path \<le> 327"
  shows "memcpy (set_cur_size (4 + word_of_nat (length path)) (uninit J n 332)) 4
           (path @ [NUL]) 0 (int (length path) + 1)
         = Inr (bucket_value path @ NUL # drop (5 + length path) (uninit J n 332))"
  using assms
  by (simp add: memcpy_def set_cur_size_def poke_def sizeof_bucket_def bucket_value_def
      nat_add_distrib)

lemma addToParent_run:
  assumes "inbox s = []" "valid_path d" "valid_name n" "valid_path (join d n)"
    "store (peer s) d = Some (meta_value h)" "small_count (num_buckets h)"
  shows "addToParent serve J (join d n) s =
    Inr (sint (num_buckets h) + 1,
         s\<lparr>peer := cput serve
             (cput serve (peer s) d (meta_value (h\<lparr>num_buckets := num_buckets h + 1\<rparr>)))
             (child_key (sint (num_buckets h) + 1) d) (bucket_value (join d n))\<rparr>)"
proof -
  have l: "length (join d n) \<le> 230" using assms(4) by (simp add: valid_path_def)
  have c: "sint (num_buckets h + 1) = sint (num_buckets h) + 1"
    using assms(6) by (simp add: sint32_inc)
  show ?thesis
    using assms l
    by (simp add: addToParent_def increaseChildrensNum_run c child_buffer set_bucket Let_def
        sizeof_bucket_def)
qed

lemma store_add_state [simp]:
  assumes "valid_path d" "valid_path p" "small_count (num_buckets h)"
  shows "store (add_state serve m d h p hp) = add_entry (store m) d h p hp"
proof -
  have "length p \<le> 230" using assms(2) by (simp add: valid_path_def)
  then show ?thesis using assms by (simp add: add_state_def add_entry_def)
qed

lemma store_remove_state [simp]:
  assumes "valid_path d" "valid_path p" "valid_path q"
  shows "store (remove_state serve m d h p hp q hq) = remove_entry (store m) d h p hp q hq"
proof -
  have "length q \<le> 230" using assms(3) by (simp add: valid_path_def)
  then show ?thesis
    using assms sint32_range by (simp add: remove_state_def remove_entry_def)
qed

lemma mkdir_run:
  assumes "inbox s = []" "valid_path d" "valid_name n" "valid_path (join d n)"
    "store (peer s) d = Some (meta_value h)" "small_count (num_buckets h)"
  shows "hello_mkdir serve J (join d n) s =
    Inr (0, s\<lparr>peer := add_state serve (peer s) d h (join d n)
      (dir_header (num_buckets h + 1) (hdr_xattr_num (uninit J ''buf'' 24)))\<rparr>)"
  using assms build_dir_header [of "uninit J ''buf'' 24"] set_meta [where r = "[]"]
  by (simp add: hello_mkdir_def addToParent_run Let_def sizeof_bucket_def sizeof_header_def
      add_state_def)

lemma create_run:
  assumes "inbox s = []" "valid_path d" "valid_name n" "valid_path (join d n)"
    "store (peer s) d = Some (meta_value h)" "small_count (num_buckets h)"
  shows "hello_create serve J (join d n) s =
    Inr (0, s\<lparr>peer := add_state serve (peer s) d h (join d n) (file_header (num_buckets h + 1))\<rparr>)"
  using assms build_file_header [of "uninit J ''buffer'' 24"] set_meta [where r = "[]"]
  by (simp add: hello_create_def addToParent_run Let_def sizeof_bucket_def sizeof_header_def
      add_state_def)

text \<open>A missing parent: the child's path is still stored, under the key \<open>"-1<parent>"\<close>.\<close>

lemma addToParent_orphan:
  assumes "inbox s = []" "valid_path d" "valid_name n" "valid_path (join d n)"
    "store (peer s) d = None"
  shows "addToParent serve J (join d n) s =
    Inr (- 1, s\<lparr>peer := cput serve (peer s) (child_key (- 1) d) (bucket_value (join d n))\<rparr>)"
proof -
  have "length (join d n) \<le> 230" using assms(4) by (simp add: valid_path_def)
  then show ?thesis
    using assms
    by (simp add: addToParent_def increaseChildrensNum_missing child_buffer set_bucket Let_def
        sizeof_bucket_def)
qed

lemma mkdir_orphan:
  assumes "inbox s = []" "valid_path d" "valid_name n" "valid_path (join d n)"
    "store (peer s) d = None"
  shows "hello_mkdir serve J (join d n) s =
    Inr (- EFAULT, s\<lparr>peer := cput serve (peer s) (child_key (- 1) d) (bucket_value (join d n))\<rparr>)"
  using assms by (simp add: hello_mkdir_def addToParent_orphan)

lemma create_orphan:
  assumes "inbox s = []" "valid_path d" "valid_name n" "valid_path (join d n)"
    "store (peer s) d = None"
  shows "hello_create serve J (join d n) s = Inl NoReturn"
  using assms by (simp add: hello_create_def addToParent_orphan)

lemma delete_then:
  assumes "inbox s = []" "valid_key k" "16 \<le> length buf"
  shows "andthen (cache_msg serve (del_req k) buf s) (\<lambda>(x, b, s). f s)
         = f (s\<lparr>peer := cdel serve (peer s) k\<rparr>)"
  using cache_delete_ok [OF assms] by auto

lemma strncpy_path:
  assumes "valid_path q"
  shows "strncpy_str 260 (bucket_value q @ r) 4 (int (length q)) = Inr q"
proof -
  have "NUL \<notin> set q" using assms valid_key_facts(1) [of q] by simp
  moreover have "drop 4 (bucket_value q @ r) = q @ r"
    by (simp add: bucket_value_def)
  ultimately show ?thesis
    using assms by (simp add: strncpy_str_def cstr_no_NUL valid_path_def)
qed

lemma detach_run:
  assumes s: "inbox s = []" and d: "valid_path d" "store (peer s) d = Some (meta_value h)"
    and N: "1 \<le> sint (num_buckets h)"
    and p: "valid_path p"
    and q: "valid_path q" "q \<noteq> d" "store (peer s) (child_key (sint (num_buckets h)) d) = Some (bucket_value q)"
      "store (peer s) q = Some (meta_value hq)"
  shows "detach serve J p d (meta_value hp @ r) s =
           Inr (s\<lparr>peer := remove_state serve (peer s) d h p hp q hq\<rparr>)"
proof -
  let ?N = "num_buckets h"
  have l: "length q \<le> 230" using q(1) by (simp add: valid_path_def)
  have n: "sint (?N - 1) = sint ?N - 1" using N by (intro sint32_dec) simp
  have i: "to_int (sint ?N) = sint ?N" using sint32_range [of ?N] by simp
  show ?thesis
    unfolding remove_state_def detach_def
    using assms l sint32_range [of ?N] sint32_range [of "parent_index hp"]
    by (simp add: get_meta decreaseChildrensNum_run n i get_bucket set_bucket set_meta
        strncpy_path delete_then Let_def sizeof_bucket_def)
qed

lemma rmdir_missing:
  assumes "inbox s = []" "valid_path d" "valid_name n" "valid_path (join d n)"
    "store (peer s) (join d n) = None"
  shows "hello_rmdir serve J (join d n) s = Inr (- ENOTDIR, s)"
  using assms by (simp add: hello_rmdir_def cache_get_miss)

lemma rmdir_not_empty:
  assumes "inbox s = []" "valid_path d" "valid_name n" "valid_path (join d n)"
    "store (peer s) (join d n) = Some (meta_value hp)" "0 < sint (num_buckets hp)"
  shows "hello_rmdir serve J (join d n) s = Inr (- ENOTEMPTY, s)"
  using assms by (simp add: hello_rmdir_def get_meta)

lemma rmdir_run:
  assumes "inbox s = []" "valid_path d" "valid_name n" "valid_path (join d n)"
    "store (peer s) (join d n) = Some (meta_value hp)" "sint (num_buckets hp) \<le> 0"
    "store (peer s) d = Some (meta_value h)" "1 \<le> sint (num_buckets h)"
    "valid_path q" "q \<noteq> d"
    "store (peer s) (child_key (sint (num_buckets h)) d) = Some (bucket_value q)"
    "store (peer s) q = Some (meta_value hq)"
  shows "hello_rmdir serve J (join d n) s =
           Inr (0, s\<lparr>peer := remove_state serve (peer s) d h (join d n) hp q hq\<rparr>)"
  using assms by (simp add: hello_rmdir_def get_meta detach_run)

lemma delete_keys_run:
  assumes "inbox s = []" "\<And>i. i \<in> set is \<Longrightarrow> valid_key (mk i) \<and> length (mk i) < 250"
  shows "delete_keys serve J mk is s = Inr (s\<lparr>peer := foldl (cdel serve) (peer s) (map mk is)\<rparr>)"
  using assms
proof (induction "is" arbitrary: s)
  case (Cons i "is")
  have "valid_key (mk i)" "length (mk i) < 250" using Cons.prems(2) [of i] by simp_all
  moreover have "delete_keys serve J mk is (s\<lparr>peer := m\<rparr>) =
      Inr (s\<lparr>peer := foldl (cdel serve) m (map mk is)\<rparr>)" for m
    using Cons.IH [of "s\<lparr>peer := m\<rparr>"] Cons.prems by simp
  ultimately show ?case
    using Cons.prems(1) by (simp add: delete_then [unfolded del_req_def, simplified append.simps])
qed simp

lemma store_foldl_cdel:
  assumes "\<And>k. k \<in> set ks \<Longrightarrow> valid_key k"
  shows "store (foldl (cdel serve) m ks) k = (if k \<in> set ks then None else store m k)"
  using assms by (induction ks arbitrary: m) auto

lemma unlink_missing:
  assumes "inbox s = []" "valid_path d" "valid_name n" "valid_path (join d n)"
    "store (peer s) (join d n) = None"
  shows "hello_unlink serve J (join d n) s = Inr (- ENOENT, s)"
  using assms by (simp add: hello_unlink_def cache_get_miss)

lemma unlink_run:
  assumes "inbox s = []" "valid_path d" "valid_name n" "valid_path (join d n)"
    "store (peer s) (join d n) = Some (meta_value hp)"
    "store (peer s) d = Some (meta_value h)" "1 \<le> sint (num_buckets h)"
    "valid_path q" "q \<noteq> d"
    "store (peer s) (child_key (sint (num_buckets h)) d) = Some (bucket_value q)"
    "store (peer s) q = Some (meta_value hq)"
  shows "hello_unlink serve J (join d n) s =
           Inr (0, s\<lparr>peer := foldl (cdel serve)
             (remove_state serve (peer s) d h (join d n) hp q hq)
             (map (\<lambda>i. xattr_key i (join d n)) [1..sint (xattr_num hp)]
              @ map (\<lambda>i. data_key i (join d n)) [1..sint (num_buckets hp)])\<rparr>)"
proof -
  have x: "delete_keys serve J' (\<lambda>i. xattr_key i (join d n)) [1..sint (xattr_num hp)] t
      = Inr (t\<lparr>peer := foldl (cdel serve) (peer t)
          (map (\<lambda>i. xattr_key i (join d n)) [1..sint (xattr_num hp)])\<rparr>)"
    if "inbox t = []" for J' t
    using that assms(4) sint32_range [of "xattr_num hp"] by (intro delete_keys_run) auto
  have b: "delete_keys serve J' (\<lambda>i. data_key i (join d n)) [1..sint (num_buckets hp)] t
      = Inr (t\<lparr>peer := foldl (cdel serve) (peer t)
          (map (\<lambda>i. data_key i (join d n)) [1..sint (num_buckets hp)])\<rparr>)"
    if "inbox t = []" for J' t
    using that assms(4) sint32_range [of "num_buckets hp"] by (intro delete_keys_run) auto
  show ?thesis
    using assms by (simp add: hello_unlink_def get_meta detach_run x b Let_def)
qed

lemma access_run:
  assumes "inbox s = []" "valid_path p"
  shows "store (peer s) p = None \<Longrightarrow> hello_access serve J p s = Inr (- ENOENT, s)"
    "store (peer s) p = Some (meta_value h) \<Longrightarrow> hello_access serve J p s = Inr (0, s)"
  using assms by (simp_all add: hello_access_def cache_get_miss get_meta)

lemma getattr_run:
  assumes "inbox s = []" "valid_path p" "store (peer s) p = Some (meta_value h)"
  shows "hello_getattr serve J p s = Inr (0, stat_of h, s)"
  using assms by (simp add: hello_getattr_def get_meta stat_of_def)

lemma getattr_missing:
  assumes "inbox s = []" "valid_path p" "store (peer s) p = None"
  shows "\<exists>stbuf. hello_getattr serve J p s = Inr (- ENOENT, stbuf, s)"
  using assms by (simp add: hello_getattr_def cache_get_miss)

lemma readdir_loop_run:
  assumes "inbox s = []" "valid_path d"
    "\<And>i. i \<in> set is \<Longrightarrow> 0 \<le> i \<and> i < 2147483648 \<and> valid_name (nm i) \<and> valid_path (join d (nm i))
       \<and> store (peer s) (child_key i d) = Some (bucket_value (join d (nm i)))"
  shows "readdir_loop serve J d is names s = Inr (names @ map nm is, s)"
  using assms(3)
proof (induction "is" arbitrary: names)
  case (Cons i "is")
  note i = Cons.prems [of i, simplified]
  have l: "length (join d (nm i)) \<le> 230" using i by (simp add: valid_path_def)
  let ?b = "bucket_value (join d (nm i))
            @ drop (4 + length (join d (nm i))) (uninit (at J (dec_int i)) ''buffer'' 1280)"
  have g: "cache_get serve (at J (dec_int i)) (child_key i d)
             (uninit (at J (dec_int i)) ''buffer'' 1280) s = Inr (0, ?b, s)"
    using i assms(1,2) l by (intro get_bucket) simp_all
  have "d \<noteq> []" using assms(2) by (simp add: valid_path_def)
  then obtain k where "back_to_slash ?b (4 + length (join d (nm i))) = Inr k"
      "strncpy_str 264 ?b k (4 + int (length (join d (nm i))) - int k) = Inr (nm i)"
    using i l last_component by blast
  moreover have "nat (4 + int (length (join d (nm i)))) = 4 + length (join d (nm i))" by simp
  moreover have "fits 250 (child_key i d) = Inr (child_key i d)" using i assms(2) by simp
  moreover have "readdir_loop serve J d is names' s = Inr (names' @ map nm is, s)" for names'
    by (rule Cons.IH) (use Cons.prems in auto)
  ultimately show ?case
    using l g by (simp add: Let_def)
qed simp

lemma readdir_run:
  assumes "inbox s = []" "valid_path d" "store (peer s) d = Some (meta_value h)"
    "\<And>i. 1 \<le> i \<Longrightarrow> i \<le> sint (num_buckets h) \<Longrightarrow>
       valid_name (nm i) \<and> valid_path (join d (nm i))
       \<and> store (peer s) (child_key i d) = Some (bucket_value (join d (nm i)))"
  shows "hello_readdir serve J d s =
           Inr (0, [''.'', ''..''] @ map nm [1..sint (num_buckets h)], s)"
proof -
  have "readdir_loop serve J d [1..sint (num_buckets h)] [''.'', ''..''] s =
      Inr ([''.'', ''..''] @ map nm [1..sint (num_buckets h)], s)"
    using assms sint32_range [of "num_buckets h"] by (intro readdir_loop_run) auto
  then show ?thesis using assms by (simp add: hello_readdir_def get_meta Let_def)
qed

lemma framed_stats_value [simp]: "framed stats_value" "length stats_value = 12"
  by (simp_all add: framed_def stats_value_def sizeof_bucket_def sizeof_stats_def)

lemma init_check_run:
  assumes "inbox s = []"
  shows "store (peer s) ''stats'' = None \<Longrightarrow> init_check serve J s = Inr (0, s)"
    "store (peer s) ''stats'' = Some stats_value \<Longrightarrow> init_check serve J s = Inr (1, s)"
  using assms cache_get_hit [of s "''stats''" stats_value "uninit J ''curBuf'' 128"]
  by (simp_all add: init_check_def cache_get_miss overlay_def)
     (simp add: stats_value_def peek32_def sizeof_bucket_def)

lemma flush_then:
  assumes "inbox s = []" "4 \<le> length buf"
  shows "andthen (cache_msg serve (''flush_all'' @ [NEWLINE]) buf s) (\<lambda>(x, b, s). f s)
         = f (s\<lparr>peer := cflush serve (peer s)\<rparr>)"
  using serve_flush [of "peer s"] assms
  by (cases s) (auto simp: cache_msg_def sock_send_def sock_read_def cflush_def overlay_def)

lemma mkdir_root_run:
  assumes "inbox s = []"
  shows "hello_mkdir serve J ''/'' s =
    Inr (0, s\<lparr>peer := cput serve (peer s) ''/''
      (meta_value (dir_header 0 (hdr_xattr_num (uninit J ''buf'' 24))))\<rparr>)"
  using assms build_dir_header [of "uninit J ''buf'' 24"] set_meta [where r = "[]"]
  by (simp add: hello_mkdir_def addToParent_def Let_def sizeof_bucket_def sizeof_header_def)

lemma init_fresh_run:
  assumes "inbox s = []" "store (peer s) ''stats'' = None"
  shows "hello_init serve J s =
    Inr (s\<lparr>peer := cput serve (cput serve (cflush serve (peer s)) ''stats'' stats_value)
      ''/'' (meta_value (dir_header 0 (hdr_xattr_num (uninit (at J ''mkdir'') ''buf'' 24))))\<rparr>)"
proof -
  have b: "poke (poke (poke b 0 (enc32 12)) 4 (enc32 0)) 8 (enc32 1024) = stats_value"
    if "length b = 12" for b
    using that by (simp add: poke_def stats_value_def sizeof_bucket_def sizeof_stats_def
        MAX_BUCKET_SIZE_def)
  have st: "cache_set serve J' ''stats'' stats_value 12 t =
      Inr (0, t\<lparr>peer := cput serve (peer t) ''stats'' stats_value\<rparr>)" if "inbox t = []" for J' t
    using that cache_set_stored [of t "''stats''" 12 stats_value] by simp
  show ?thesis
    using assms
    by (simp add: hello_init_def init_check_run flush_then [simplified] b st mkdir_root_run
        Let_def sizeof_bucket_def sizeof_stats_def MAX_BUCKET_SIZE_def)
qed

lemma init_again_run:
  assumes "inbox s = []" "store (peer s) ''stats'' = Some stats_value"
  shows "hello_init serve J s = Inr s"
  using assms by (simp add: hello_init_def init_check_run)

end

end
