(* ===== verification/Namespace.thy ===== *)
theory Namespace
  imports NodeRuns
begin

text \<open>
  The abstract view of the store: which nodes exist, and the list of children of each
  directory; the invariant \<open>fs_wf\<close> that ties the headers, the numbered child slots and the
  parent indices together; and the proofs that adding an entry (\<open>mkdir\<close>, \<open>create\<close>) and
  removing one (\<open>rmdir\<close>, \<open>unlink\<close>) keep it and have the abstract effect of appending to and
  swap-removing from the list of children.
\<close>

section \<open>Abstraction and invariant\<close>

definition nodes :: "(string \<Rightarrow> string option) \<Rightarrow> string set" where
  "nodes st = {p. valid_path p \<and> st p \<noteq> None}"

definition children :: "(string \<Rightarrow> string option) \<Rightarrow> string \<Rightarrow> string list" where
  "children st d =
     (case st d of None \<Rightarrow> []
      | Some v \<Rightarrow> map (\<lambda>i. case st (child_key i d) of None \<Rightarrow> [] | Some w \<Rightarrow> drop 4 w)
                      [1..sint (hdr_num_buckets v)])"

definition slots_wf :: "(string \<Rightarrow> string option) \<Rightarrow> string \<Rightarrow> header_struct \<Rightarrow> bool" where
  "slots_wf st d h \<longleftrightarrow> 0 \<le> sint (num_buckets h) \<and>
     (\<forall>i. 1 \<le> i \<and> i \<le> sint (num_buckets h) \<longrightarrow>
        (\<exists>n hc. valid_name n \<and> valid_path (join d n) \<and>
           st (child_key i d) = Some (bucket_value (join d n)) \<and>
           st (join d n) = Some (meta_value hc) \<and> sint (parent_index hc) = i))"

definition linked :: "(string \<Rightarrow> string option) \<Rightarrow> string \<Rightarrow> header_struct \<Rightarrow> bool" where
  "linked st p h \<longleftrightarrow>
     (\<exists>d n hd. p = join d n \<and> valid_path d \<and> valid_name n \<and>
        st d = Some (meta_value hd) \<and> is_dir hd = 1 \<and>
        1 \<le> sint (parent_index h) \<and> sint (parent_index h) \<le> sint (num_buckets hd) \<and>
        st (child_key (sint (parent_index h)) d) = Some (bucket_value p))"

definition node_wf :: "(string \<Rightarrow> string option) \<Rightarrow> string \<Rightarrow> string \<Rightarrow> bool" where
  "node_wf st p v \<longleftrightarrow>
     (\<exists>h. v = meta_value h \<and> (is_dir h = 1 \<longrightarrow> slots_wf st p h) \<and>
          (p \<noteq> ''/'' \<longrightarrow> linked st p h))"

definition fs_wf :: "(string \<Rightarrow> string option) \<Rightarrow> bool" where
  "fs_wf st \<longleftrightarrow>
     (\<exists>h. st ''/'' = Some (meta_value h) \<and> is_dir h = 1) \<and>
     (\<forall>p v. valid_path p \<longrightarrow> st p = Some v \<longrightarrow> node_wf st p v)"

text \<open>The abstract operation behind rmdir and unlink.\<close>

definition swap_remove :: "nat \<Rightarrow> 'a list \<Rightarrow> 'a list" where
  "swap_remove i xs = butlast (xs[i := last xs])"

lemma bucket_value_inject [simp]: "bucket_value a = bucket_value b \<longleftrightarrow> a = b"
  by (auto simp: bucket_value_def dest: arg_cong [where f = "drop 4"])

lemma drop_bucket_value [simp]: "drop 4 (bucket_value d) = d"
  by (simp add: bucket_value_def)

lemma fs_wf_node:
  assumes "fs_wf st" "valid_path p" "st p = Some (meta_value h)"
  shows "is_dir h = 1 \<Longrightarrow> slots_wf st p h" "p \<noteq> ''/'' \<Longrightarrow> linked st p h"
  using assms by (auto simp: fs_wf_def node_wf_def)

lemma fs_wf_meta:
  assumes "fs_wf st" "valid_path p" "st p = Some v"
  obtains h where "v = meta_value h"
  using assms by (auto simp: fs_wf_def node_wf_def)

lemma slots_wfE:
  assumes "slots_wf st d h" "1 \<le> i" "i \<le> sint (num_buckets h)"
  obtains n hc where "valid_name n" "valid_path (join d n)"
    "st (child_key i d) = Some (bucket_value (join d n))"
    "st (join d n) = Some (meta_value hc)" "sint (parent_index hc) = i"
  using assms by (auto simp: slots_wf_def)

lemma linkedE:
  assumes "linked st (join d n) h" "valid_path d" "valid_name n" "valid_path (join d n)"
  obtains hd where "st d = Some (meta_value hd)" "is_dir hd = 1"
    "1 \<le> sint (parent_index h)" "sint (parent_index h) \<le> sint (num_buckets hd)"
    "st (child_key (sint (parent_index h)) d) = Some (bucket_value (join d n))"
proof -
  obtain d' n' hd where 1: "join d n = join d' n'" "valid_path d'" "valid_name n'"
      and 2: "st d' = Some (meta_value hd)" "is_dir hd = 1"
        "1 \<le> sint (parent_index h)" "sint (parent_index h) \<le> sint (num_buckets hd)"
        "st (child_key (sint (parent_index h)) d') = Some (bucket_value (join d n))"
    using assms(1) unfolding linked_def by blast
  from join_inject [OF 1(1) assms(2,3) 1(2,3) assms(4)] 2 that show thesis by blast
qed

lemma length_join: "valid_name n \<Longrightarrow> length d < length (join d n)"
  by (auto simp: join_def valid_name_def)

lemma join_no_cycle [simp]:
  assumes "valid_name n" "valid_name n'" shows "join (join d n) n' \<noteq> d"
proof -
  have "length d < length (join (join d n) n')"
    using length_join [OF assms(1), of d] length_join [OF assms(2), of "join d n"] by simp
  then show ?thesis by auto
qed

lemma children_simp:
  assumes "slots_wf st d h" "st d = Some (meta_value h)"
  shows "length (children st d) = nat (sint (num_buckets h))"
    "\<And>k. k < length (children st d) \<Longrightarrow>
       st (child_key (int k + 1) d) = Some (bucket_value (children st d ! k))"
proof -
  have c: "children st d = map (\<lambda>i. case st (child_key i d) of None \<Rightarrow> [] | Some w \<Rightarrow> drop 4 w)
      [1..sint (num_buckets h)]"
    using assms(2) peek_meta_value(4) [of h "[]"] by (simp add: children_def)
  show "length (children st d) = nat (sint (num_buckets h))" by (simp add: c)
  fix k assume k: "k < length (children st d)"
  then have "1 \<le> int k + 1" "int k + 1 \<le> sint (num_buckets h)" by (simp_all add: c)
  then obtain n hc where "st (child_key (int k + 1) d) = Some (bucket_value (join d n))"
    by (rule slots_wfE [OF assms(1)])
  then show "st (child_key (int k + 1) d) = Some (bucket_value (children st d ! k))"
    using k by (simp add: c add.commute)
qed

lemma children_eqI:
  assumes "st d = Some (meta_value h)" "length xs = nat (sint (num_buckets h))"
    "\<And>k. k < length xs \<Longrightarrow> st (child_key (int k + 1) d) = Some (bucket_value (xs ! k))"
  shows "children st d = xs"
proof (rule nth_equalityI)
  have c: "children st d = map (\<lambda>i. case st (child_key i d) of None \<Rightarrow> [] | Some w \<Rightarrow> drop 4 w)
      [1..sint (num_buckets h)]"
    using assms(1) peek_meta_value(4) [of h "[]"] by (simp add: children_def)
  show l: "length (children st d) = length xs" using assms(2) by (simp add: c)
  fix k assume "k < length (children st d)"
  with l assms(2) assms(3) [of k] show "children st d ! k = xs ! k" by (simp add: c add.commute)
qed

lemma children_distinct:
  assumes "fs_wf st" "valid_path d" "st d = Some (meta_value h)" "is_dir h = 1"
  shows "distinct (children st d)"
proof (rule distinct_conv_nth [THEN iffD2], intro allI impI)
  note w = fs_wf_node(1) [OF assms]
  have *: "\<exists>hc. st (children st d ! k) = Some (meta_value hc) \<and> sint (parent_index hc) = int k + 1"
    if k: "k < length (children st d)" for k
  proof -
    have "1 \<le> int k + 1" "int k + 1 \<le> sint (num_buckets h)"
      using k children_simp(1) [OF w assms(3)] by simp_all
    then obtain n hc where "st (child_key (int k + 1) d) = Some (bucket_value (join d n))"
        "st (join d n) = Some (meta_value hc)" "sint (parent_index hc) = int k + 1"
      by (rule slots_wfE [OF w])
    then show ?thesis using children_simp(2) [OF w assms(3) k] by simp
  qed
  fix i j assume "i < length (children st d)" "j < length (children st d)" "i \<noteq> j"
  then show "children st d ! i \<noteq> children st d ! j" using * [of i] * [of j] by auto
qed

lemma set_swap_remove:
  assumes "distinct xs" "i < length xs"
  shows "set (swap_remove i xs) = set xs - {xs ! i}" "distinct (swap_remove i xs)"
proof -
  from assms(2) obtain ys z where xs: "xs = ys @ [z]" by (cases xs rule: rev_cases) auto
  have "set (swap_remove i xs) = set xs - {xs ! i} \<and> distinct (swap_remove i xs)"
  proof (cases "i < length ys")
    case True
    then have "swap_remove i xs = ys[i := z]"
      by (simp add: swap_remove_def xs list_update_append)
    moreover have "set (ys[i := z]) = insert z (set ys - {ys ! i})"
      using assms True by (simp add: xs set_update_distinct)
    moreover have "distinct (ys[i := z])"
      using assms True by (simp add: xs distinct_list_update)
    ultimately show ?thesis
      using assms True by (auto simp: xs nth_append)
  next
    case False
    then have "i = length ys" using assms by (simp add: xs)
    then show ?thesis using assms by (auto simp: xs swap_remove_def)
  qed
  then show "set (swap_remove i xs) = set xs - {xs ! i}" "distinct (swap_remove i xs)" by auto
qed


section \<open>Adding an entry\<close>

definition addable ::
    "(string \<Rightarrow> string option) \<Rightarrow> string \<Rightarrow> string \<Rightarrow> header_struct \<Rightarrow> bool" where
  "addable st d n h \<longleftrightarrow>
     fs_wf st \<and> valid_path d \<and> valid_name n \<and> valid_path (join d n) \<and>
     st d = Some (meta_value h) \<and> is_dir h = 1 \<and> sint (num_buckets h) < 2147483647 \<and>
     st (join d n) = None"

lemma addableD:
  assumes "addable st d n h"
  shows "fs_wf st" "valid_path d" "valid_name n" "valid_path (join d n)"
    "st d = Some (meta_value h)" "is_dir h = 1" "small_count (num_buckets h)"
    "st (join d n) = None" "slots_wf st d h" "sint (num_buckets h + 1) = sint (num_buckets h) + 1"
    "join d n \<noteq> d" "d \<noteq> join d n"
proof -
  show 1: "fs_wf st" "valid_path d" "valid_name n" "valid_path (join d n)"
    "st d = Some (meta_value h)" "is_dir h = 1" "st (join d n) = None"
    using assms by (auto simp: addable_def)
  show "slots_wf st d h" using 1 by (intro fs_wf_node)
  then show "small_count (num_buckets h)" using assms by (simp add: addable_def slots_wf_def)
  show "sint (num_buckets h + 1) = sint (num_buckets h) + 1"
    using assms by (simp add: addable_def sint32_inc)
  show "join d n \<noteq> d" "d \<noteq> join d n" using 1 join_neq_dir [of n d] by auto
qed

lemma add_entry_meta:
  assumes "addable st d n h" "valid_path x"
  shows "add_entry st d h (join d n) hp x =
    (if x = join d n then Some (meta_value hp)
     else if x = d then Some (meta_value (h\<lparr>num_buckets := num_buckets h + 1\<rparr>))
     else st x)"
  using assms(2) addableD [OF assms(1)] by (auto simp: add_entry_def)

lemma add_entry_slot:
  assumes "addable st d n h" "valid_path x"
  shows "add_entry st d h (join d n) hp (child_key i x) =
    (if i = sint (num_buckets h) + 1 \<and> x = d then Some (bucket_value (join d n))
     else st (child_key i x))"
  using assms(2) addableD [OF assms(1)] by (auto simp: add_entry_def)

lemma slots_wf_add_other:
  assumes a: "addable st d n h" and x: "valid_path x" "x \<noteq> d" "slots_wf st x hx"
  shows "slots_wf (add_entry st d h (join d n) hp) x hx"
  unfolding slots_wf_def
proof (intro conjI allI impI)
  note A = addableD [OF a]
  show "0 \<le> sint (num_buckets hx)" using x(3) by (simp add: slots_wf_def)
  fix i assume "1 \<le> i \<and> i \<le> sint (num_buckets hx)"
  then obtain m hc where m: "valid_name m" "valid_path (join x m)"
      "st (child_key i x) = Some (bucket_value (join x m))"
      "st (join x m) = Some (meta_value hc)" "sint (parent_index hc) = i"
    using slots_wfE [OF x(3)] by blast
  then have "join x m \<noteq> join d n" using A(8) by auto
  then show "\<exists>n' hc. valid_name n' \<and> valid_path (join x n') \<and>
      add_entry st d h (join d n) hp (child_key i x) = Some (bucket_value (join x n')) \<and>
      add_entry st d h (join d n) hp (join x n') = Some (meta_value hc) \<and> sint (parent_index hc) = i"
    using m x(1,2) A(5) add_entry_meta [OF a m(2)] add_entry_slot [OF a x(1)]
    by (intro exI [of _ m] exI [of _ "if join x m = d then h\<lparr>num_buckets := num_buckets h + 1\<rparr> else hc"])
       auto
qed

lemma slots_wf_add_parent:
  assumes a: "addable st d n h" and p: "parent_index hp = num_buckets h + 1"
  shows "slots_wf (add_entry st d h (join d n) hp) d (h\<lparr>num_buckets := num_buckets h + 1\<rparr>)"
  unfolding slots_wf_def
proof (intro conjI allI impI)
  note A = addableD [OF a]
  show "0 \<le> sint (num_buckets (h\<lparr>num_buckets := num_buckets h + 1\<rparr>))" using A(7,10) by simp
  fix i assume i: "1 \<le> i \<and> i \<le> sint (num_buckets (h\<lparr>num_buckets := num_buckets h + 1\<rparr>))"
  show "\<exists>n' hc. valid_name n' \<and> valid_path (join d n') \<and>
      add_entry st d h (join d n) hp (child_key i d) = Some (bucket_value (join d n')) \<and>
      add_entry st d h (join d n) hp (join d n') = Some (meta_value hc) \<and> sint (parent_index hc) = i"
  proof (cases "i = sint (num_buckets h) + 1")
    case True
    then show ?thesis
      using A p add_entry_meta [OF a A(4)] add_entry_slot [OF a A(2)]
      by (intro exI [of _ n] exI [of _ hp]) simp
  next
    case False
    with i A(10) have "1 \<le> i" "i \<le> sint (num_buckets h)" by auto
    then obtain m hc where m: "valid_name m" "valid_path (join d m)"
        "st (child_key i d) = Some (bucket_value (join d m))"
        "st (join d m) = Some (meta_value hc)" "sint (parent_index hc) = i"
      using slots_wfE [OF A(9)] by blast
    moreover have "join d m \<noteq> join d n" "join d m \<noteq> d" using m A(8) by auto
    ultimately show ?thesis
      using False A add_entry_meta [OF a m(2)] add_entry_slot [OF a A(2)]
      by (intro exI [of _ m] exI [of _ hc]) simp
  qed
qed

lemma linked_add:
  assumes a: "addable st d n h" and x: "linked st x hx" "st x \<noteq> None"
  shows "linked (add_entry st d h (join d n) hp) x hx"
proof -
  note A = addableD [OF a]
  obtain d' n' hd where l: "x = join d' n'" "valid_path d'" "valid_name n'"
      "st d' = Some (meta_value hd)" "is_dir hd = 1" "1 \<le> sint (parent_index hx)"
      "sint (parent_index hx) \<le> sint (num_buckets hd)"
      "st (child_key (sint (parent_index hx)) d') = Some (bucket_value x)"
    using x(1) unfolding linked_def by blast
  have "d' \<noteq> join d n" using l A(8) by auto
  moreover have "d' = d \<Longrightarrow> hd = h" using l A(5) by simp
  ultimately show ?thesis
    unfolding linked_def
    using l A add_entry_meta [OF a l(2)] add_entry_slot [OF a l(2)]
    by (intro exI [of _ d'] exI [of _ n']
        exI [of _ "if d' = d then h\<lparr>num_buckets := num_buckets h + 1\<rparr> else hd"]) auto
qed


lemma linked_add_new:
  assumes a: "addable st d n h" and p: "parent_index hp = num_buckets h + 1"
  shows "linked (add_entry st d h (join d n) hp) (join d n) hp"
  unfolding linked_def
  using addableD [OF a] p add_entry_meta [OF a] add_entry_slot [OF a]
  by (intro exI [of _ d] exI [of _ n] exI [of _ "h\<lparr>num_buckets := num_buckets h + 1\<rparr>"]) simp

theorem fs_wf_add:
  assumes a: "addable st d n h"
    and p: "parent_index hp = num_buckets h + 1" "num_buckets hp = 0"
  shows "fs_wf (add_entry st d h (join d n) hp)"
proof -
  note A = addableD [OF a]
  let ?st = "add_entry st d h (join d n) hp"
  obtain h0 where h0: "st ''/'' = Some (meta_value h0)" "is_dir h0 = 1"
    using A(1) by (auto simp: fs_wf_def)
  have "\<exists>h. ?st ''/'' = Some (meta_value h) \<and> is_dir h = 1"
    using h0 A add_entry_meta [OF a valid_path_root] by (cases "d = ''/''") auto
  moreover have "node_wf ?st x v" if x: "valid_path x" "?st x = Some v" for x v
  proof -
    consider "x = join d n" | "x = d" | "x \<noteq> join d n" "x \<noteq> d" by blast
    then show ?thesis
    proof cases
      case 1
      then have "v = meta_value hp" using x add_entry_meta [OF a x(1)] by simp
      then show ?thesis
        using 1 linked_add_new [OF a p(1)] p(2) by (auto simp: node_wf_def slots_wf_def)
    next
      case 2
      let ?h = "h\<lparr>num_buckets := num_buckets h + 1\<rparr>"
      have "v = meta_value ?h" using 2 x A(11) add_entry_meta [OF a x(1)] by simp
      moreover have "linked ?st d ?h" if "d \<noteq> ''/''"
        using linked_add [OF a fs_wf_node(2) [OF A(1,2,5) that]] A(5) by (simp add: linked_def)
      ultimately show ?thesis
        using 2 A(6) slots_wf_add_parent [OF a p(1)] by (auto simp: node_wf_def)
    next
      case 3
      then have v: "st x = Some v" using x add_entry_meta [OF a x(1)] by simp
      then obtain hx where hx: "v = meta_value hx" by (rule fs_wf_meta [OF A(1) x(1)])
      note w = fs_wf_node [OF A(1) x(1) v [unfolded hx]]
      show ?thesis
        unfolding node_wf_def
        using hx w 3 v slots_wf_add_other [OF a x(1) 3(2)] linked_add [OF a] by auto
    qed
  qed
  ultimately show ?thesis by (simp add: fs_wf_def)
qed

lemma children_add:
  assumes a: "addable st d n h"
  shows "children (add_entry st d h (join d n) hp) d = children st d @ [join d n]"
proof (rule children_eqI)
  note A = addableD [OF a] and a_meta = add_entry_meta [OF a] and a_slot = add_entry_slot [OF a]
  note c = children_simp [OF A(9,5)]
  show "add_entry st d h (join d n) hp d = Some (meta_value (h\<lparr>num_buckets := num_buckets h + 1\<rparr>))"
    using A a_meta by simp
  show "length (children st d @ [join d n]) = nat (sint (num_buckets (h\<lparr>num_buckets := num_buckets h + 1\<rparr>)))"
    using A(7,10) c(1) by (simp add: nat_add_distrib)
  fix k assume k: "k < length (children st d @ [join d n])"
  show "add_entry st d h (join d n) hp (child_key (int k + 1) d) =
      Some (bucket_value ((children st d @ [join d n]) ! k))"
    using k A(2,7) c a_slot by (auto simp: nth_append less_Suc_eq)
qed

lemma children_add_other:
  assumes a: "addable st d n h" and x: "valid_path x" "x \<noteq> d" "x \<noteq> join d n"
  shows "children (add_entry st d h (join d n) hp) x = children st x"
  using add_entry_meta [OF a x(1)] add_entry_slot [OF a x(1)] x
  by (cases "st x") (simp_all add: children_def)

lemma children_add_new:
  assumes a: "addable st d n h" and "num_buckets hp = 0"
  shows "children (add_entry st d h (join d n) hp) (join d n) = []"
  using add_entry_meta [OF a addableD(4) [OF a]] peek_meta_value(4) [of hp "[]"] assms(2)
  by (simp add: children_def)

lemma nodes_add:
  assumes a: "addable st d n h"
  shows "nodes (add_entry st d h (join d n) hp) = insert (join d n) (nodes st)"
  using add_entry_meta [OF a] addableD [OF a] by (auto simp: nodes_def split: if_splits)


section \<open>Removing an entry\<close>

text \<open>
  \<open>p = join d n\<close> is a file or an empty directory with header \<open>hp\<close>, and \<open>q\<close> is the child in
  the last slot of its parent \<open>d\<close>.
\<close>

definition removable ::
    "(string \<Rightarrow> string option) \<Rightarrow> string \<Rightarrow> string \<Rightarrow> header_struct \<Rightarrow> header_struct \<Rightarrow>
     string \<Rightarrow> header_struct \<Rightarrow> bool" where
  "removable st d n h hp m hq \<longleftrightarrow>
     fs_wf st \<and> valid_path d \<and> valid_name n \<and> valid_path (join d n) \<and>
     st d = Some (meta_value h) \<and> st (join d n) = Some (meta_value hp) \<and>
     (is_dir hp = 1 \<longrightarrow> num_buckets hp = 0) \<and>
     valid_name m \<and> valid_path (join d m) \<and>
     st (child_key (sint (num_buckets h)) d) = Some (bucket_value (join d m)) \<and>
     st (join d m) = Some (meta_value hq)"

lemma removable_ex:
  assumes w: "fs_wf st" and p: "valid_path d" "valid_name n" "valid_path (join d n)"
      "st (join d n) = Some (meta_value hp)" "is_dir hp = 1 \<longrightarrow> num_buckets hp = 0"
  obtains h m hq where "removable st d n h hp m hq"
proof -
  have "join d n \<noteq> ''/''" using p by simp
  then have "linked st (join d n) hp" by (rule fs_wf_node(2) [OF w p(3,4)])
  then obtain h where h: "st d = Some (meta_value h)" "is_dir h = 1"
      "1 \<le> sint (parent_index hp)" "sint (parent_index hp) \<le> sint (num_buckets h)"
    using linkedE p(1-3) by blast
  then have "1 \<le> sint (num_buckets h)" by linarith
  then obtain m hq where m: "valid_name m" "valid_path (join d m)"
      "st (child_key (sint (num_buckets h)) d) = Some (bucket_value (join d m))"
      "st (join d m) = Some (meta_value hq)"
    using slots_wfE [OF fs_wf_node(1) [OF w p(1) h(1,2)]] by blast
  show thesis
    by (rule that [of h m hq]) (use w p h m in \<open>simp add: removable_def\<close>)
qed

lemma removableD:
  assumes "removable st d n h hp m hq"
  shows "fs_wf st" "valid_path d" "valid_name n" "valid_path (join d n)"
    "st d = Some (meta_value h)" "st (join d n) = Some (meta_value hp)"
    "is_dir hp = 1 \<Longrightarrow> num_buckets hp = 0"
    "valid_name m" "valid_path (join d m)"
    "st (child_key (sint (num_buckets h)) d) = Some (bucket_value (join d m))"
    "st (join d m) = Some (meta_value hq)"
  using assms by (auto simp: removable_def)

lemma removable_facts:
  assumes r: "removable st d n h hp m hq"
  shows "is_dir h = 1" "slots_wf st d h" "1 \<le> sint (parent_index hp)"
    "sint (parent_index hp) \<le> sint (num_buckets h)"
    "st (child_key (sint (parent_index hp)) d) = Some (bucket_value (join d n))"
    "sint (parent_index hq) = sint (num_buckets h)"
    "sint (num_buckets h - 1) = sint (num_buckets h) - 1"
    "parent_index hp = num_buckets h \<longleftrightarrow> m = n"
    "join d n \<noteq> d" "join d m \<noteq> d" "d \<noteq> join d n" "d \<noteq> join d m"
proof -
  note R = removableD [OF r]
  have "linked st (join d n) hp" using R by (intro fs_wf_node(2)) simp_all
  then obtain hd where "st d = Some (meta_value hd)" "is_dir hd = 1"
      "1 \<le> sint (parent_index hp)" "sint (parent_index hp) \<le> sint (num_buckets hd)"
      "st (child_key (sint (parent_index hp)) d) = Some (bucket_value (join d n))"
    by (rule linkedE [OF _ R(2-4)])
  moreover from this R(5) have "hd = h" by simp
  ultimately show 1: "is_dir h = 1" "1 \<le> sint (parent_index hp)"
    "sint (parent_index hp) \<le> sint (num_buckets h)"
    "st (child_key (sint (parent_index hp)) d) = Some (bucket_value (join d n))" by auto
  show 2: "slots_wf st d h" by (rule fs_wf_node(1) [OF R(1,2,5) 1(1)])
  have "1 \<le> sint (num_buckets h)" using 1 by linarith
  then obtain m' hc where "st (child_key (sint (num_buckets h)) d) = Some (bucket_value (join d m'))"
      "st (join d m') = Some (meta_value hc)" "sint (parent_index hc) = sint (num_buckets h)"
    using slots_wfE [OF 2] by blast
  with R(10,11) show 3: "sint (parent_index hq) = sint (num_buckets h)" by simp
  show "sint (num_buckets h - 1) = sint (num_buckets h) - 1"
    using 1 by (intro sint32_dec) linarith
  have jeq: "join d m = join d n \<longleftrightarrow> m = n"
    using join_inject [of d m d n] R by auto
  show "parent_index hp = num_buckets h \<longleftrightarrow> m = n"
  proof
    assume "parent_index hp = num_buckets h"
    with 1(4) R(10) jeq show "m = n" by simp
  next
    assume "m = n"
    with R(6,11) 3 have "sint (parent_index hp) = sint (num_buckets h)" by simp
    then show "parent_index hp = num_buckets h" by (rule signed_word_eqI)
  qed
  show "join d n \<noteq> d" "join d m \<noteq> d" "d \<noteq> join d n" "d \<noteq> join d m"
    using join_neq_dir [OF R(3), of d] join_neq_dir [OF R(8), of d] by metis+
qed


lemma remove_entry_meta:
  assumes r: "removable st d n h hp m hq" and x: "valid_path x"
  shows "remove_entry st d h (join d n) hp (join d m) hq x =
    (if x = join d n then None
     else if x = join d m then Some (meta_value (hq\<lparr>parent_index := parent_index hp\<rparr>))
     else if x = d then Some (meta_value (h\<lparr>num_buckets := num_buckets h - 1\<rparr>))
     else st x)"
  using x removableD(2,4,9) [OF r] removable_facts(9-12) [OF r]
  by (auto simp: remove_entry_def)

lemma remove_entry_slot:
  assumes r: "removable st d n h hp m hq" and x: "valid_path x"
  shows "remove_entry st d h (join d n) hp (join d m) hq (child_key i x) =
    (if x = d \<and> i = sint (num_buckets h) then None
     else if x = d \<and> i = sint (parent_index hp) then Some (bucket_value (join d m))
     else st (child_key i x))"
  using x removableD(2,4,9) [OF r] by (auto simp: remove_entry_def)

text \<open>The header a surviving node has after the removal.\<close>

definition removed_header ::
    "string \<Rightarrow> header_struct \<Rightarrow> header_struct \<Rightarrow> string \<Rightarrow> string \<Rightarrow> header_struct \<Rightarrow> header_struct" where
  "removed_header d h hp q x hx =
     (if x = q then hx\<lparr>parent_index := parent_index hp\<rparr>
      else if x = d then hx\<lparr>num_buckets := num_buckets h - 1\<rparr>
      else hx)"

lemma removed_header_simps [simp]:
  "is_dir (removed_header d h hp q x hx) = is_dir hx"
  "x \<noteq> d \<Longrightarrow> num_buckets (removed_header d h hp q x hx) = num_buckets hx"
  "x \<noteq> q \<Longrightarrow> parent_index (removed_header d h hp q x hx) = parent_index hx"
  by (auto simp: removed_header_def)

lemma remove_entry_header:
  assumes r: "removable st d n h hp m hq" and x: "valid_path x" "x \<noteq> join d n"
    "st x = Some (meta_value hx)"
  shows "remove_entry st d h (join d n) hp (join d m) hq x =
           Some (meta_value (removed_header d h hp (join d m) x hx))"
  using x removableD(5,11) [OF r] removable_facts(9-12) [OF r]
  by (auto simp: remove_entry_meta [OF r] removed_header_def)

text \<open>The slots of a directory other than the parent are untouched, and so are its children.\<close>

lemma slots_wf_remove_other:
  assumes r: "removable st d n h hp m hq" and x: "valid_path x" "x \<noteq> d" "slots_wf st x hx"
    "num_buckets hx' = num_buckets hx"
  shows "slots_wf (remove_entry st d h (join d n) hp (join d m) hq) x hx'"
  unfolding slots_wf_def x(4)
proof (intro conjI allI impI)
  note R = removableD [OF r]
  show "0 \<le> sint (num_buckets hx)" using x(3) by (simp add: slots_wf_def)
  fix i assume "1 \<le> i \<and> i \<le> sint (num_buckets hx)"
  then obtain c hc where c: "valid_name c" "valid_path (join x c)"
      "st (child_key i x) = Some (bucket_value (join x c))"
      "st (join x c) = Some (meta_value hc)" "sint (parent_index hc) = i"
    using slots_wfE [OF x(3)] by blast
  have "join x c \<noteq> join d n" "join x c \<noteq> join d m"
    using join_inject [of x c d n] join_inject [of x c d m] c x R by auto
  then show "\<exists>n' hc. valid_name n' \<and> valid_path (join x n') \<and>
      remove_entry st d h (join d n) hp (join d m) hq (child_key i x) = Some (bucket_value (join x n')) \<and>
      remove_entry st d h (join d n) hp (join d m) hq (join x n') = Some (meta_value hc) \<and>
      sint (parent_index hc) = i"
    using c x remove_entry_header [OF r c(2) _ c(4)] remove_entry_slot [OF r x(1)]
    by (intro exI [of _ c] exI [of _ "removed_header d h hp (join d m) (join x c) hc"]) simp
qed

lemma slots_wf_remove_parent:
  assumes r: "removable st d n h hp m hq"
  shows "slots_wf (remove_entry st d h (join d n) hp (join d m) hq) d
           (h\<lparr>num_buckets := num_buckets h - 1\<rparr>)"
  unfolding slots_wf_def
proof (intro conjI allI impI)
  note R = removableD [OF r] and F = removable_facts [OF r]
  show "0 \<le> sint (num_buckets (h\<lparr>num_buckets := num_buckets h - 1\<rparr>))" using F by simp
  fix i assume "1 \<le> i \<and> i \<le> sint (num_buckets (h\<lparr>num_buckets := num_buckets h - 1\<rparr>))"
  with F have i: "1 \<le> i" "i < sint (num_buckets h)" by auto
  show "\<exists>n' hc. valid_name n' \<and> valid_path (join d n') \<and>
      remove_entry st d h (join d n) hp (join d m) hq (child_key i d) = Some (bucket_value (join d n')) \<and>
      remove_entry st d h (join d n) hp (join d m) hq (join d n') = Some (meta_value hc) \<and>
      sint (parent_index hc) = i"
  proof (cases "i = sint (parent_index hp)")
    case True
    with i F(8) have "join d m \<noteq> join d n" using join_inject [of d m d n] R by auto
    then show ?thesis
      using True i R remove_entry_meta [OF r R(9)] remove_entry_slot [OF r R(2)]
      by (intro exI [of _ m] exI [of _ "hq\<lparr>parent_index := parent_index hp\<rparr>"]) simp
  next
    case False
    from i have "i \<le> sint (num_buckets h)" by simp
    then obtain c hc where c: "valid_name c" "valid_path (join d c)"
        "st (child_key i d) = Some (bucket_value (join d c))"
        "st (join d c) = Some (meta_value hc)" "sint (parent_index hc) = i"
      using slots_wfE [OF F(2) i(1)] by blast
    have "join d c \<noteq> join d n" "join d c \<noteq> join d m" "join d c \<noteq> d"
      using c False i F(6) R(6,11) join_neq_dir [OF c(1), of d] by auto
    then show ?thesis
      using False c i R remove_entry_meta [OF r c(2)] remove_entry_slot [OF r R(2)]
      by (intro exI [of _ c] exI [of _ hc]) simp
  qed
qed


lemma linked_remove:
  assumes r: "removable st d n h hp m hq" and x: "valid_path x" "x \<noteq> join d n"
    "st x = Some (meta_value hx)" "linked st x hx"
  shows "linked (remove_entry st d h (join d n) hp (join d m) hq) x
           (removed_header d h hp (join d m) x hx)"
proof -
  note R = removableD [OF r] and F = removable_facts [OF r]
  let ?st = "remove_entry st d h (join d n) hp (join d m) hq"
  let ?H = "removed_header d h hp (join d m)"
  obtain d' c hd where l: "x = join d' c" "valid_path d'" "valid_name c"
      "st d' = Some (meta_value hd)" "is_dir hd = 1" "1 \<le> sint (parent_index hx)"
      "sint (parent_index hx) \<le> sint (num_buckets hd)"
      "st (child_key (sint (parent_index hx)) d') = Some (bucket_value x)"
    using x(4) unfolding linked_def by blast
  have np: "d' \<noteq> join d n"
  proof
    assume "d' = join d n"
    with l(4,5) R(6,7) have "num_buckets hd = 0" by simp
    with l(6,7) show False by simp
  qed
  have hd: "?st d' = Some (meta_value (?H d' hd))" by (rule remove_entry_header [OF r l(2) np l(4)])
  note slot = remove_entry_slot [OF r l(2)]
  show ?thesis
  proof (cases "d' = d")
    case False
    then have "x \<noteq> join d m" using l R x(1) join_inject [of d' c d m] by auto
    then show ?thesis
      unfolding linked_def using False l hd slot
      by (intro exI [of _ d'] exI [of _ c] exI [of _ "?H d' hd"]) simp
  next
    case True
    then have h: "hd = h" using l(4) R(5) by simp
    have nb: "sint (num_buckets (?H d' hd)) = sint (num_buckets h) - 1"
      using True F by (simp add: removed_header_def)
    show ?thesis
    proof (cases "x = join d m")
      case xm: True
      have "m \<noteq> n" using xm x(2) by auto
      then have "sint (parent_index hp) \<noteq> sint (num_buckets h)"
        using F(8) signed_word_eqI by blast
      moreover have "parent_index (?H x hx) = parent_index hp" using xm by (simp add: removed_header_def)
      ultimately show ?thesis
        unfolding linked_def using True l hd slot nb F(3,4) xm
        by (intro exI [of _ d'] exI [of _ c] exI [of _ "?H d' hd"]) simp
    next
      case xm: False
      have "sint (parent_index hx) \<noteq> sint (num_buckets h)"
        using l(8) R(10) True xm by auto
      moreover have "sint (parent_index hx) \<noteq> sint (parent_index hp)"
        using l(8) F(5) True x(2) by auto
      ultimately show ?thesis
        unfolding linked_def using True l hd slot nb xm h
        by (intro exI [of _ d'] exI [of _ c] exI [of _ "?H d' hd"]) simp
    qed
  qed
qed

theorem fs_wf_remove:
  assumes r: "removable st d n h hp m hq"
  shows "fs_wf (remove_entry st d h (join d n) hp (join d m) hq)"
proof -
  note R = removableD [OF r] and F = removable_facts [OF r]
  let ?st = "remove_entry st d h (join d n) hp (join d m) hq"
  let ?H = "removed_header d h hp (join d m)"
  obtain h0 where h0: "st ''/'' = Some (meta_value h0)" "is_dir h0 = 1"
    using R(1) by (auto simp: fs_wf_def)
  have "join d n \<noteq> ''/''" using R by simp
  then have "''/'' \<noteq> join d n" by metis
  then have "?st ''/'' = Some (meta_value (?H ''/'' h0))"
    by (rule remove_entry_header [OF r valid_path_root _ h0(1)])
  then have "\<exists>h. ?st ''/'' = Some (meta_value h) \<and> is_dir h = 1" using h0(2) by auto
  moreover have "node_wf ?st x v" if x: "valid_path x" "?st x = Some v" for x v
  proof -
    have xp: "x \<noteq> join d n" using x(2) remove_entry_meta [OF r x(1)] by auto
    have "st x \<noteq> None" using x xp R(5,11) remove_entry_meta [OF r x(1)] by (auto split: if_splits)
    then obtain hx where hx: "st x = Some (meta_value hx)"
      using fs_wf_meta [OF R(1) x(1)] by blast
    then have v: "v = meta_value (?H x hx)" using remove_entry_header [OF r x(1) xp hx] x(2) by simp
    have "slots_wf ?st x (?H x hx)" if "is_dir hx = 1"
    proof (cases "x = d")
      case True
      then have "?H x hx = h\<lparr>num_buckets := num_buckets h - 1\<rparr>"
        using hx R(5) F(12) by (simp add: removed_header_def)
      then show ?thesis using slots_wf_remove_parent [OF r] True by simp
    next
      case False
      then show ?thesis
        using slots_wf_remove_other [OF r x(1) False fs_wf_node(1) [OF R(1) x(1) hx that]] by simp
    qed
    moreover have "linked ?st x (?H x hx)" if "x \<noteq> ''/''"
      by (rule linked_remove [OF r x(1) xp hx fs_wf_node(2) [OF R(1) x(1) hx that]])
    ultimately show ?thesis using v by (auto simp: node_wf_def)
  qed
  ultimately show ?thesis by (simp add: fs_wf_def)
qed

lemma nodes_remove:
  assumes r: "removable st d n h hp m hq"
  shows "nodes (remove_entry st d h (join d n) hp (join d m) hq) = nodes st - {join d n}"
  using remove_entry_meta [OF r] removableD [OF r] by (auto simp: nodes_def split: if_splits)

lemma children_remove:
  assumes r: "removable st d n h hp m hq"
  defines "k \<equiv> nat (sint (parent_index hp) - 1)"
  shows "children (remove_entry st d h (join d n) hp (join d m) hq) d = swap_remove k (children st d)"
    "k < length (children st d)" "children st d ! k = join d n"
proof -
  note R = removableD [OF r] and F = removable_facts [OF r]
  note c = children_simp [OF F(2) R(5)]
  let ?st = "remove_entry st d h (join d n) hp (join d m) hq"
  show k: "k < length (children st d)" using F(3,4) c(1) by (simp add: k_def)
  have "int k + 1 = sint (parent_index hp)" using F(3) by (simp add: k_def)
  with c(2) [OF k] F(5) show "children st d ! k = join d n" by simp
  have ne: "children st d \<noteq> []" using k by auto
  have N: "int (length (children st d) - 1) + 1 = sint (num_buckets h)"
    using c(1) F(3,4) by simp
  then have last: "last (children st d) = join d m"
    using c(2) [of "length (children st d) - 1"] ne R(10) by (simp add: last_conv_nth)
  show "children ?st d = swap_remove k (children st d)"
  proof (rule children_eqI)
    show "?st d = Some (meta_value (h\<lparr>num_buckets := num_buckets h - 1\<rparr>))"
      using remove_entry_meta [OF r R(2)] F(11,12) by simp
    show "length (swap_remove k (children st d)) = nat (sint (num_buckets (h\<lparr>num_buckets := num_buckets h - 1\<rparr>)))"
      using c(1) F(7) by (simp add: swap_remove_def)
    fix j assume "j < length (swap_remove k (children st d))"
    then have j: "j < length (children st d) - 1" by (simp add: swap_remove_def)
    then show "?st (child_key (int j + 1) d) = Some (bucket_value (swap_remove k (children st d) ! j))"
      using remove_entry_slot [OF r R(2), of "int j + 1"] N c(2) [of j] last F(3)
      by (auto simp: swap_remove_def nth_butlast nth_list_update k_def)
  qed
qed

lemma children_remove_other:
  assumes r: "removable st d n h hp m hq" and x: "valid_path x" "x \<noteq> d" "x \<noteq> join d n"
  shows "children (remove_entry st d h (join d n) hp (join d m) hq) x = children st x"
proof -
  have "hdr_num_buckets (meta_value (hq\<lparr>parent_index := parent_index hp\<rparr>)) = num_buckets hq"
    "hdr_num_buckets (meta_value hq) = num_buckets hq"
    using peek_meta_value(4) [where r = "[]"] by simp_all
  then show ?thesis
    using remove_entry_meta [OF r x(1)] remove_entry_slot [OF r x(1)] x removableD(11) [OF r]
    by (cases "st x") (auto simp: children_def)
qed


section \<open>Changes that leave the tree as it is\<close>

text \<open>
  Two stores show the same tree when they agree on every child slot and every node keeps its
  kind, its parent index and, for a directory, its number of children.
\<close>

definition same_tree ::
    "(string \<Rightarrow> string option) \<Rightarrow> (string \<Rightarrow> string option) \<Rightarrow> bool" where
  "same_tree st st' \<longleftrightarrow>
     (\<forall>i x. valid_path x \<longrightarrow> st' (child_key i x) = st (child_key i x)) \<and>
     (\<forall>x. valid_path x \<longrightarrow> st x = None \<longrightarrow> st' x = None) \<and>
     (\<forall>x h. valid_path x \<longrightarrow> st x = Some (meta_value h) \<longrightarrow>
        (\<exists>h'. st' x = Some (meta_value h') \<and> is_dir h' = is_dir h \<and>
           parent_index h' = parent_index h \<and> (is_dir h = 1 \<longrightarrow> num_buckets h' = num_buckets h)))"

lemma same_treeD:
  assumes "same_tree st st'" "valid_path x"
  shows "st' (child_key i x) = st (child_key i x)" "st x = None \<Longrightarrow> st' x = None"
    "st x = Some (meta_value h) \<Longrightarrow>
       \<exists>h'. st' x = Some (meta_value h') \<and> is_dir h' = is_dir h \<and>
         parent_index h' = parent_index h \<and> (is_dir h = 1 \<longrightarrow> num_buckets h' = num_buckets h)"
  using assms by (auto simp: same_tree_def)

lemma slots_wf_same_tree:
  assumes t: "same_tree st st'" and "valid_path x" "slots_wf st x h" "num_buckets h' = num_buckets h"
  shows "slots_wf st' x h'"
  unfolding slots_wf_def assms(4)
proof (intro conjI allI impI)
  show "0 \<le> sint (num_buckets h)" using assms(3) by (simp add: slots_wf_def)
  fix i assume "1 \<le> i \<and> i \<le> sint (num_buckets h)"
  then obtain c hc where c: "valid_name c" "valid_path (join x c)"
      "st (child_key i x) = Some (bucket_value (join x c))"
      "st (join x c) = Some (meta_value hc)" "sint (parent_index hc) = i"
    using slots_wfE [OF assms(3)] by blast
  then show "\<exists>n hc. valid_name n \<and> valid_path (join x n) \<and>
      st' (child_key i x) = Some (bucket_value (join x n)) \<and>
      st' (join x n) = Some (meta_value hc) \<and> sint (parent_index hc) = i"
    using same_treeD(1) [OF t assms(2)] same_treeD(3) [OF t c(2,4)] by metis
qed

lemma linked_same_tree:
  assumes t: "same_tree st st'" and l: "linked st x h" "parent_index h' = parent_index h"
  shows "linked st' x h'"
proof -
  obtain d n hd where d: "x = join d n" "valid_path d" "valid_name n"
      "st d = Some (meta_value hd)" "is_dir hd = 1" "1 \<le> sint (parent_index h)"
      "sint (parent_index h) \<le> sint (num_buckets hd)"
      "st (child_key (sint (parent_index h)) d) = Some (bucket_value x)"
    using l(1) unfolding linked_def by blast
  obtain hd' where "st' d = Some (meta_value hd')" "is_dir hd' = 1" "num_buckets hd' = num_buckets hd"
    using same_treeD(3) [OF t d(2,4)] d(5) by auto
  then show ?thesis
    unfolding linked_def l(2) using d same_treeD(1) [OF t d(2)] by metis
qed

lemma fs_wf_same_tree:
  assumes t: "same_tree st st'" and w: "fs_wf st"
  shows "fs_wf st'"
proof -
  have "\<exists>h. st' ''/'' = Some (meta_value h) \<and> is_dir h = 1"
    using w same_treeD(3) [OF t valid_path_root] unfolding fs_wf_def by metis
  moreover have "node_wf st' x v" if x: "valid_path x" "st' x = Some v" for x v
  proof -
    have "st x \<noteq> None" using same_treeD(2) [OF t x(1)] x(2) by auto
    then obtain h where h: "st x = Some (meta_value h)" using fs_wf_meta [OF w x(1)] by blast
    then obtain h' where "st' x = Some (meta_value h')" "is_dir h' = is_dir h"
        "parent_index h' = parent_index h" "is_dir h = 1 \<longrightarrow> num_buckets h' = num_buckets h"
      using same_treeD(3) [OF t x(1)] by blast
    then show ?thesis
      using x fs_wf_node [OF w x(1) h] slots_wf_same_tree [OF t x(1)] linked_same_tree [OF t]
      unfolding node_wf_def by auto
  qed
  ultimately show ?thesis by (simp add: fs_wf_def)
qed

lemma nodes_same_tree:
  assumes t: "same_tree st st'" and w: "fs_wf st"
  shows "nodes st' = nodes st"
proof -
  have "st' x \<noteq> None \<longleftrightarrow> st x \<noteq> None" if "valid_path x" for x
    using same_treeD [OF t that] fs_wf_meta [OF w that] by (metis not_Some_eq)
  then show ?thesis by (auto simp: nodes_def)
qed

lemma same_tree_delete:
  assumes "\<And>x. valid_path x \<Longrightarrow> x \<notin> K" "\<And>i x. valid_path x \<Longrightarrow> child_key i x \<notin> K"
  shows "same_tree st (\<lambda>k. if k \<in> K then None else st k)"
  using assms by (auto simp: same_tree_def)

lemma same_tree_trans:
  assumes "same_tree a b" "same_tree b c" shows "same_tree a c"
  unfolding same_tree_def
proof (intro conjI allI impI)
  fix i x assume x: "valid_path x"
  show "c (child_key i x) = a (child_key i x)"
    using same_treeD(1) [OF assms(1) x] same_treeD(1) [OF assms(2) x] by simp
next
  fix x assume "valid_path x" "a x = None"
  then show "c x = None" using same_treeD(2) assms by metis
next
  fix x h assume x: "valid_path x" "a x = Some (meta_value h)"
  obtain h1 where "b x = Some (meta_value h1)" "is_dir h1 = is_dir h" "parent_index h1 = parent_index h"
      "is_dir h = 1 \<longrightarrow> num_buckets h1 = num_buckets h"
    using same_treeD(3) [OF assms(1) x] by blast
  moreover from this obtain h2 where "c x = Some (meta_value h2)" "is_dir h2 = is_dir h1"
      "parent_index h2 = parent_index h1" "is_dir h1 = 1 \<longrightarrow> num_buckets h2 = num_buckets h1"
    using same_treeD(3) [OF assms(2) x(1)] by blast
  ultimately show "\<exists>h'. c x = Some (meta_value h') \<and> is_dir h' = is_dir h \<and>
      parent_index h' = parent_index h \<and> (is_dir h = 1 \<longrightarrow> num_buckets h' = num_buckets h)"
    by auto
qed

lemma same_tree_other_key:
  assumes "\<And>x. valid_path x \<Longrightarrow> x \<noteq> k" "\<And>i x. valid_path x \<Longrightarrow> child_key i x \<noteq> k"
  shows "same_tree st (st(k := v))"
  using assms by (auto simp: same_tree_def)

lemma same_tree_header:
  assumes "valid_path p" "st p = Some (meta_value h)" "is_dir h' = is_dir h"
    "parent_index h' = parent_index h" "is_dir h = 1 \<longrightarrow> num_buckets h' = num_buckets h"
  shows "same_tree st (st(p \<mapsto> meta_value h'))"
  using assms by (auto simp: same_tree_def)


section \<open>A file system with only the root\<close>

definition root_only :: "int32 \<Rightarrow> string \<Rightarrow> string option" where
  "root_only x = [''stats'' \<mapsto> stats_value, ''/'' \<mapsto> meta_value (dir_header 0 x)]"

lemma root_only_path: "valid_path p \<Longrightarrow> root_only x p =
    (if p = ''/'' then Some (meta_value (dir_header 0 x)) else None)"
  by (auto simp: root_only_def)

lemma fs_wf_root_only: "fs_wf (root_only x)"
proof -
  have "node_wf (root_only x) p v" if "valid_path p" "root_only x p = Some v" for p v
    using that by (auto simp: root_only_path node_wf_def slots_wf_def dir_header_def split: if_splits)
  then show ?thesis by (simp add: fs_wf_def root_only_path) (simp add: dir_header_def)
qed

lemma root_only_view:
  "nodes (root_only x) = {''/''}" "children (root_only x) ''/'' = []"
  using peek_meta_value(4) [of "dir_header 0 x" "[]"]
  by (auto simp: nodes_def root_only_path children_def dir_header_def split: if_splits)

end
