(* ===== verification/Xattr.thy ===== *)
theory Xattr
  imports Namespace
begin

text \<open>
  Extended attributes: \<open>hello_setxattr\<close>, \<open>hello_getxattr\<close>, \<open>hello_listxattr\<close> and
  \<open>hello_removexattr\<close> of \<open>cachedfs/main.c\<close>.  A node numbers its attributes \<open>1 .. xattr_num\<close>;
  attribute \<open>i\<close> is stored under \<open>xattr_key i path\<close> as a bucket struct, a header struct, the
  length of the name, the name, the length of the data, the data.  The C parameter \<open>size\<close> is
  called \<open>sz\<close>.
\<close>

section \<open>Operations\<close>

definition hello_setxattr ::
    "'m server \<Rightarrow> junk \<Rightarrow> string \<Rightarrow> string \<Rightarrow> string \<Rightarrow> nat \<Rightarrow> 'm sock \<Rightarrow> (int \<times> 'm sock) result" where
  "hello_setxattr serve J path name val sz s =
     andthen (cache_get serve (at J ''get'') path (uninit J ''buf'' MAX_BUCKET_SIZE) s) (\<lambda>(_, buf, s).
     let newI = hdr_xattr_num buf + 1;
         buf = set_xattr_num newI buf in
     andthen (cache_set serve (at J ''set'') path buf (sint (cur_size buf)) s) (\<lambda>(_, s).
     andthen (fits 250 (xattr_key (sint newI) path)) (\<lambda>newKey.
     let len = to_int (int (sizeof_bucket + 2 * 4 + sizeof_header + length name + sz)) in
     andthen (guard (int (sizeof_bucket + sizeof_header + 4) \<le> len) Overrun) (\<lambda>_.
     let data = set_cur_size (of_int len) (uninit J ''data'' (nat len));
         data = set_data_len (of_nat sz) data;
         data = set_is_dir 2 data;
         data = set_parent_index newI data;
         data = poke data (sizeof_header + sizeof_bucket) (enc32 (of_nat (length name))) in
     andthen (memcpy data (4 + sizeof_header + sizeof_bucket) (name @ [NUL]) 0
                (int (length name + 1))) (\<lambda>data.
     andthen (memcpy data (sizeof_header + sizeof_bucket + 4 + length name) (enc32 (of_nat sz)) 0 4)
       (\<lambda>data.
     andthen (memcpy data (sizeof_header + sizeof_bucket + 2 * 4 + length name) val 0 (int sz))
       (\<lambda>data.
     andthen (cache_set serve (at J ''set2'') newKey data len s) (\<lambda>(_, s).
     Inr (0, s)))))))))"

text \<open>
  What the three loops have in common: fetch attribute \<open>i\<close> and copy its name to
  \<open>char curName[250]\<close>.  The result is \<open>curData\<close>, \<open>curLen\<close> and \<open>curName\<close>.
\<close>

definition fetch_attr ::
    "'m server \<Rightarrow> junk \<Rightarrow> string \<Rightarrow> int \<Rightarrow> 'm sock \<Rightarrow>
     (string \<times> int \<times> string \<times> 'm sock) result" where
  "fetch_attr serve J path i s =
     andthen (fits 250 (xattr_key i path)) (\<lambda>curKey.
     andthen (cache_get serve J curKey (uninit J ''curData'' 66000) s) (\<lambda>(_, curData, s).
     let curLen = sint (peek32 curData (sizeof_header + sizeof_bucket)) in
     andthen (strncpy_str 250 curData (4 + sizeof_header + sizeof_bucket) curLen) (\<lambda>curName.
     Inr (curData, curLen, curName, s))))"

primrec getxattr_loop ::
    "'m server \<Rightarrow> junk \<Rightarrow> string \<Rightarrow> string \<Rightarrow> string \<Rightarrow> nat \<Rightarrow> int list \<Rightarrow> 'm sock \<Rightarrow>
     (int \<times> string \<times> 'm sock) result" where
  "getxattr_loop serve J path name val sz [] s = Inr (- 1, val, s)"
| "getxattr_loop serve J path name val sz (i # is) s =
     andthen (fetch_attr serve (at J (dec_int i)) path i s) (\<lambda>(curData, _, curName, s).
     if name = curName then
       andthen (load32 curData (sizeof_header + sizeof_bucket + 4 + length name)) (\<lambda>dataLen.
       let sz = (if sint dataLen < 0 then sz else min sz (nat (sint dataLen))) in
       andthen (memcpy val 0 curData (sizeof_header + sizeof_bucket + 2 * 4 + length name) (int sz))
         (\<lambda>val. Inr (sint dataLen, val, s)))
     else getxattr_loop serve J path name val sz is s)"

definition hello_getxattr ::
    "'m server \<Rightarrow> junk \<Rightarrow> string \<Rightarrow> string \<Rightarrow> string \<Rightarrow> nat \<Rightarrow> 'm sock \<Rightarrow>
     (int \<times> string \<times> 'm sock) result" where
  "hello_getxattr serve J path name val sz s =
     andthen (cache_get serve (at J ''get'') path (uninit J ''buf'' MAX_BUCKET_SIZE) s) (\<lambda>(_, buf, s).
     let newI = sint (hdr_xattr_num buf) in
     getxattr_loop serve J path name val sz [1..newI] s)"

primrec listxattr_loop ::
    "'m server \<Rightarrow> junk \<Rightarrow> string \<Rightarrow> string \<Rightarrow> nat \<Rightarrow> int \<Rightarrow> nat \<Rightarrow> int list \<Rightarrow> 'm sock \<Rightarrow>
     (int \<times> string \<times> 'm sock) result" where
  "listxattr_loop serve J path lst sz newI pos [] s = Inr (int pos, lst, s)"
| "listxattr_loop serve J path lst sz newI pos (i # is) s =
     andthen (fetch_attr serve (at J (dec_int i)) path i s) (\<lambda>(_, curLen, curName, s).
     if int sz < int pos + curLen + 1 then Inr (newI, lst, s)
     else
       andthen (memcpy lst pos (curName @ [NUL]) 0 (int (length curName + 1))) (\<lambda>lst.
       listxattr_loop serve J path lst sz newI (pos + nat curLen + 1) is s))"

definition hello_listxattr ::
    "'m server \<Rightarrow> junk \<Rightarrow> string \<Rightarrow> string \<Rightarrow> nat \<Rightarrow> 'm sock \<Rightarrow>
     (int \<times> string \<times> 'm sock) result" where
  "hello_listxattr serve J path lst sz s =
     andthen (cache_get serve (at J ''get'') path (uninit J ''buf'' MAX_BUCKET_SIZE) s) (\<lambda>(_, buf, s).
     let newI = sint (hdr_xattr_num buf) in
     if sz = 0 then Inr (newI, lst, s)
     else listxattr_loop serve J path lst sz newI 0 [1..newI] s)"

text \<open>The search loop of removexattr: the index found (and the header stored), or -1.\<close>

primrec removexattr_loop ::
    "'m server \<Rightarrow> junk \<Rightarrow> string \<Rightarrow> string \<Rightarrow> string \<Rightarrow> int list \<Rightarrow> 'm sock \<Rightarrow>
     (int \<times> 'm sock) result" where
  "removexattr_loop serve J path name buf [] s = Inr (- 1, s)"
| "removexattr_loop serve J path name buf (i # is) s =
     andthen (fetch_attr serve (at J (dec_int i)) path i s) (\<lambda>(_, _, curName, s).
     if name = curName then
       andthen (cache_set serve (at J ''set'') path buf (sint (cur_size buf)) s) (\<lambda>(_, s).
       Inr (i, s))
     else removexattr_loop serve J path name buf is s)"

definition hello_removexattr ::
    "'m server \<Rightarrow> junk \<Rightarrow> string \<Rightarrow> string \<Rightarrow> 'm sock \<Rightarrow> (int \<times> 'm sock) result" where
  "hello_removexattr serve J path name s =
     andthen (cache_get serve (at J ''get'') path (uninit J ''buf'' MAX_BUCKET_SIZE) s) (\<lambda>(_, buf, s).
     let newI = sint (hdr_xattr_num buf);
         buf = set_xattr_num (hdr_xattr_num buf - 1) buf in
     andthen (removexattr_loop serve J path name buf [1..newI] s) (\<lambda>(removingI, s).
     if removingI = - 1 then Inr (- 1, s)
     else
       andthen (fits 250 (xattr_key newI path)) (\<lambda>lastKey.
       andthen (cache_get serve (at J ''last'') lastKey (uninit J ''lastData'' 66000) s)
         (\<lambda>(_, lastData, s).
       let lastData = set_parent_index (of_int removingI) lastData in
       andthen (cache_set serve (at J ''set2'') (xattr_key removingI path) lastData
                  (sint (cur_size lastData)) s) (\<lambda>(_, s).
       andthen (fits 264 (''delete '' @ lastKey @ crlf)) (\<lambda>removeLastMsg.
       andthen (cache_msg serve removeLastMsg (uninit J ''answer'' 1024) s) (\<lambda>(_, _, s).
       Inr (0, s))))))))"


section \<open>The stored attributes\<close>

definition attr_value :: "header_struct \<Rightarrow> string \<Rightarrow> string \<Rightarrow> string" where
  "attr_value h n v =
     enc32 (of_nat (32 + length n + length v)) @ enc_header h @ enc32 (of_nat (length n)) @ n
     @ enc32 (of_nat (length v)) @ v"

text \<open>Names and values the layout can hold.\<close>

definition attr_ok :: "string \<times> string \<Rightarrow> bool" where
  "attr_ok a \<longleftrightarrow> NUL \<notin> set (fst a) \<and> length (fst a) < 250 \<and> length (snd a) \<le> 64000"

text \<open>The node \<open>p\<close> with header \<open>h\<close> has the attributes \<open>as\<close>, in slot order.\<close>

definition attrs_at ::
    "(string \<Rightarrow> string option) \<Rightarrow> string \<Rightarrow> header_struct \<Rightarrow> (string \<times> string) list \<Rightarrow> bool" where
  "attrs_at st p h as \<longleftrightarrow>
     valid_path p \<and> st p = Some (meta_value h) \<and>
     length as < 2147483647 \<and> xattr_num h = of_nat (length as) \<and>
     (\<forall>i < length as. attr_ok (as ! i) \<and>
        (\<exists>g. st (xattr_key (int i + 1) p) = Some (attr_value g (fst (as ! i)) (snd (as ! i))) \<and>
             parent_index g = of_nat (i + 1)))"

lemma length_attr_value [simp]: "length (attr_value h n v) = 32 + length n + length v"
  by (simp add: attr_value_def enc_header_def)

lemma framed_attr_value:
  "attr_ok (n, v) \<Longrightarrow> framed (attr_value h n v)"
  by (simp add: framed_def attr_ok_def) (simp add: attr_value_def)

lemma attr_value_fields:
  assumes "attr_ok (n, v)"
  shows "sint (peek32 (attr_value h n v @ r) 24) = int (length n)"
    "peek32 (attr_value h n v @ r) (28 + length n) = of_nat (length v)"
    "sint (cur_size (attr_value h n v @ r)) = int (32 + length n + length v)"
proof -
  have "sint (of_nat (length n) :: int32) = int (length n)"
    "sint (of_nat (32 + length n + length v) :: int32) = int (32 + length n + length v)"
    using assms by (simp_all only: attr_ok_def fst_conv snd_conv) (intro sint_of_nat32, simp)+
  then show "sint (peek32 (attr_value h n v @ r) 24) = int (length n)"
    "sint (cur_size (attr_value h n v @ r)) = int (32 + length n + length v)"
    by (simp_all only: attr_value_def enc_header_def cur_size_def append_assoc peek32_0)
       (simp add: peek32_def)
  show "peek32 (attr_value h n v @ r) (28 + length n) = of_nat (length v)"
    by (simp add: attr_value_def enc_header_def peek32_def)
qed

lemma attr_value_name:
  "attr_ok (n, v) \<Longrightarrow> strncpy_str 250 (attr_value h n v @ r) 28 (int (length n)) = Inr n"
  by (simp add: strncpy_str_def attr_ok_def attr_value_def enc_header_def cstr_no_NUL)

lemma attr_value_data:
  "n \<le> length v \<Longrightarrow> take n (drop (32 + length nm) (attr_value h nm v @ r)) = take n v"
  by (simp add: attr_value_def enc_header_def)

lemma poke_attr_value:
  "set_parent_index w (attr_value h n v @ r) = attr_value (h\<lparr>parent_index := w\<rparr>) n v @ r"
  by (simp add: set_parent_index_def poke_def attr_value_def enc_header_def)

end
