(* ===== verification/XattrRuns.thy ===== *)
theory XattrRuns
  imports Xattr NodeRuns
begin

text \<open>
  What the attribute operations do to a node whose attributes are laid out as \<open>attrs_at\<close>
  says: the list of attributes before and after.
\<close>

lemma attrs_atD:
  assumes "attrs_at st p h as"
  shows "valid_path p" "st p = Some (meta_value h)" "length as < 2147483647"
    "xattr_num h = of_nat (length as)" "sint (xattr_num h) = int (length as)"
  using assms by (simp_all add: attrs_at_def sint_of_nat32)

lemma attrs_at_nth:
  assumes "attrs_at st p h as" "i < length as"
  obtains g where "attr_ok (as ! i)" "parent_index g = of_nat (i + 1)"
    "st (xattr_key (int i + 1) p) = Some (attr_value g (fst (as ! i)) (snd (as ! i)))"
  using assms by (auto simp: attrs_at_def)

text \<open>The buffer setxattr fills in.\<close>

lemma build_attr:
  fixes n v b :: string and w :: int32
  assumes "length b = 32 + length n + length v"
  defines "g \<equiv> \<lparr>is_dir = 2, data_len = of_nat (length v), num_buckets = hdr_num_buckets b,
                parent_index = w, xattr_num = hdr_xattr_num b\<rparr>"
  shows "poke (poke (poke (poke (set_parent_index w (set_is_dir 2 (set_data_len (of_nat (length v))
            (set_cur_size (of_nat (32 + length n + length v)) b)))) 24 (enc32 (of_nat (length n))))
            28 (n @ [NUL])) (28 + length n) (enc32 (of_nat (length v)))) (32 + length n) v
         = attr_value g n v"
proof -
  define c d where "c = take 24 b" and "d = drop 28 b"
  define e where "e = take 4 (drop 24 b)"
  have b: "b = c @ e @ d" and l: "length c = 24" "length e = 4" "length d = 4 + length n + length v"
    using assms(1) append_take_drop_id [of 4 "drop 24 b"]
    by (simp_all add: c_def d_def e_def)
  obtain b0 b1 b2 b3 b4 b5 where c: "c = b0 @ b1 @ b2 @ b3 @ b4 @ b5" "length b0 = 4" "length b1 = 4"
    "length b2 = 4" "length b3 = 4" "length b4 = 4" "length b5 = 4"
    using length24_split [OF l(1)] .
  define hh where "hh = enc32 (of_nat (32 + length n + length v)) @ enc_header g"
  have h: "length hh = 24" by (simp add: hh_def enc_header_def)
  have "set_parent_index w (set_is_dir 2 (set_data_len (of_nat (length v))
      (set_cur_size (of_nat (32 + length n + length v)) b))) = hh @ e @ d"
    using c by (simp add: b set_hdr_defs poke_def hdr_defs peek32_def enc_header_def g_def hh_def
        dec32_append enc32_dec32 del: of_nat_add)
  then show ?thesis
    using h l by (simp add: poke_def attr_value_def hh_def [symmetric] del: of_nat_add)
qed

text \<open>The NUL-terminated names from index \<open>j\<close> on.\<close>

abbreviation names_from :: "nat \<Rightarrow> (string \<times> string) list \<Rightarrow> string" where
  "names_from j as \<equiv> concat (map (\<lambda>a. fst a @ [NUL]) (drop j as))"

context memcached
begin

lemma fetch_attr_run:
  assumes "inbox s = []" "attrs_at (store (peer s)) p h as" "i < length as"
  shows "\<exists>g r. fetch_attr serve J p (int i + 1) s =
      Inr (attr_value g (fst (as ! i)) (snd (as ! i)) @ r, int (length (fst (as ! i))), fst (as ! i), s)"
proof -
  obtain g where g: "attr_ok (as ! i)" 
    "store (peer s) (xattr_key (int i + 1) p) = Some (attr_value g (fst (as ! i)) (snd (as ! i)))"
    using attrs_at_nth [OF assms(2,3)] by blast
  define n v where "n = fst (as ! i)" and "v = snd (as ! i)"
  have ok: "attr_ok (n, v)" using g(1) by (simp add: n_def v_def)
  note A = attrs_atD [OF assms(2)]
  have r: "- 2147483648 \<le> int i + 1" "int i + 1 < 2147483648" using A(3) assms(3) by linarith+
  note K = valid_keys(3) [OF A(1) r] length_keys(3) [OF A(1) r]
  have "length (attr_value g n v) \<le> 66000" using ok by (simp add: attr_ok_def)
  then have "cache_get serve J (xattr_key (int i + 1) p) (uninit J ''curData'' 66000) s =
      Inr (0, attr_value g n v @ drop (length (attr_value g n v)) (uninit J ''curData'' 66000), s)"
    using cache_get_hit [OF assms(1) K(1) g(2), folded n_def v_def] framed_attr_value [OF ok]
    by (simp add: overlay_def)
  then show ?thesis
    using K(2) attr_value_fields(1) [OF ok] attr_value_name [OF ok]
    by (simp add: fetch_attr_def sizeof_header_def sizeof_bucket_def n_def v_def Let_def) blast
qed

lemma get_node:
  assumes "inbox s = []" "attrs_at (store (peer s)) p h as"
  shows "cache_get serve J p (uninit J' n MAX_BUCKET_SIZE) s =
    Inr (0, meta_value h @ drop 24 (uninit J' n MAX_BUCKET_SIZE), s)"
  using get_meta [OF assms(1)] attrs_atD [OF assms(2)] by (simp add: MAX_BUCKET_SIZE_def)

lemma set_node:
  assumes "inbox s = []" "valid_path p"
  shows "cache_set serve J p (meta_value h @ r) (sint (cur_size (meta_value h @ r))) s =
    Inr (0, s\<lparr>peer := cput serve (peer s) p (meta_value h)\<rparr>)"
  using set_meta [OF assms] by simp

text \<open>The list of indices the loops run over, from index \<open>j\<close> on.\<close>

lemma upto_step: "j < n \<Longrightarrow> [int j + 1..int n] = (int j + 1) # [int (Suc j) + 1..int n]"
  by (simp add: upto_rec1 add.commute)

lemma getxattr_loop_run:
  assumes "inbox s = []" "attrs_at (store (peer s)) p h as"
  shows "j \<le> length as \<Longrightarrow> sz \<le> length val \<Longrightarrow>
    getxattr_loop serve J p nm val sz [int j + 1..int (length as)] s =
      (case map_of (drop j as) nm of
         None \<Rightarrow> Inr (- 1, val, s)
       | Some v \<Rightarrow> Inr (int (length v), take sz v @ drop (min sz (length v)) val, s))"
proof (induction "length as - j" arbitrary: j)
  case 0
  then show ?case by simp
next
  case (Suc d)
  then have j: "j < length as" by simp
  obtain g r where f: "fetch_attr serve (at J (dec_int (int j + 1))) p (int j + 1) s =
      Inr (attr_value g (fst (as ! j)) (snd (as ! j)) @ r, int (length (fst (as ! j))), fst (as ! j), s)"
    using fetch_attr_run [OF assms j] by blast
  have dr: "drop j as = as ! j # drop (Suc j) as" using j by (simp add: Cons_nth_drop_Suc)
  show ?case
  proof (cases "nm = fst (as ! j)")
    case False
    then show ?thesis
      using Suc.hyps(1) [of "Suc j"] Suc.hyps(2) Suc.prems j f
      by (simp add: upto_step dr map_of_Cons_code)
  next
    case True
    define v where "v = snd (as ! j)"
    have ok: "attr_ok (nm, v)" using attrs_at_nth [OF assms(2) j] True by (metis v_def prod.collapse)
    have sv: "sint (of_nat (length v) :: int32) = int (length v)"
      using ok by (intro sint_of_nat32) (simp add: attr_ok_def)
    let ?d = "attr_value g nm v @ r"
    have ld: "load32 ?d (28 + length nm) = Inr (of_nat (length v))"
      using attr_value_fields(2) [OF ok] by (simp add: load32_def)
    have cp: "memcpy val 0 ?d (32 + length nm) (int (min sz (length v))) =
        Inr (take sz v @ drop (min sz (length v)) val)"
      using memcpy_ok [of 0 "min sz (length v)" val "32 + length nm" ?d]
        attr_value_data [of "min sz (length v)" v nm g r] Suc.prems(2)
      by (simp add: poke_def min_def)
    show ?thesis
      using f True j ld cp sv
      by (simp add: upto_step dr map_of_Cons_code v_def [symmetric] sizeof_header_def
          sizeof_bucket_def Let_def del: of_nat_min)
  qed
qed

lemma setxattr_run:
  assumes "inbox s = []" "valid_path p" "store (peer s) p = Some (meta_value h)"
    "small_count (xattr_num h)" "attr_ok (nm, take sz val)" "sz \<le> length val"
  shows "\<exists>g. parent_index g = xattr_num h + 1 \<and> hello_setxattr serve J p nm val sz s =
    Inr (0, s\<lparr>peer := cput serve
      (cput serve (peer s) p (meta_value (h\<lparr>xattr_num := xattr_num h + 1\<rparr>)))
      (xattr_key (sint (xattr_num h) + 1) p) (attr_value g nm (take sz val))\<rparr>)"
proof -
  define v where "v = take sz val"
  have v: "length v = sz" and ok: "attr_ok (nm, v)" using assms(5,6) by (simp_all add: v_def)
  have c: "sint (xattr_num h + 1) = sint (xattr_num h) + 1" using assms(4) by (simp add: sint32_inc)
  have r: "- 2147483648 \<le> sint (xattr_num h) + 1" "sint (xattr_num h) + 1 < 2147483648"
    using assms(4) by linarith+
  note K = valid_keys(3) [OF assms(2) r] length_keys(3) [OF assms(2) r]
  define L where "L = 32 + length nm + sz"
  have L: "L \<le> 65000" using ok v by (simp add: attr_ok_def L_def)
  then have li: "to_int (int L) = int L" by (intro to_int_id) simp_all
  define b where "b = uninit J ''data'' L"
  have lb: "length b = 32 + length nm + length v" by (simp add: b_def L_def v)
  define g where "g = \<lparr>is_dir = 2, data_len = of_nat (length v), num_buckets = hdr_num_buckets b,
                parent_index = xattr_num h + 1, xattr_num = hdr_xattr_num b\<rparr>"
  note build = build_attr [OF lb, of "xattr_num h + 1", folded g_def]
  define b1 where "b1 = poke (set_parent_index (xattr_num h + 1) (set_is_dir 2 (set_data_len (of_nat sz)
            (set_cur_size (of_nat L) b)))) 24 (enc32 (of_nat (length nm)))"
  have l1: "length b1 = L" using lb by (simp add: b1_def L_def v)
  define b2 where "b2 = poke b1 28 (nm @ [NUL])"
  have m2: "memcpy b1 28 (nm @ [NUL]) 0 (int (length nm + 1)) = Inr b2"
    using memcpy_ok [of 28 "length nm + 1" b1 0 "nm @ [NUL]"] l1 by (simp add: b2_def L_def)
  have l2: "length b2 = L" using memcpy_length [OF m2] l1 by simp
  define b3 where "b3 = poke b2 (28 + length nm) (enc32 (of_nat sz))"
  have m3: "memcpy b2 (28 + length nm) (enc32 (of_nat sz)) 0 4 = Inr b3"
    using memcpy_ok [of "28 + length nm" 4 b2 0 "enc32 (of_nat sz)"] l2 by (simp add: b3_def L_def)
  have l3: "length b3 = L" using memcpy_length [OF m3] l2 by simp
  have m4: "memcpy b3 (32 + length nm) val 0 (int sz) = Inr (attr_value g nm v)"
    using memcpy_ok [of "32 + length nm" sz b3 0 val] l3 assms(6) build
    by (simp add: L_def b3_def b2_def b1_def v v_def del: of_nat_add)
  have fin: "cache_set serve J' (xattr_key (sint (xattr_num h) + 1) p) (attr_value g nm v) (int L)
      (s\<lparr>peer := m\<rparr>) =
      Inr (0, s\<lparr>peer := cput serve m (xattr_key (sint (xattr_num h) + 1) p) (attr_value g nm v)\<rparr>)" for J' m
    using cache_set_stored [OF _ K(1), of "s\<lparr>peer := m\<rparr>" "int L" "attr_value g nm v" J'] assms(1) L v
    by (simp add: L_def)
  have nd: "cache_get serve (at J ''get'') p (uninit J ''buf'' 1024) s =
      Inr (0, meta_value h @ drop 24 (uninit J ''buf'' 1024), s)"
    using get_meta [OF assms(1-3)] by simp
  have ln: "int (4 + 2 * 4 + 20 + length nm + sz) = int L" by (simp add: L_def)
  have "hello_setxattr serve J p nm val sz s =
    Inr (0, s\<lparr>peer := cput serve
      (cput serve (peer s) p (meta_value (h\<lparr>xattr_num := xattr_num h + 1\<rparr>)))
      (xattr_key (sint (xattr_num h) + 1) p) (attr_value g nm v)\<rparr>)"
    using nd set_meta [OF assms(1,2)] K(2) m2 m3 m4 fin L
    unfolding hello_setxattr_def MAX_BUCKET_SIZE_def sizeof_bucket_def sizeof_header_def ln li
    by (simp add: Let_def c b1_def b_def L_def del: of_nat_add)
  then show ?thesis by (intro exI [of _ g]) (simp add: v_def g_def)
qed

lemma names_from_step: "j < length as \<Longrightarrow> names_from j as = fst (as ! j) @ NUL # names_from (Suc j) as"
  by (simp add: Cons_nth_drop_Suc [symmetric])

lemma listxattr_step:
  assumes "inbox s = []" "attrs_at (store (peer s)) p h as" "j < length as" "sz \<le> length lst"
  shows "listxattr_loop serve J p lst sz N pos [int j + 1..int (length as)] s =
      (if sz < pos + length (fst (as ! j)) + 1 then Inr (N, lst, s)
       else listxattr_loop serve J p (poke lst pos (fst (as ! j) @ [NUL])) sz N
              (pos + length (fst (as ! j)) + 1) [int (Suc j) + 1..int (length as)] s)"
proof -
  obtain g r where f: "fetch_attr serve (at J (dec_int (int j + 1))) p (int j + 1) s =
      Inr (attr_value g (fst (as ! j)) (snd (as ! j)) @ r, int (length (fst (as ! j))), fst (as ! j), s)"
    using fetch_attr_run [OF assms(1-3)] by blast
  have c: "int sz < int pos + int (length (fst (as ! j))) + 1 \<longleftrightarrow> sz < pos + length (fst (as ! j)) + 1"
    by linarith
  have "memcpy lst pos (fst (as ! j) @ [NUL]) 0 (int (length (fst (as ! j)) + 1)) =
      Inr (poke lst pos (fst (as ! j) @ [NUL]))" if "pos + length (fst (as ! j)) + 1 \<le> sz"
    using memcpy_ok [of pos "length (fst (as ! j)) + 1" lst 0 "fst (as ! j) @ [NUL]"]
      that assms(4) by simp
  then show ?thesis using assms(3) f by (simp add: upto_step c)
qed

lemma listxattr_loop_run:
  assumes "inbox s = []" "attrs_at (store (peer s)) p h as"
  shows "j \<le> length as \<Longrightarrow> pos + length (names_from j as) \<le> sz \<Longrightarrow> sz \<le> length lst \<Longrightarrow>
      listxattr_loop serve J p lst sz N pos [int j + 1..int (length as)] s =
        Inr (int (pos + length (names_from j as)), poke lst pos (names_from j as), s)"
proof (induction "length as - j" arbitrary: j pos lst)
  case 0
  then show ?case by simp
next
  case (Suc d)
  then have j: "j < length as" by simp
  note n = names_from_step [OF j]
  let ?lst = "poke lst pos (fst (as ! j) @ [NUL])"
  have l: "pos + length (fst (as ! j)) + 1 + length (names_from (Suc j) as) \<le> sz"
    using Suc.prems(2) n by simp
  have "poke ?lst (pos + length (fst (as ! j)) + 1) (names_from (Suc j) as) =
      poke lst pos (names_from j as)"
    using poke_poke [of pos "fst (as ! j) @ [NUL]" lst "names_from (Suc j) as"] l Suc.prems(3) n
    by simp
  moreover have "length ?lst = length lst" using l Suc.prems(3) by simp
  ultimately show ?case
    using Suc.hyps(1) [of "Suc j" "pos + length (fst (as ! j)) + 1" ?lst] Suc.hyps(2) Suc.prems l n
      listxattr_step [OF assms j Suc.prems(3), of J N pos]
    by simp
qed

lemma listxattr_loop_short:
  assumes "inbox s = []" "attrs_at (store (peer s)) p h as"
  shows "j \<le> length as \<Longrightarrow> sz < pos + length (names_from j as) \<Longrightarrow> pos \<le> sz \<Longrightarrow> sz \<le> length lst \<Longrightarrow>
      \<exists>out. listxattr_loop serve J p lst sz N pos [int j + 1..int (length as)] s = Inr (N, out, s)"
proof (induction "length as - j" arbitrary: j pos lst)
  case 0
  then show ?case by simp
next
  case (Suc d)
  then have j: "j < length as" by simp
  note n = names_from_step [OF j] and step = listxattr_step [OF assms j Suc.prems(4), of J N pos]
  let ?lst = "poke lst pos (fst (as ! j) @ [NUL])"
  show ?case
  proof (cases "sz < pos + length (fst (as ! j)) + 1")
    case True
    then show ?thesis using step by simp
  next
    case False
    then have "length ?lst = length lst" using Suc.prems(4) by simp
    then show ?thesis
      using Suc.hyps(1) [of "Suc j" "pos + length (fst (as ! j)) + 1" ?lst] Suc.hyps(2) Suc.prems
        False n step
      by simp
  qed
qed

lemma removexattr_step:
  assumes "inbox s = []" "attrs_at (store (peer s)) p h as" "j < length as"
  shows "removexattr_loop serve J p nm buf [int j + 1..int (length as)] s =
      (if nm = fst (as ! j)
       then andthen (cache_set serve (at J ''set'') p buf (sint (cur_size buf)) s)
              (\<lambda>(_, s). Inr (int j + 1, s))
       else removexattr_loop serve J p nm buf [int (Suc j) + 1..int (length as)] s)"
proof -
  obtain g r where "fetch_attr serve (at J (dec_int (int j + 1))) p (int j + 1) s =
      Inr (attr_value g (fst (as ! j)) (snd (as ! j)) @ r, int (length (fst (as ! j))), fst (as ! j), s)"
    using fetch_attr_run [OF assms(1-3)] by blast
  then show ?thesis using assms(3) by (simp add: upto_step)
qed

lemma removexattr_loop_miss:
  assumes "inbox s = []" "attrs_at (store (peer s)) p h as" "nm \<notin> fst ` set as"
  shows "j \<le> length as \<Longrightarrow>
      removexattr_loop serve J p nm buf [int j + 1..int (length as)] s = Inr (- 1, s)"
proof (induction "length as - j" arbitrary: j)
  case 0
  then show ?case by simp
next
  case (Suc d)
  then have j: "j < length as" by simp
  then have "nm \<noteq> fst (as ! j)" using assms(3) by force
  then show ?case
    using removexattr_step [OF assms(1,2) j, of J nm buf] Suc.hyps(1) [of "Suc j"] Suc.hyps(2) by simp
qed

text \<open>The search finds the first index \<open>k\<close> with the name.\<close>

lemma removexattr_loop_hit:
  assumes "inbox s = []" "attrs_at (store (peer s)) p h as" "k < length as" "fst (as ! k) = nm"
    "\<And>i. i < k \<Longrightarrow> fst (as ! i) \<noteq> nm"
  shows "j \<le> k \<Longrightarrow>
      removexattr_loop serve J p nm (meta_value h' @ r) [int j + 1..int (length as)] s =
        Inr (int k + 1, s\<lparr>peer := cput serve (peer s) p (meta_value h')\<rparr>)"
proof (induction "k - j" arbitrary: j)
  case 0
  then have "j = k" by simp
  then show ?case
    using removexattr_step [OF assms(1-3)] assms(4) set_node [OF assms(1) attrs_atD(1) [OF assms(2)]]
    by simp
next
  case (Suc d)
  then have j: "j < length as" "j < k" using assms(3) by simp_all
  then show ?case
    using removexattr_step [OF assms(1,2) j(1)] assms(5) [OF j(2)] Suc.hyps(1) [of "Suc j"] Suc.hyps(2)
    by fastforce
qed

lemma removexattr_run:
  assumes "inbox s = []" "attrs_at (store (peer s)) p h as" "k < length as" "fst (as ! k) = nm"
    "\<And>i. i < k \<Longrightarrow> fst (as ! i) \<noteq> nm"
  defines "h' \<equiv> h\<lparr>xattr_num := xattr_num h - 1\<rparr>"
  shows "\<exists>g m. hello_removexattr serve J p nm s = Inr (0, s\<lparr>peer := m\<rparr>) \<and>
    parent_index g = of_nat (k + 1) \<and>
    store m = (store (peer s))(p \<mapsto> meta_value h',
      xattr_key (int k + 1) p \<mapsto> attr_value g (fst (last as)) (snd (last as)),
      xattr_key (int (length as)) p := None)"
proof -
  note A = attrs_atD [OF assms(2)]
  define l where "l = length as - 1"
  have l: "l < length as" "int l + 1 = int (length as)" "as ! l = last as"
    using assms(3) last_conv_nth [of as] by (cases "as = []"; simp add: l_def)+
  obtain g where g: "attr_ok (last as)"
    "store (peer s) (xattr_key (int (length as)) p) = Some (attr_value g (fst (last as)) (snd (last as)))"
    using attrs_at_nth [OF assms(2) l(1)] l(2,3) by metis
  define n v where "n = fst (last as)" and "v = snd (last as)"
  have ok: "attr_ok (n, v)" using g(1) by (simp add: n_def v_def)
  have r: "- 2147483648 \<le> int k + 1" "int k + 1 < 2147483648"
    "- 2147483648 \<le> int (length as)" "int (length as) < 2147483648" using A(3) assms(3) by linarith+
  note K = valid_keys(3) [OF A(1) r(1,2)] and L = valid_keys(3) [OF A(1) r(3,4)] length_keys(3) [OF A(1) r(3,4)]
  define m1 where "m1 = cput serve (peer s) p (meta_value h')"
  have st1: "store m1 = (store (peer s))(p \<mapsto> meta_value h')" using A(1) by (simp add: m1_def)
  have s1: "inbox (s\<lparr>peer := m1\<rparr>) = []" using assms(1) by simp
  have loop: "removexattr_loop serve J p nm (meta_value h' @ r) [1..int (length as)] s =
      Inr (int k + 1, s\<lparr>peer := m1\<rparr>)" for r
    using removexattr_loop_hit [OF assms(1-5), of 0] by (simp add: m1_def)
  have lv: "length (attr_value g n v) \<le> 65000" using ok by (simp add: attr_ok_def)
  obtain r where get: "cache_get serve (at J ''last'') (xattr_key (int (length as)) p)
      (uninit J ''lastData'' 66000) (s\<lparr>peer := m1\<rparr>) = Inr (0, attr_value g n v @ r, s\<lparr>peer := m1\<rparr>)"
    using cache_get_hit [OF s1 L(1), of "attr_value g n v"] st1 g(2) A(1) lv framed_attr_value [OF ok]
    by (simp add: overlay_def n_def v_def)
  define g' where "g' = g\<lparr>parent_index := of_nat (k + 1)\<rparr>"
  define m2 where "m2 = cput serve m1 (xattr_key (int k + 1) p) (attr_value g' n v)"
  have set: "cache_set serve J' (xattr_key (int k + 1) p) (attr_value g' n v @ r)
      (int (32 + length n + length v)) (s\<lparr>peer := m1\<rparr>) = Inr (0, s\<lparr>peer := m2\<rparr>)" for J'
    using cache_set_stored [OF s1 K, of "int (32 + length n + length v)" "attr_value g' n v @ r" J'] lv
    by (simp add: m2_def)
  define m3 where "m3 = cdel serve m2 (xattr_key (int (length as)) p)"
  obtain b where del: "cache_msg serve (del_req (xattr_key (int (length as)) p)) (uninit J ''answer'' 1024)
      (s\<lparr>peer := m2\<rparr>) = Inr (0, b, s\<lparr>peer := m3\<rparr>)"
    using cache_delete_ok [of "s\<lparr>peer := m2\<rparr>", OF _ L(1), of "uninit J ''answer'' 1024"] assms(1)
    by (auto simp: m3_def)
  have pi: "set_parent_index (of_int (int k + 1)) (attr_value g n v @ r) = attr_value g' n v @ r"
    unfolding poke_attr_value by (simp add: g'_def add.commute)
  have "hello_removexattr serve J p nm s = Inr (0, s\<lparr>peer := m3\<rparr>)"
    using get_node [OF assms(1,2)] loop A(5) get set del [unfolded del_req_def] pi L(2)
      attr_value_fields(3) [OF ok]
    by (simp add: hello_removexattr_def h'_def [symmetric] Let_def del: of_nat_add of_int_add)
  moreover have "store m3 = (store (peer s))(p \<mapsto> meta_value h',
      xattr_key (int k + 1) p \<mapsto> attr_value g' n v, xattr_key (int (length as)) p := None)"
    using K L(1) lv by (simp add: m3_def m2_def st1)
  ultimately show ?thesis by (intro exI [of _ g'] exI [of _ m3]) (simp add: g'_def n_def v_def)
qed

end

end
