(* ===== verification/FileIO.thy ===== *)
theory FileIO
  imports Namespace "HOL-Library.Signed_Division"
begin

text \<open>
  Reading and writing file data: \<open>hello_read\<close> and \<open>hello_write\<close> of \<open>cachedfs/main.c\<close>.  A
  file's data is kept in buckets of 1024 bytes under \<open>data_key 1 path\<close>, \<open>data_key 2 path\<close>, ...

  The C parameter \<open>size\<close> is called \<open>sz\<close>; \<open>size_t\<close> and \<open>off_t\<close> values are
  unbounded numbers here, \<open>int\<close> fields and counters are kept at 32 bits.  The loop of
  \<open>hello_read\<close> need not end (a stored bucket without data makes no progress), so it takes
  fuel; \<open>sz\<close> units are enough for a well-formed file.  \<open>hello_write\<close> calls itself, to fill a
  gap with zeros; its fuel bounds that nesting.
\<close>

section \<open>hello\_read\<close>

text \<open>The length a bucket claims: \<open>cur_size - sizeof(struct bucket_struct)\<close>, as an \<open>int\<close>.\<close>

definition bucket_len :: "string \<Rightarrow> int" where
  "bucket_len data = sint (cur_size data - of_nat sizeof_bucket)"

primrec read_loop ::
    "'m server \<Rightarrow> junk \<Rightarrow> nat \<Rightarrow> string \<Rightarrow> string \<Rightarrow> nat \<Rightarrow> nat \<Rightarrow> nat \<Rightarrow> int \<Rightarrow> 'm sock \<Rightarrow>
     (string \<times> 'm sock) result" where
  "read_loop serve J 0 path buf sz offset written_len firstBucketIndex s =
     (if sz > 0 then Inl OutOfFuel else Inr (buf, s))"
| "read_loop serve J (Suc fuel) path buf sz offset written_len firstBucketIndex s =
     (if sz > 0 then
        let Ji = at J (dec_int firstBucketIndex) in
        andthen (fits 250 (data_key firstBucketIndex path)) (\<lambda>curKey.
        andthen (cache_get serve Ji curKey
                  (uninit Ji ''data'' (SPACE_FOR_STRUCTS + MAX_BUCKET_SIZE)) s) (\<lambda>(_, data, s).
        let bucketDataLen = bucket_len data;
            startingOffsetInData = offset mod MAX_BUCKET_SIZE;
            maxAvailableSpace = MAX_BUCKET_SIZE - startingOffsetInData;
            realDataToReadLen = min (int (min sz maxAvailableSpace)) bucketDataLen in
        andthen (memcpy buf written_len data (sizeof_bucket + startingOffsetInData)
                   realDataToReadLen) (\<lambda>buf.
        read_loop serve J fuel path buf (sz - nat realDataToReadLen)
          (offset + nat realDataToReadLen) (written_len + nat realDataToReadLen)
          (firstBucketIndex + 1) s)))
      else Inr (buf, s))"

definition hello_read ::
    "'m server \<Rightarrow> junk \<Rightarrow> nat \<Rightarrow> string \<Rightarrow> string \<Rightarrow> nat \<Rightarrow> int \<Rightarrow> 'm sock \<Rightarrow>
     (int \<times> string \<times> 'm sock) result" where
  "hello_read serve J fuel path buf sz offset s =
     (if offset < 0 then Inr (0, buf, s)
      else
        andthen (cache_get serve (at J ''get'') path (uninit J ''headers'' 1280) s) (\<lambda>(_, headers, s).
        let curLength = sint (hdr_data_len headers) in
        if offset \<ge> curLength then Inr (0, buf, s)
        else
          let sz = (if offset + int sz > curLength then nat (curLength - offset) else sz);
              toReturn = to_int (int sz);
              firstBucketIndex = offset div int MAX_BUCKET_SIZE + 1 in
          andthen (read_loop serve J fuel path buf sz (nat offset) 0 firstBucketIndex s)
            (\<lambda>(buf, s). Inr (toReturn, buf, s))))"


section \<open>hello\_write\<close>

lemma smod_less: "0 < m \<Longrightarrow> (i :: int) smod m < m"
  using smod_int_range [of m i] by auto

text \<open>
  Division and remainder of the signed \<open>offset\<close> truncate towards zero, as in C.
\<close>

function (sequential) write_loop ::
    "'m server \<Rightarrow> junk \<Rightarrow> string \<Rightarrow> string \<Rightarrow> nat \<Rightarrow> int \<Rightarrow> nat \<Rightarrow> int \<Rightarrow> string \<Rightarrow> 'm sock \<Rightarrow>
     (string \<times> 'm sock) result" where
  "write_loop serve J path buf sz offset written_len firstBucketIndex headers s =
     (if sz > 0 then
        let Ji = at J (dec_int firstBucketIndex) in
        if sint (hdr_num_buckets headers) < firstBucketIndex then
          andthen (fits 250 (data_key firstBucketIndex path)) (\<lambda>curKey.
          let realDataToWriteLength = min sz MAX_BUCKET_SIZE;
              data = set_cur_size (of_nat (sizeof_bucket + realDataToWriteLength))
                       (uninit Ji ''data'' (SPACE_FOR_STRUCTS + MAX_BUCKET_SIZE)) in
          andthen (memcpy data sizeof_bucket buf written_len (int realDataToWriteLength)) (\<lambda>data.
          andthen (cache_set serve (at Ji ''set'') curKey data
                     (int (realDataToWriteLength + sizeof_bucket)) s) (\<lambda>(_, s).
          let headers = set_num_buckets (hdr_num_buckets headers + 1) headers;
              headers = set_data_len (hdr_data_len headers + of_nat realDataToWriteLength) headers;
              headers = set_data_len (hdr_data_len headers + of_nat sizeof_bucket) headers in
          write_loop serve J path buf (sz - realDataToWriteLength)
            (offset + int realDataToWriteLength) (written_len + realDataToWriteLength)
            (firstBucketIndex + 1) headers s)))
        else
          andthen (fits 250 (data_key firstBucketIndex path)) (\<lambda>curKey.
          andthen (cache_get serve (at Ji ''get'') curKey
                     (uninit Ji ''data2'' (SPACE_FOR_STRUCTS + MAX_BUCKET_SIZE)) s) (\<lambda>(_, data, s).
          let oldLen = bucket_len data;
              startingOffsetInData = offset smod int MAX_BUCKET_SIZE;
              maxAvailableSpace = int MAX_BUCKET_SIZE - startingOffsetInData;
              realDataToWriteLen = nat (min (int sz) maxAvailableSpace);
              start = int sizeof_bucket + startingOffsetInData in
          andthen (guard (0 \<le> start) Overrun) (\<lambda>_.
          andthen (memcpy data (nat start) buf written_len (int realDataToWriteLen)) (\<lambda>data.
          let newLen = max oldLen (startingOffsetInData + int realDataToWriteLen);
              data = set_cur_size (of_int (newLen + int sizeof_bucket)) data;
              headers = set_data_len (hdr_data_len headers + of_int (newLen - oldLen)) headers in
          andthen (cache_set serve (at Ji ''set'') curKey data (newLen + int sizeof_bucket) s) (\<lambda>(_, s).
          write_loop serve J path buf (sz - realDataToWriteLen)
            (offset + int realDataToWriteLen) (written_len + realDataToWriteLen)
            (firstBucketIndex + 1) headers s)))))
      else Inr (headers, s))"
  by pat_completeness auto

termination
  by (relation "measure (\<lambda>(serve, J, path, buf, sz, _). sz)")
     (auto simp: MAX_BUCKET_SIZE_def smod_less)

declare write_loop.simps [simp del]

primrec hello_write ::
    "'m server \<Rightarrow> junk \<Rightarrow> nat \<Rightarrow> string \<Rightarrow> string \<Rightarrow> nat \<Rightarrow> int \<Rightarrow> 'm sock \<Rightarrow>
     (int \<times> 'm sock) result" where
  "hello_write serve J 0 path buf sz offset s = Inl OutOfFuel"
| "hello_write serve J (Suc fuel) path buf sz offset s =
     andthen (cache_get serve (at J ''get'') path (uninit J ''headers'' 1280) s) (\<lambda>(_, headers, s).
     let curLength = sint (hdr_data_len headers) in
     andthen
       (if offset > curLength then
          let gap = nat (offset - curLength) in
          andthen (hello_write serve (at J ''zeros'') fuel path (replicate gap NUL) gap
                     curLength s) (\<lambda>(_, s).
          Inr (set_data_len (of_int offset) headers, s))
        else Inr (headers, s)) (\<lambda>(headers, s).
     let firstBucketIndex = 1 + offset sdiv int MAX_BUCKET_SIZE in
     andthen (write_loop serve J path buf sz offset 0 firstBucketIndex headers s) (\<lambda>(headers, s).
     andthen (cache_set serve (at J ''set'') path headers
                (int (sizeof_header + sizeof_bucket)) s) (\<lambda>(_, s).
     Inr (to_int (int sz), s)))))"

declare hello_write.simps(2) [simp del] read_loop.simps(2) [simp del]


section \<open>The abstract file\<close>

text \<open>Block \<open>i\<close> of a file's contents, and the number of blocks.\<close>

definition blk :: "nat \<Rightarrow> string \<Rightarrow> string" where
  "blk i xs = take 1024 (drop (1024 * i) xs)"

definition nblk :: "string \<Rightarrow> nat" where
  "nblk xs = (length xs + 1023) div 1024"

definition overwrite :: "string \<Rightarrow> nat \<Rightarrow> string \<Rightarrow> string" where
  "overwrite xs off bs = take off xs @ bs @ drop (off + length bs) xs"

definition blocks_at :: "(string \<Rightarrow> string option) \<Rightarrow> string \<Rightarrow> string \<Rightarrow> bool" where
  "blocks_at st p xs \<longleftrightarrow>
     (\<forall>i < nblk xs. st (data_key (int i + 1) p) = Some (bucket_value (blk i xs)))"

definition sized :: "header_struct \<Rightarrow> string \<Rightarrow> header_struct" where
  "sized h xs =
     h\<lparr>num_buckets := of_nat (nblk xs), data_len := of_nat (length xs + 4 * nblk xs)\<rparr>"

text \<open>
  The file \<open>p\<close> has contents \<open>xs\<close>: its header counts the buckets, its \<open>data_len\<close> counts the
  bytes \<^emph>\<open>and four more per bucket\<close> (the code adds \<open>sizeof(struct bucket_struct)\<close> for each new
  bucket), and the buckets hold the blocks.
\<close>

definition file_at :: "(string \<Rightarrow> string option) \<Rightarrow> string \<Rightarrow> header_struct \<Rightarrow> string \<Rightarrow> bool" where
  "file_at st p h xs \<longleftrightarrow>
     valid_path p \<and> st p = Some (meta_value h) \<and> is_dir h = 0 \<and>
     length xs < 1073741824 \<and> h = sized h xs \<and> blocks_at st p xs"

end
