(* ===== verification/FileRuns.thy ===== *)
theory FileRuns
  imports FileIO NodeRuns
begin

text \<open>
  What the loops of \<open>hello_read\<close> and \<open>hello_write\<close> do to a well-formed file: the read loop
  copies a slice of the contents, the write loop overwrites one.
\<close>

section \<open>Blocks\<close>

lemma length_blk: "length (blk i xs) = min 1024 (length xs - 1024 * i)"
  by (simp add: blk_def)

lemma nblk_le [bounds]: "length xs \<le> 1024 * nblk xs" "1024 * nblk xs \<le> length xs + 1023"
  by (simp_all add: nblk_def)

lemma less_nblk: "i < nblk xs \<longleftrightarrow> 1024 * i < length xs"
  using less_eq_div_iff_mult_less_eq [of 1024 "Suc i" "length xs + 1023"]
  by (simp add: nblk_def Suc_le_eq mult.commute)

lemma nth_blk: "k < length (blk i xs) \<Longrightarrow> blk i xs ! k = xs ! (1024 * i + k)"
  by (auto simp: blk_def less_diff_conv intro!: nth_drop)

lemma length_overwrite [simp]:
  "off \<le> length xs \<Longrightarrow> length (overwrite xs off bs) = max (length xs) (off + length bs)"
  by (simp add: overwrite_def)

lemma nth_overwrite:
  assumes "off \<le> length xs" "k < max (length xs) (off + length bs)"
  shows "overwrite xs off bs ! k =
    (if off \<le> k \<and> k < off + length bs then bs ! (k - off) else xs ! k)"
  using assms by (auto simp: overwrite_def nth_append min_def)

lemma overwrite_Nil [simp]: "overwrite xs off [] = xs"
  by (simp add: overwrite_def)

lemma overwrite_overwrite:
  "off \<le> length xs \<Longrightarrow>
   overwrite (overwrite xs off as) (off + length as) bs = overwrite xs off (as @ bs)"
  by (simp add: overwrite_def ac_simps)

lemma blk_overwrite_same:
  assumes "1024 * i + start + length bs \<le> 1024 * i + 1024" "1024 * i + start \<le> length xs"
  shows "blk i (overwrite xs (1024 * i + start) bs) = overwrite (blk i xs) start bs"
proof (rule nth_equalityI)
  have s: "start \<le> length (blk i xs)" using assms by (simp add: length_blk)
  show l: "length (blk i (overwrite xs (1024 * i + start) bs)) = length (overwrite (blk i xs) start bs)"
    using assms s by (simp add: length_blk)
  fix k assume k: "k < length (blk i (overwrite xs (1024 * i + start) bs))"
  then have k': "k < max (length (blk i xs)) (start + length bs)" using l s by simp
  have "blk i (overwrite xs (1024 * i + start) bs) ! k =
      overwrite xs (1024 * i + start) bs ! (1024 * i + k)"
    using k by (rule nth_blk)
  also have "\<dots> = overwrite (blk i xs) start bs ! k"
  proof -
    have "1024 * i + k < max (length xs) (1024 * i + start + length bs)"
      using k assms by (simp add: length_blk less_diff_conv add.commute)
    moreover have "xs ! (1024 * i + k) = blk i xs ! k"
      if "\<not> (start \<le> k \<and> k < start + length bs)"
      using k' that s by (subst nth_blk) auto
    ultimately show ?thesis
      using assms s k' by (subst (1 2) nth_overwrite) auto
  qed
  finally show "blk i (overwrite xs (1024 * i + start) bs) ! k = overwrite (blk i xs) start bs ! k" .
qed

lemma blk_overwrite_other:
  assumes "1024 * j + start + length bs \<le> 1024 * j + 1024" "1024 * j + start \<le> length xs"
    "i \<noteq> j" "i < nblk xs"
  shows "blk i (overwrite xs (1024 * j + start) bs) = blk i xs"
proof (rule nth_equalityI)
  have i: "1024 * i < length xs" using assms(4) by (simp add: less_nblk)
  have disj: "i + 1 \<le> j \<or> j + 1 \<le> i" using assms(3) by auto
  show l: "length (blk i (overwrite xs (1024 * j + start) bs)) = length (blk i xs)"
    using assms i disj by (auto simp: length_blk)
  fix k assume k: "k < length (blk i (overwrite xs (1024 * j + start) bs))"
  have b: "k < 1024" "1024 * i + k < length xs" using k unfolding l by (simp_all add: length_blk less_diff_conv add.commute)
  show "blk i (overwrite xs (1024 * j + start) bs) ! k = blk i xs ! k"
    using k l assms(1,2) b disj by (simp add: nth_blk) (subst nth_overwrite; auto)
qed

lemma nblk_overwrite:
  assumes "1024 * i + start + length bs \<le> 1024 * i + 1024" "1024 * i + start \<le> length xs" "bs \<noteq> []"
  shows "nblk (overwrite xs (1024 * i + start) bs) = max (nblk xs) (i + 1)"
proof -
  obtain c where "length bs = Suc c" using assms(3) by (cases bs) auto
  then have "(1024 * i + start + length bs + 1023) div 1024 = Suc i"
    using assms(1) by (intro div_nat_eqI) simp_all
  moreover have "(max a b + 1023) div 1024 = max ((a + 1023) div 1024) ((b + 1023) div 1024)"
    for a b :: nat
    by (simp add: max_def) (metis add_le_mono1 antisym div_le_mono nat_le_linear)
  ultimately show ?thesis
    unfolding nblk_def length_overwrite [OF assms(2)] by simp
qed


lemma sdiv_of_nat: "int a sdiv int b = int (a div b)"
  by (cases "a = 0 \<or> b = 0") (auto simp: signed_divide_int_def sgn_mult zdiv_int)

lemma smod_of_nat: "int a smod int b = int (a mod b)"
  by (cases "a = 0") (auto simp: signed_modulo_int_def zmod_int)

lemma word_of_nat_eqI: "int x + z = int y \<Longrightarrow> of_nat x + of_int z = (of_nat y :: int32)"
  by (metis of_int_add of_int_of_nat_eq)

lemma bucket_len_bucket_value [simp]:
  "length d < 2147483644 \<Longrightarrow> bucket_len (bucket_value d @ r) = int (length d)"
  using sint_of_nat32 [of "length d"]
  by (simp add: bucket_len_def cur_size_def bucket_value_def sizeof_bucket_def)

text \<open>The part of a bucket that is a part of the contents.\<close>

lemma bucket_slice:
  assumes "start + m \<le> length (blk i xs)"
  shows "take m (drop (4 + start) (bucket_value (blk i xs) @ r)) = take m (drop (1024 * i + start) xs)"
proof -
  have m: "m \<le> 1024 - start" using assms by (auto simp: length_blk)
  have "take m (drop (4 + start) (bucket_value (blk i xs) @ r)) = take m (drop start (blk i xs))"
    using assms by (simp add: bucket_value_def)
  also have "\<dots> = take m (drop (1024 * i + start) xs)"
    using m by (simp add: blk_def drop_take add.commute min.absorb1)
  finally show ?thesis .
qed

text \<open>The bucket written back: bytes replaced behind a size that may have grown.\<close>

lemma bucket_patch:
  assumes "start \<le> length d" "start + length bs \<le> length d + length r"
  shows "set_cur_size (of_nat (4 + max (length d) (start + length bs)))
           (poke (bucket_value d @ r) (4 + start) bs)
         = bucket_value (overwrite d start bs) @ drop (start + length bs - length d) r"
  using assms
  by (simp add: set_cur_size_def poke_def bucket_value_def overwrite_def sizeof_bucket_def max_def add.commute)

lemma new_bucket:
  assumes "length bs \<le> 1024"
  shows "poke (set_cur_size (of_nat (4 + length bs)) (uninit J n 1224)) 4 bs
         = bucket_value bs @ drop (4 + length bs) (uninit J n 1224)"
  using assms by (simp add: set_cur_size_def poke_def bucket_value_def sizeof_bucket_def add.commute)


lemma sized_kind [simp]:
  "is_dir (sized h xs) = is_dir h" "parent_index (sized h xs) = parent_index h"
  "xattr_num (sized h xs) = xattr_num h"
  by (simp_all add: sized_def)

lemma sized_fields:
  assumes "length xs < 1073741824"
  shows "sint (data_len (sized h xs)) = int (length xs + 4 * nblk xs)"
    "sint (num_buckets (sized h xs)) = int (nblk xs)"
proof -
  have "length xs + 4 * nblk xs < 2147483648" "nblk xs < 2147483648"
    using nblk_le(2) [of xs] assms by linarith+
  then show "sint (data_len (sized h xs)) = int (length xs + 4 * nblk xs)"
    "sint (num_buckets (sized h xs)) = int (nblk xs)"
    by (simp_all add: sized_def sint_of_nat32 del: of_nat_add)
qed


section \<open>The loops\<close>

text \<open>All that a write changes besides the header is buckets of the file.\<close>

definition only_buckets :: "string \<Rightarrow> (string \<Rightarrow> string option) \<Rightarrow> (string \<Rightarrow> string option) \<Rightarrow> bool" where
  "only_buckets p st st' \<longleftrightarrow>
     (\<forall>k. st' k = st k \<or> (\<exists>i b. 0 < i \<and> k = data_key i p \<and> length b \<le> 1024 \<and> st' k = Some (bucket_value b)))"

lemma only_buckets_refl [simp]: "only_buckets p st st"
  by (simp add: only_buckets_def)

lemma only_buckets_put:
  assumes "0 < i" "length b \<le> 1024" "only_buckets p (st(data_key i p \<mapsto> bucket_value b)) st'"
  shows "only_buckets p st st'"
  unfolding only_buckets_def
proof
  fix k
  show "st' k = st k \<or> (\<exists>i b. 0 < i \<and> k = data_key i p \<and> length b \<le> 1024 \<and> st' k = Some (bucket_value b))"
    using assms(1,2) spec [OF assms(3) [unfolded only_buckets_def], of k] by (cases "k = data_key i p") auto
qed

lemma only_buckets_other: "only_buckets p st st' \<Longrightarrow> \<forall>i. k \<noteq> data_key i p \<Longrightarrow> st' k = st k"
  unfolding only_buckets_def by blast

lemma only_buckets_frame:
  "only_buckets p (st(p \<mapsto> w)) st' \<Longrightarrow> \<forall>k. k \<noteq> p \<longrightarrow> (\<forall>i. k \<noteq> data_key i p) \<longrightarrow> st' k = st k"
  using only_buckets_other [of p "st(p \<mapsto> w)" st'] by simp

context memcached
begin

lemma read_step:
  fixes off n k :: nat
  assumes "inbox s = []" "valid_path p" "blocks_at (store (peer s)) p xs"
    "length xs < 1073741824" "off + n \<le> length xs" "0 < n" "w + n \<le> length buf"
    "off = 1024 * i + k" "k < 1024" "m = min n (1024 - k)"
  shows "read_loop serve J (Suc fuel) p buf n off w (int i + 1) s =
    read_loop serve J fuel p (poke buf w (take m (drop off xs))) (n - m) (off + m) (w + m)
      (int i + 1 + 1) s"
proof -
  let ?d = "blk i xs"
  have i: "i < nblk xs" using assms(5,6,8) by (simp add: less_nblk)
  have l: "length ?d \<le> 1024" by (simp add: length_blk)
  have "m \<le> n" "k + m \<le> 1024" using assms(9,10) by auto
  then have km: "k + m \<le> length ?d" using assms(5,8) by (auto simp: length_blk)
  have r: "- 2147483648 \<le> int i + 1" "int i + 1 < 2147483648" using assms(4,5,8) by linarith+
  note K = valid_keys(2) [OF assms(2) r] length_keys(2) [OF assms(2) r]
  have st: "store (peer s) (data_key (int i + 1) p) = Some (bucket_value ?d)"
    using assms(3) i by (simp add: blocks_at_def)
  have get: "cache_get serve J' (data_key (int i + 1) p) (uninit J' ''data'' 1224) s =
      Inr (0, bucket_value ?d @ drop (4 + length ?d) (uninit J' ''data'' 1224), s)" for J'
    using get_bucket [OF assms(1) K(1) st] l by simp
  have mm: "min (int (min n (1024 - k))) (int (length ?d)) = int m"
    using km assms(10) by simp
  have o: "off mod 1024 = k" using assms(8,9) by simp
  have cp: "memcpy buf w (bucket_value ?d @ x) (4 + k) (int m) = Inr (poke buf w (take m (drop off xs)))"
    for x
    using memcpy_ok [of w m buf "4 + k" "bucket_value ?d @ x"] km assms(7,8,10)
      bucket_slice [OF km, of x]
    by simp
  show ?thesis
    using assms(6) K(2) l
    by (simp add: read_loop.simps(2) SPACE_FOR_STRUCTS_def MAX_BUCKET_SIZE_def sizeof_bucket_def
        Let_def get mm cp o del: take_append drop_append of_nat_min)
qed

lemma read_loop_run:
  fixes off n :: nat
  assumes "inbox s = []" "valid_path p" "blocks_at (store (peer s)) p xs" "length xs < 1073741824"
  shows "off + n \<le> length xs \<Longrightarrow> w + n \<le> length buf \<Longrightarrow> n \<le> fuel \<Longrightarrow>
    n = 0 \<or> idx = int (off div 1024) + 1 \<Longrightarrow>
    read_loop serve J fuel p buf n off w idx s = Inr (poke buf w (take n (drop off xs)), s)"
proof (induction fuel arbitrary: buf n off w idx)
  case 0
  then show ?case by simp
next
  case (Suc fuel)
  show ?case
  proof (cases "n = 0")
    case True
    then show ?thesis by (simp add: read_loop.simps(2))
  next
    case False
    define i k where "i = off div 1024" and "k = off mod 1024"
    have ik: "off = 1024 * i + k" "k < 1024" by (simp_all add: i_def k_def)
    define m where "m = min n (1024 - k)"
    have m: "m \<le> n" "0 < m" "n - m = 0 \<or> k + m = 1024"
      using False ik(2) by (auto simp: m_def)
    have lm: "length (take m (drop off xs)) = m" using m Suc.prems(1) by simp
    have "n - m = 0 \<or> int i + 1 + 1 = int ((off + m) div 1024) + 1"
      using m(3) unfolding ik(1) by auto
    then have "read_loop serve J fuel p (poke buf w (take m (drop off xs))) (n - m) (off + m) (w + m)
        (int i + 1 + 1) s =
        Inr (poke (poke buf w (take m (drop off xs))) (w + m) (take (n - m) (drop (off + m) xs)), s)"
      using Suc.prems m lm by (intro Suc.IH) auto
    moreover have "poke (poke buf w (take m (drop off xs))) (w + m) (take (n - m) (drop (off + m) xs))
        = poke buf w (take m (drop off xs) @ take (n - m) (drop (off + m) xs))"
      using poke_poke [of w "take m (drop off xs)" buf] lm Suc.prems(2) m(1) by simp
    moreover have "take m (drop off xs) @ take (n - m) (drop (off + m) xs) = take n (drop off xs)"
      using m(1) take_add [of m "n - m" "drop off xs"] by (simp add: add.commute)
    ultimately show ?thesis
      using read_step [OF assms, of off n w buf i k m J fuel] Suc.prems False ik m_def
      by (simp add: i_def [symmetric])
  qed
qed

lemma blocks_at_put:
  assumes "valid_path p" "i \<le> nblk xs" "int i + 1 < 2147483648" "length (blk i ys) \<le> 64996"
    "nblk ys = max (nblk xs) (i + 1)" "\<And>j. j \<noteq> i \<Longrightarrow> j < nblk xs \<Longrightarrow> blk j ys = blk j xs"
    "blocks_at (store m) p xs"
  shows "blocks_at (store (cput serve m (data_key (int i + 1) p) (bucket_value (blk i ys)))) p ys"
proof -
  have "j < nblk xs \<or> j = i" if "j < nblk ys" for j using that assms(2,5) by auto
  then show ?thesis using assms valid_keys(2) [OF assms(1), of "int i + 1"]
    by (auto simp: blocks_at_def)
qed

text \<open>What a round of the write loop, which writes \<open>bs\<close> into the \<open>i\<close>-th bucket, knows.\<close>

lemma write_round:
  fixes off n k i :: nat
  assumes "valid_path p" "length xs < 1073741824" "off \<le> length xs" "0 < n" "w + n \<le> length buf"
    "off = 1024 * i + k" "k < 1024" "m = min n (1024 - k)"
  defines "bs \<equiv> take m (drop w buf)"
  defines "ys \<equiv> overwrite xs off bs"
  shows "m \<le> n" "0 < m" "k + m \<le> 1024" "length bs = m" "bs \<noteq> []"
    "blk i ys = overwrite (blk i xs) k bs" "nblk ys = max (nblk xs) (i + 1)" "length ys = max (length xs) (off + m)"
    "i \<le> nblk xs" "valid_key (data_key (int i + 1) p)" "length (data_key (int i + 1) p) < 250"
    "sint (hdr_num_buckets (meta_value (sized h xs) @ r)) = int (nblk xs)"
proof -
  show m: "m \<le> n" "0 < m" "k + m \<le> 1024" using assms(4,7,8) by auto
  show bs: "length bs = m" "bs \<noteq> []" using m assms(5) by (auto simp: bs_def)
  have pre: "1024 * i + k + length bs \<le> 1024 * i + 1024" "1024 * i + k \<le> length xs"
    using m bs assms(3,6) by simp_all
  show "blk i ys = overwrite (blk i xs) k bs" "nblk ys = max (nblk xs) (i + 1)"
    using blk_overwrite_same [OF pre] nblk_overwrite [OF pre bs(2)] by (simp_all add: ys_def assms(6))
  show "length ys = max (length xs) (off + m)" using assms(3) bs by (simp add: ys_def)
  have r: "- 2147483648 \<le> int i + 1" "int i + 1 < 2147483648" using assms(2,3,6) by linarith+
  show "valid_key (data_key (int i + 1) p)" "length (data_key (int i + 1) p) < 250"
    using valid_keys(2) [OF assms(1) r] length_keys(2) [OF assms(1) r] .
  show "i \<le> nblk xs" using nblk_le(1) [of xs] assms(3,6) by linarith
  have "nblk xs < 2147483648" using nblk_le(2) [of xs] assms(2) by linarith
  then show "sint (hdr_num_buckets (meta_value (sized h xs) @ r)) = int (nblk xs)"
    by (simp add: sized_def sint_of_nat32)
qed

text \<open>One round of the write loop, in either branch.\<close>

lemma write_new_bucket:
  fixes off n k i :: nat
  assumes "inbox s = []" "valid_path p" "blocks_at (store (peer s)) p xs"
    "length xs < 1073741824" "off \<le> length xs" "0 < n" "w + n \<le> length buf"
    "off = 1024 * i + k" "k < 1024" "m = min n (1024 - k)"
  defines "ys \<equiv> overwrite xs off (take m (drop w buf))"
  defines "s' \<equiv> s\<lparr>peer := cput serve (peer s) (data_key (int i + 1) p) (bucket_value (blk i ys))\<rparr>"
  assumes new: "\<not> i < nblk xs"
  shows "write_loop serve J p buf n (int off) w (int i + 1) (meta_value (sized h xs) @ r) s =
      write_loop serve J p buf (n - m) (int (off + m)) (w + m) (int i + 1 + 1)
        (meta_value (sized h ys) @ r) s'"
proof -
  define bs where "bs = take m (drop w buf)"
  note W = write_round [OF assms(2,4-10), folded ys_def, folded bs_def]
  note m = W(1-3) and bs = W(4,5) and Y = W(6,7) and ly = W(8) and i = W(9) and K = W(10,11)
  have lb: "length (blk j zs) \<le> 1024" for j zs by (simp add: length_blk)
  have e: "i = nblk xs" "k = 0" "length xs = 1024 * i" "off = 1024 * i"
    using new i assms(5,8) nblk_le [of xs] by linarith+
  have "blk i xs = []" by (simp add: blk_def e(3))
  then have v: "blk i ys = bs" using Y(1) e(2) by (simp add: overwrite_def)
  have mm: "min n 1024 = m" using assms(10) e(2) by simp
  define h' where "h' = (sized h xs)\<lparr>num_buckets := of_nat (nblk xs) + 1,
      data_len := of_nat (length xs + 4 * nblk xs) + of_nat m + of_nat 4\<rparr>"
  have "h' = sized h ys"
    using ly e bs Y(2) by (simp add: h'_def sized_def)
  moreover have "memcpy (set_cur_size (of_nat (4 + m)) (uninit J' ''data'' 1224)) 4 buf w (int m)
      = Inr (bucket_value bs @ drop (4 + m) (uninit J' ''data'' 1224))" for J'
    using memcpy_ok [of 4 m _ w buf] new_bucket [of bs J' "''data''"] bs m assms(7)
    by (simp add: bs_def)
  moreover have "cache_set serve J' (data_key (int i + 1) p) (bucket_value bs @ x) (int (m + 4)) s
      = Inr (0, s')" for J' x
    using set_bucket [OF assms(1) K(1), of bs J' x] bs m v by (simp add: s'_def add.commute)
  ultimately show ?thesis
    using assms(6) K(2) W(12) e(1)
    by (subst write_loop.simps)
       (simp add: SPACE_FOR_STRUCTS_def MAX_BUCKET_SIZE_def sizeof_bucket_def mm Let_def h'_def
          sized_def)
qed

lemma write_old_bucket:
  fixes off n k i :: nat
  assumes "inbox s = []" "valid_path p" "blocks_at (store (peer s)) p xs"
    "length xs < 1073741824" "off \<le> length xs" "0 < n" "w + n \<le> length buf"
    "off = 1024 * i + k" "k < 1024" "m = min n (1024 - k)"
  defines "ys \<equiv> overwrite xs off (take m (drop w buf))"
  defines "s' \<equiv> s\<lparr>peer := cput serve (peer s) (data_key (int i + 1) p) (bucket_value (blk i ys))\<rparr>"
  assumes old: "i < nblk xs"
  shows "write_loop serve J p buf n (int off) w (int i + 1) (meta_value (sized h xs) @ r) s =
      write_loop serve J p buf (n - m) (int (off + m)) (w + m) (int i + 1 + 1)
        (meta_value (sized h ys) @ r) s'"
proof -
  define bs where "bs = take m (drop w buf)"
  note W = write_round [OF assms(2,4-10), folded ys_def, folded bs_def]
  note m = W(1-3) and bs = W(4,5) and Y = W(6,7) and ly = W(8) and i = W(9) and K = W(10,11)
  have lb: "length (blk j zs) \<le> 1024" for j zs by (simp add: length_blk)
  let ?d = "blk i xs"
  have km: "k \<le> length ?d" using assms(5,8,9) by (auto simp: length_blk)
  have st: "store (peer s) (data_key (int i + 1) p) = Some (bucket_value ?d)"
    using assms(3) old by (simp add: blocks_at_def)
  define x where "x J' = drop (4 + length ?d) (uninit J' ''data2'' 1224)" for J'
  have get: "cache_get serve (at J' ''get'') (data_key (int i + 1) p) (uninit J' ''data2'' 1224) s =
      Inr (0, bucket_value ?d @ x J', s)" for J'
    using get_bucket [OF assms(1) K(1) st] lb [of i xs] by (simp add: x_def)
  define y where "y J' = drop (k + m - length ?d) (x J')" for J'
  have cp: "memcpy (bucket_value ?d @ x J') (4 + k) buf w (int m) =
      Inr (poke (bucket_value ?d @ x J') (4 + k) bs)" for J'
    using memcpy_ok [of "4 + k" m "bucket_value ?d @ x J'" w buf] m assms(7) lb [of i xs]
    by (simp add: bs_def x_def)
  have l: "max (int (length ?d)) (int k + int m) = int (length (blk i ys))"
    using Y(1) km bs by simp
  have patch: "set_cur_size (of_nat (4 + length (blk i ys))) (poke (bucket_value ?d @ x J') (4 + k) bs)
      = bucket_value (blk i ys) @ y J'" for J'
    using bucket_patch [OF km, of bs "x J'"] Y(1) km bs m lb [of i xs] by (simp add: x_def y_def)
  define h' where "h' = (sized h xs)\<lparr>data_len := of_nat (length xs + 4 * nblk xs)
      + of_int (int (length (blk i ys)) - int (length ?d))\<rparr>"
  have n: "nblk ys = nblk xs" using Y(2) old by simp
  have "length (blk i ys) - length ?d = length ys - length xs \<and> length ?d \<le> length (blk i ys)
      \<and> length xs \<le> length ys"
    using ly km bs m assms(5,8) Y(1) by (auto simp: length_blk max_def min_def)
  then have "int (length xs + 4 * nblk xs) + (int (length (blk i ys)) - int (length ?d))
      = int (length ys + 4 * nblk ys)"
    using n by linarith
  then have h': "h' = sized h ys"
    unfolding h'_def sized_def word_of_nat_eqI [OF \<open>_ = int (length ys + 4 * nblk ys)\<close>] n by simp
  have set: "cache_set serve J' (data_key (int i + 1) p) (bucket_value (blk i ys) @ z)
      (int (length (blk i ys)) + 4) s = Inr (0, s')" for J' z
    using set_bucket [OF assms(1) K(1), of "blk i ys" J' z] lb [of i ys]
    by (simp add: s'_def add.commute)
  have sm: "int off smod 1024 = int k" using smod_of_nat [of off 1024] assms(8,9) by simp
  have mm: "min (int n) (1024 - int k) = int m" using assms(9,10) by auto
  have pt: "set_cur_size (word_of_nat (length (blk i ys)) + 4)
      (poke (bucket_value ?d @ x J') (4 + k) bs) = bucket_value (blk i ys) @ y J'" for J'
    using patch [of J'] by (simp add: add.commute)
  have k4: "nat (4 + int k) = 4 + k" by simp
  show ?thesis
    using assms(6) K(2) W(12) old lb [of i xs] h' [unfolded h'_def]
    by (subst write_loop.simps)
       (simp add: SPACE_FOR_STRUCTS_def MAX_BUCKET_SIZE_def sizeof_bucket_def Let_def get sm mm
          k4 cp l pt set sized_def less_imp_le [OF assms(9)] of_nat_add [of off m, symmetric]
          del: of_nat_add of_nat_min)
qed

lemma write_step:
  fixes off n k i :: nat
  assumes "inbox s = []" "valid_path p" "blocks_at (store (peer s)) p xs"
    "length xs < 1073741824" "off \<le> length xs" "0 < n" "w + n \<le> length buf"
    "off = 1024 * i + k" "k < 1024" "m = min n (1024 - k)"
  defines "ys \<equiv> overwrite xs off (take m (drop w buf))"
  defines "s' \<equiv> s\<lparr>peer := cput serve (peer s) (data_key (int i + 1) p) (bucket_value (blk i ys))\<rparr>"
  shows "write_loop serve J p buf n (int off) w (int i + 1) (meta_value (sized h xs) @ r) s =
      write_loop serve J p buf (n - m) (int (off + m)) (w + m) (int i + 1 + 1)
        (meta_value (sized h ys) @ r) s'"
    "blocks_at (store (peer s')) p ys"
    "length ys = max (length xs) (off + m)"
proof -
  define bs where "bs = take m (drop w buf)"
  have m: "m \<le> n" "0 < m" "k + m \<le> 1024" using assms(6,9,10) by auto
  have bs: "length bs = m" "bs \<noteq> []" using m assms(7) by (auto simp: bs_def)
  have ys: "ys = overwrite xs (1024 * i + k) bs" by (simp add: ys_def bs_def assms(8))
  have pre: "1024 * i + k + length bs \<le> 1024 * i + 1024" "1024 * i + k \<le> length xs"
    using m bs assms(5,8) by simp_all
  note Y = blk_overwrite_same [OF pre, folded ys] nblk_overwrite [OF pre bs(2), folded ys]
  show ly: "length ys = max (length xs) (off + m)" using ys assms(5,8) bs by simp
  have r: "- 2147483648 \<le> int i + 1" "int i + 1 < 2147483648" using assms(4,5,8) by linarith+
  note K = valid_keys(2) [OF assms(2) r] length_keys(2) [OF assms(2) r]
  have lb: "length (blk j zs) \<le> 1024" for j zs by (simp add: length_blk)
  have i: "i \<le> nblk xs"
    using nblk_le(1) [of xs] assms(5,8) by linarith
  show "blocks_at (store (peer s')) p ys"
    unfolding s'_def
    using blocks_at_put [OF assms(2) i r(2) _ Y(2) _ assms(3)] lb [of i ys]
      blk_overwrite_other [OF pre, folded ys] by simp
  show "write_loop serve J p buf n (int off) w (int i + 1) (meta_value (sized h xs) @ r) s =
      write_loop serve J p buf (n - m) (int (off + m)) (w + m) (int i + 1 + 1)
        (meta_value (sized h ys) @ r) s'"
    using write_new_bucket [OF assms(1-10)] write_old_bucket [OF assms(1-10)] unfolding ys_def s'_def by blast
qed

lemma write_loop_run:
  fixes off n :: nat
  assumes "valid_path p"
  shows "inbox s = [] \<Longrightarrow> blocks_at (store (peer s)) p xs \<Longrightarrow> off \<le> length xs \<Longrightarrow>
    length xs < 1073741824 \<Longrightarrow> off + n < 1073741824 \<Longrightarrow> w + n \<le> length buf \<Longrightarrow>
    n = 0 \<or> idx = 1 + int (off div 1024) \<Longrightarrow>
    \<exists>m. write_loop serve J p buf n (int off) w idx (meta_value (sized h xs) @ r) s =
        Inr (meta_value (sized h (overwrite xs off (take n (drop w buf)))) @ r, s\<lparr>peer := m\<rparr>) \<and>
      blocks_at (store m) p (overwrite xs off (take n (drop w buf))) \<and>
      only_buckets p (store (peer s)) (store m)"
proof (induction n arbitrary: off w idx xs s rule: less_induct)
  case (less n)
  show ?case
  proof (cases "n = 0")
    case True
    then show ?thesis using less.prems(2) by (intro exI [of _ "peer s"]) (simp add: write_loop.simps)
  next
    case False
    define i k where "i = off div 1024" and "k = off mod 1024"
    have ik: "off = 1024 * i + k" "k < 1024" by (simp_all add: i_def k_def)
    define m where "m = min n (1024 - k)"
    have m: "m \<le> n" "0 < m" "n - m = 0 \<or> k + m = 1024"
      using False ik(2) by (auto simp: m_def)
    define bs where "bs = take m (drop w buf)"
    define ys where "ys = overwrite xs off bs"
    have lbs: "length bs = m" using m less.prems(6) by (simp add: bs_def)
    define s' where "s' = s\<lparr>peer := cput serve (peer s) (data_key (int i + 1) p) (bucket_value (blk i ys))\<rparr>"
    have idx: "idx = int i + 1" using less.prems(7) False by (simp add: i_def)
    have pos: "0 < n" using False by simp
    note step = write_step [OF less.prems(1) assms less.prems(2,4,3) pos less.prems(6) ik m_def,
        folded bs_def, folded ys_def, folded s'_def]
    have r: "- 2147483648 \<le> int i + 1" "int i + 1 < 2147483648"
      using less.prems(3,4) ik(1) by linarith+
    have "store (peer s') = (store (peer s))(data_key (int i + 1) p \<mapsto> bucket_value (blk i ys))"
      using store_cput [OF valid_keys(2) [OF assms r], of "bucket_value (blk i ys)"]
      by (simp add: s'_def length_blk)
    then have fr: "only_buckets p (store (peer s')) st \<Longrightarrow> only_buckets p (store (peer s)) st" for st
      using only_buckets_put [of "int i + 1" "blk i ys" p "store (peer s)"] by (simp add: length_blk)
    have idx': "n - m = 0 \<or> int i + 1 + 1 = 1 + int ((off + m) div 1024)"
      using m(3) unfolding ik(1) by auto
    have i': "inbox s' = []" using less.prems(1) by (simp add: s'_def)
    have out: "overwrite ys (off + m) (take (n - m) (drop (w + m) buf)) =
        overwrite xs off (take n (drop w buf))"
      using overwrite_overwrite [OF less.prems(3), of bs "take (n - m) (drop (w + m) buf)"] lbs
        take_add [of m "n - m" "drop w buf"] m(1)
      by (simp add: ys_def bs_def add.commute)
    have "\<exists>M. write_loop serve J p buf (n - m) (int (off + m)) (w + m) (int i + 1 + 1)
          (meta_value (sized h ys) @ r) s' =
        Inr (meta_value (sized h (overwrite ys (off + m) (take (n - m) (drop (w + m) buf)))) @ r,
             s'\<lparr>peer := M\<rparr>) \<and>
      blocks_at (store M) p (overwrite ys (off + m) (take (n - m) (drop (w + m) buf))) \<and>
      only_buckets p (store (peer s')) (store M)"
      using m less.prems step(3) by (intro less.IH [OF _ i' step(2) _ _ _ _ idx']) auto
    then show ?thesis
      unfolding idx step(1) out using fr by (auto simp: s'_def)
  qed
qed

text \<open>The calls.\<close>

lemma read_run:
  assumes "inbox s = []" "file_at (store (peer s)) p h xs" "off + n \<le> length xs"
    "n \<le> length buf" "n \<le> fuel"
  shows "hello_read serve J fuel p buf n (int off) s =
    Inr (int n, take n (drop off xs) @ drop n buf, s)"
proof -
  have F: "valid_path p" "store (peer s) p = Some (meta_value h)" "length xs < 1073741824"
      "h = sized h xs" "blocks_at (store (peer s)) p xs"
    using assms(2) by (auto simp: file_at_def)
  have dl: "sint (data_len h) = int (length xs + 4 * nblk xs)"
    using sized_fields(1) [OF F(3), of h] F(4) by simp
  have n: "- 2147483648 \<le> int n" "int n < 2147483648" using assms(3) F(3) by linarith+
  note hd = get_meta [OF assms(1) F(1,2)]
  show ?thesis
  proof (cases "int off \<ge> sint (data_len h)")
    case True
    then have "n = 0" using assms(3) dl by linarith
    with True show ?thesis by (simp add: hello_read_def hd)
  next
    case False
    moreover have "\<not> int off + int n > sint (data_len h)" using assms(3) dl by linarith
    moreover have "read_loop serve J fuel p buf n off 0 (int off div 1024 + 1) s =
        Inr (poke buf 0 (take n (drop off xs)), s)"
      using assms(3-5) by (intro read_loop_run [OF assms(1) F(1,5,3)]) (simp_all add: zdiv_int)
    moreover have "poke buf 0 (take n (drop off xs)) = take n (drop off xs) @ drop n buf"
      using assms(3) by (simp add: poke_def)
    ultimately show ?thesis
      by (simp add: hello_read_def hd MAX_BUCKET_SIZE_def to_int_id [OF n])
  qed
qed

lemma set_header:
  assumes "inbox s = []" "valid_path p"
  shows "cache_set serve J p (meta_value h @ r) (int (sizeof_header + sizeof_bucket)) s =
           Inr (0, s\<lparr>peer := cput serve (peer s) p (meta_value h)\<rparr>)"
  using set_meta [OF assms] by (simp add: sizeof_header_def sizeof_bucket_def)

lemma write_run:
  assumes "inbox s = []" "file_at (store (peer s)) p h xs" "off \<le> length xs"
    "n \<le> length buf" "off + n < 1073741824"
  defines "ys \<equiv> overwrite xs off (take n buf)"
  shows "\<exists>m. hello_write serve J (Suc fuel) p buf n (int off) s = Inr (int n, s\<lparr>peer := m\<rparr>) \<and>
    file_at (store m) p (sized h ys) ys \<and>
    only_buckets p ((store (peer s))(p \<mapsto> meta_value (sized h ys))) (store m)"
proof -
  have F: "valid_path p" "store (peer s) p = Some (meta_value h)" "length xs < 1073741824"
      "is_dir h = 0" "h = sized h xs" "blocks_at (store (peer s)) p xs"
    using assms(2) by (auto simp: file_at_def)
  have dl: "sint (data_len h) = int (length xs + 4 * nblk xs)"
    using sized_fields(1) [OF F(3), of h] F(5) by simp
  have c: "\<not> int off > sint (data_len h)" using assms(3) dl by linarith
  have n: "- 2147483648 \<le> int n" "int n < 2147483648" using assms(5) by linarith+
  define r where "r J' = drop 24 (uninit J' ''headers'' 1280)" for J'
  have hd: "cache_get serve (at J ''get'') p (uninit J ''headers'' 1280) s =
      Inr (0, meta_value (sized h xs) @ r J, s)"
    using get_meta [OF assms(1) F(1,2)] F(5) by (simp add: r_def)
  obtain m1 where m1: "write_loop serve J p buf n (int off) 0 (1 + int (off div 1024))
        (meta_value (sized h xs) @ r J) s =
      Inr (meta_value (sized h ys) @ r J, s\<lparr>peer := m1\<rparr>)"
      "blocks_at (store m1) p ys"
      "only_buckets p (store (peer s)) (store m1)"
    using write_loop_run [OF F(1) assms(1) F(6) assms(3) F(3) assms(5), where w = 0 and buf = buf
        and idx = "1 + int (off div 1024)" and h = h and r = "r J" and J = J] assms(4)
    by (auto simp: ys_def)
  define m where "m = cput serve m1 p (meta_value (sized h ys))"
  have st: "store m = (store m1)(p \<mapsto> meta_value (sized h ys))"
    using F(1) by (simp add: m_def)
  have "hello_write serve J (Suc fuel) p buf n (int off) s = Inr (int n, s\<lparr>peer := m\<rparr>)"
    using hd c m1(1) set_header [of "s\<lparr>peer := m1\<rparr>" p] assms(1) F(1,5) sdiv_of_nat [of off 1024]
    by (simp add: hello_write.simps(2) MAX_BUCKET_SIZE_def to_int_id [OF n] m_def)
  moreover have "length ys < 1073741824"
    using F(3) assms(3-5) by (simp add: ys_def)
  then have "file_at (store m) p (sized h ys) ys"
    using F(1,4) m1(2) st by (simp add: file_at_def blocks_at_def) (simp add: sized_def)
  moreover have "only_buckets p ((store (peer s))(p \<mapsto> meta_value (sized h ys))) (store m)"
    using m1(3) unfolding only_buckets_def st by auto
  ultimately show ?thesis by blast
qed

end

end
