(* ===== verification/NodeProps.thy ===== *)
theory NodeProps
  imports Namespace
begin

text \<open>
  The properties of the directory operations: what \<open>mkdir\<close>, \<open>create\<close>, \<open>rmdir\<close>, \<open>unlink\<close>,
  \<open>readdir\<close>, \<open>getattr\<close>, \<open>access\<close> and \<open>init\<close> do to the tree of files and directories, on
  every branch, for every memcached server that keeps its contract.
\<close>

text \<open>A socket with nothing unread, to a server that holds a well-formed tree.\<close>

definition fs_ready :: "('m \<Rightarrow> string \<Rightarrow> string option) \<Rightarrow> 'm sock \<Rightarrow> bool" where
  "fs_ready store s \<longleftrightarrow> inbox s = [] \<and> fs_wf (store (peer s))"

text \<open>The directory \<open>d\<close> exists, has room for one more child, and has no child \<open>n\<close>.\<close>

definition can_add :: "(string \<Rightarrow> string option) \<Rightarrow> string \<Rightarrow> string \<Rightarrow> bool" where
  "can_add st d n \<longleftrightarrow> valid_path d \<and> valid_name n \<and> valid_path (join d n) \<and>
     st (join d n) = None \<and>
     (\<exists>h. st d = Some (meta_value h) \<and> is_dir h = 1 \<and> sint (num_buckets h) < 2147483647)"

lemma can_add_addable:
  assumes "fs_wf st" "can_add st d n"
  obtains h where "addable st d n h"
  using assms by (auto simp: can_add_def addable_def)

text \<open>What appending the entry \<open>p\<close> to the children of \<open>d\<close> means for the whole tree.\<close>

definition tree_added ::
    "(string \<Rightarrow> string option) \<Rightarrow> (string \<Rightarrow> string option) \<Rightarrow> string \<Rightarrow> string \<Rightarrow> bool" where
  "tree_added st st' d p \<longleftrightarrow>
     fs_wf st' \<and> nodes st' = insert p (nodes st) \<and>
     children st' d = children st d @ [p] \<and> children st' p = [] \<and>
     (\<forall>x. valid_path x \<and> x \<noteq> d \<and> x \<noteq> p \<longrightarrow> children st' x = children st x)"

lemma tree_added_add_entry:
  assumes "addable st d n h" "parent_index hp = num_buckets h + 1" "num_buckets hp = 0"
  shows "tree_added st (add_entry st d h (join d n) hp) d (join d n)"
  unfolding tree_added_def
  using fs_wf_add [OF assms] nodes_add [OF assms(1)] children_add [OF assms(1)]
    children_add_new [OF assms(1,3)] children_add_other [OF assms(1)] by simp

text \<open>C12. hello\_mkdir of a new name in an existing directory succeeds: the new directory is
  appended to its parent's children, it has no children of its own, no other directory
  changes, and the tree stays well-formed.\<close>

theorem mkdir_correct:
  assumes "memcached serve store" "fs_ready store s" "can_add (store (peer s)) d n"
  shows "\<exists>s'. hello_mkdir serve J (join d n) s = Inr (0, s') \<and> fs_ready store s' \<and>
    tree_added (store (peer s)) (store (peer s')) d (join d n) \<and>
    hello_getattr serve J' (join d n) s' =
      Inr (0, \<lparr>st_mode = S_IFDIR_0755, st_nlink = 2, st_size = 0\<rparr>, s')"
proof -
  obtain h where a: "addable (store (peer s)) d n h"
    using assms(2,3) can_add_addable unfolding fs_ready_def by metis
  note A = addableD [OF a]
  define hp where "hp = dir_header (num_buckets h + 1) (hdr_xattr_num (uninit J ''buf'' 24))"
  define s' where "s' = s\<lparr>peer := add_state serve (peer s) d h (join d n) hp\<rparr>"
  have i: "inbox s = []" using assms(2) by (simp add: fs_ready_def)
  have run: "hello_mkdir serve J (join d n) s = Inr (0, s')"
    unfolding s'_def hp_def by (rule memcached.mkdir_run [OF assms(1) i A(2-5,7)])
  have st: "store (peer s') = add_entry (store (peer s)) d h (join d n) hp"
    unfolding s'_def using memcached.store_add_state [OF assms(1) A(2,4,7)] by simp
  have t: "tree_added (store (peer s)) (store (peer s')) d (join d n)"
    unfolding st by (rule tree_added_add_entry [OF a]) (simp_all add: hp_def dir_header_def)
  have "store (peer s') (join d n) = Some (meta_value hp)"
    unfolding st using add_entry_meta [OF a A(4)] by simp
  then have "hello_getattr serve J' (join d n) s' = Inr (0, stat_of hp, s')"
    using i by (intro memcached.getattr_run [OF assms(1) _ A(4)]) (simp_all add: s'_def)
  then show ?thesis
    using run t i by (intro exI [of _ s']) (simp add: fs_ready_def tree_added_def s'_def
        stat_of_def hp_def dir_header_def)
qed

text \<open>hello\_create behaves the same way for a new file, whose size is 0.\<close>

theorem create_correct:
  assumes "memcached serve store" "fs_ready store s" "can_add (store (peer s)) d n"
  shows "\<exists>s'. hello_create serve J (join d n) s = Inr (0, s') \<and> fs_ready store s' \<and>
    tree_added (store (peer s)) (store (peer s')) d (join d n) \<and>
    hello_getattr serve J' (join d n) s' =
      Inr (0, \<lparr>st_mode = S_IFREG_0444, st_nlink = 1, st_size = 0\<rparr>, s')"
proof -
  obtain h where a: "addable (store (peer s)) d n h"
    using assms(2,3) can_add_addable unfolding fs_ready_def by metis
  note A = addableD [OF a]
  define hp where "hp = file_header (num_buckets h + 1)"
  define s' where "s' = s\<lparr>peer := add_state serve (peer s) d h (join d n) hp\<rparr>"
  have i: "inbox s = []" using assms(2) by (simp add: fs_ready_def)
  have run: "hello_create serve J (join d n) s = Inr (0, s')"
    unfolding s'_def hp_def by (rule memcached.create_run [OF assms(1) i A(2-5,7)])
  have st: "store (peer s') = add_entry (store (peer s)) d h (join d n) hp"
    unfolding s'_def using memcached.store_add_state [OF assms(1) A(2,4,7)] by simp
  have t: "tree_added (store (peer s)) (store (peer s')) d (join d n)"
    unfolding st by (rule tree_added_add_entry [OF a]) (simp_all add: hp_def file_header_def)
  have "store (peer s') (join d n) = Some (meta_value hp)"
    unfolding st using add_entry_meta [OF a A(4)] by simp
  then have "hello_getattr serve J' (join d n) s' = Inr (0, stat_of hp, s')"
    using i by (intro memcached.getattr_run [OF assms(1) _ A(4)]) (simp_all add: s'_def)
  then show ?thesis
    using run t i by (intro exI [of _ s']) (simp add: fs_ready_def tree_added_def s'_def
        stat_of_def hp_def file_header_def)
qed


definition zero_junk :: junk where "zero_junk = (\<lambda>_ _. NUL)"

definition sample_sock :: "(string \<Rightarrow> string option) sock" where
  "sample_sock = \<lparr>peer = root_only 0, inbox = []\<rparr>"

lemma sample_ready: "fs_ready ref_store sample_sock"
  by (simp add: fs_ready_def sample_sock_def ref_store_def fs_wf_root_only)

lemma valid_name_a: "valid_name ''a''" "valid_path ''/a''" "join ''/'' ''a'' = ''/a''"
  by (simp_all add: valid_name_def valid_path_def key_char_def join_def)

lemma sample_can_add: "can_add (ref_store (peer sample_sock)) ''/'' ''a''"
  using valid_name_a by (simp add: can_add_def ref_store_def sample_sock_def root_only_path)
    (simp add: dir_header_def)

theorem mkdir_correct_witness:
  "\<exists>s'. hello_mkdir ref_serve zero_junk ''/a'' sample_sock = Inr (0, s') \<and>
    nodes (ref_store (peer s')) = {''/a'', ''/''} \<and> children (ref_store (peer s')) ''/'' = [''/a'']"
  using mkdir_correct [where store = ref_store and s = sample_sock and J = zero_junk and J' = zero_junk,
      OF ref.memcached_axioms sample_ready sample_can_add]
    root_only_view [of 0] valid_name_a
  by (auto simp: tree_added_def ref_store_def sample_sock_def)

theorem create_correct_witness:
  "\<exists>s'. hello_create ref_serve zero_junk ''/a'' sample_sock = Inr (0, s') \<and>
    nodes (ref_store (peer s')) = {''/a'', ''/''} \<and> children (ref_store (peer s')) ''/'' = [''/a'']"
  using create_correct [where store = ref_store and s = sample_sock and J = zero_junk and J' = zero_junk,
      OF ref.memcached_axioms sample_ready sample_can_add]
    root_only_view [of 0] valid_name_a
  by (auto simp: tree_added_def ref_store_def sample_sock_def)


section \<open>Removal\<close>

text \<open>
  What removing \<open>p\<close> from \<open>d\<close> means: the last child takes the place of \<open>p\<close> in the list of
  children, nothing else changes.
\<close>

definition tree_removed ::
    "(string \<Rightarrow> string option) \<Rightarrow> (string \<Rightarrow> string option) \<Rightarrow> string \<Rightarrow> string \<Rightarrow> bool" where
  "tree_removed st st' d p \<longleftrightarrow>
     fs_wf st' \<and> nodes st' = nodes st - {p} \<and>
     (\<exists>k < length (children st d). children st d ! k = p \<and>
        children st' d = swap_remove k (children st d)) \<and>
     set (children st' d) = set (children st d) - {p} \<and>
     (\<forall>x. valid_path x \<and> x \<noteq> d \<and> x \<noteq> p \<longrightarrow> children st' x = children st x)"

lemma tree_removed_remove_entry:
  assumes r: "removable st d n h hp m hq"
  shows "tree_removed st (remove_entry st d h (join d n) hp (join d m) hq) d (join d n)"
proof -
  note c = children_remove [OF r] and R = removableD [OF r]
  have "distinct (children st d)"
    by (rule children_distinct [OF R(1,2,5) removable_facts(1) [OF r]])
  from set_swap_remove(1) [OF this c(2)] c(1,3) show ?thesis
    unfolding tree_removed_def
    using c fs_wf_remove [OF r] nodes_remove [OF r] children_remove_other [OF r] by auto
qed

definition empty_dir :: "(string \<Rightarrow> string option) \<Rightarrow> string \<Rightarrow> bool" where
  "empty_dir st p \<longleftrightarrow> (\<exists>hp. st p = Some (meta_value hp) \<and> is_dir hp = 1 \<and> num_buckets hp = 0)"

lemma rmdir_tree:
  assumes "memcached serve store" "fs_ready store s"
    and p: "valid_path d" "valid_name n" "valid_path (join d n)"
    and e: "empty_dir (store (peer s)) (join d n)"
  shows "\<exists>s'. hello_rmdir serve J (join d n) s = Inr (0, s') \<and> fs_ready store s' \<and>
    tree_removed (store (peer s)) (store (peer s')) d (join d n)"
proof -
  have w: "fs_wf (store (peer s))" and i: "inbox s = []" using assms(2) by (simp_all add: fs_ready_def)
  obtain hp where hp: "store (peer s) (join d n) = Some (meta_value hp)" "is_dir hp = 1"
      "num_buckets hp = 0"
    using e by (auto simp: empty_dir_def)
  obtain h m hq where r: "removable (store (peer s)) d n h hp m hq"
    by (rule removable_ex [OF w p hp(1)]) (use hp(3) in auto)
  note R = removableD [OF r] and F = removable_facts [OF r]
  define s' where "s' = s\<lparr>peer := remove_state serve (peer s) d h (join d n) hp (join d m) hq\<rparr>"
  have "hello_rmdir serve J (join d n) s = Inr (0, s')"
    unfolding s'_def
    by (rule memcached.rmdir_run [OF assms(1) i p R(6) _ R(5) _ R(9) F(10) R(10,11)])
       (use hp(3) F(3,4) in simp_all)
  moreover have "store (peer s') = remove_entry (store (peer s)) d h (join d n) hp (join d m) hq"
    unfolding s'_def using memcached.store_remove_state [OF assms(1) R(2,4,9)] by simp
  ultimately show ?thesis
    using tree_removed_remove_entry [OF r] i
    by (intro exI [of _ s']) (simp add: fs_ready_def tree_removed_def s'_def)
qed

text \<open>C13. hello\_rmdir of an empty directory succeeds and removes exactly it: the last child
  of the parent moves into its slot, and the tree stays well-formed.\<close>

theorem rmdir_correct:
  assumes "memcached serve store" "fs_ready store s"
    and p: "valid_path d" "valid_name n" "valid_path (join d n)"
    and e: "empty_dir (store (peer s)) (join d n)"
  shows "\<exists>s'. hello_rmdir serve J (join d n) s = Inr (0, s') \<and> fs_ready store s' \<and>
    tree_removed (store (peer s)) (store (peer s')) d (join d n)"
  using assms by (rule rmdir_tree)

definition sample_sub :: "(string \<Rightarrow> string option) sock" where
  "sample_sub = \<lparr>peer = add_entry (root_only 0) ''/'' (dir_header 0 0) ''/a'' (dir_header 1 0), inbox = []\<rparr>"

lemma sample_addable: "addable (root_only 0) ''/'' ''a'' (dir_header 0 0)"
  using valid_name_a
  by (simp add: addable_def fs_wf_root_only root_only_path) (simp add: dir_header_def)

lemma sample_sub_tree:
  "tree_added (root_only 0) (ref_store (peer sample_sub)) ''/'' ''/a''"
  "fs_ready ref_store sample_sub"
  using tree_added_add_entry [OF sample_addable, of "dir_header 1 0"] valid_name_a
  by (simp_all add: sample_sub_def ref_store_def fs_ready_def tree_added_def)
     (simp_all add: dir_header_def)

lemma sample_sub_empty: "empty_dir (ref_store (peer sample_sub)) (join ''/'' ''a'')"
  using add_entry_meta [OF sample_addable, of "''/a''" "dir_header 1 0"] valid_name_a
  by (simp add: empty_dir_def sample_sub_def ref_store_def) (simp add: dir_header_def)

theorem rmdir_correct_witness:
  "\<exists>s'. hello_rmdir ref_serve zero_junk ''/a'' sample_sub = Inr (0, s') \<and>
    nodes (ref_store (peer s')) = {''/''} \<and> children (ref_store (peer s')) ''/'' = []"
  using rmdir_correct [where store = ref_store and s = sample_sub and J = zero_junk,
      OF ref.memcached_axioms sample_sub_tree(2) valid_path_root valid_name_a(1) _ sample_sub_empty] sample_sub_tree(1) valid_name_a(2,3)
    root_only_view [of 0]
  by (auto simp: tree_removed_def tree_added_def)


text \<open>hello\_rmdir changes nothing where it must not succeed: it answers -EPERM for the
  root, -ENOTDIR for a path that does not exist, -ENOTEMPTY for a directory with children.\<close>

theorem rmdir_refuses:
  assumes "memcached serve store" "fs_ready store s"
    and p: "valid_path d" "valid_name n" "valid_path (join d n)"
  shows "hello_rmdir serve J ''/'' s = Inr (- EPERM, s) \<and>
    (store (peer s) (join d n) = None \<longrightarrow>
       hello_rmdir serve J (join d n) s = Inr (- ENOTDIR, s)) \<and>
    (children (store (peer s)) (join d n) \<noteq> [] \<longrightarrow>
       hello_rmdir serve J (join d n) s = Inr (- ENOTEMPTY, s))"
proof -
  have w: "fs_wf (store (peer s))" and i: "inbox s = []" using assms(2) by (simp_all add: fs_ready_def)
  have "hello_rmdir serve J (join d n) s = Inr (- ENOTEMPTY, s)"
    if c: "children (store (peer s)) (join d n) \<noteq> []"
  proof -
    from c obtain v where v: "store (peer s) (join d n) = Some v"
      by (auto simp: children_def split: option.splits)
    obtain hp where hp: "v = meta_value hp" by (rule fs_wf_meta [OF w p(3) v])
    have "0 < sint (num_buckets hp)"
      using c v hp peek_meta_value(4) [of hp "[]"] by (simp add: children_def)
    then show ?thesis using memcached.rmdir_not_empty [OF assms(1) i p] v hp by simp
  qed
  then show ?thesis
    using memcached.rmdir_missing [OF assms(1) i p] by (simp add: hello_rmdir_def)
qed

text \<open>C14. hello\_unlink of a file removes exactly it from the tree, and deletes all its data
  buckets and extended attributes.\<close>

theorem unlink_correct:
  assumes "memcached serve store" "fs_ready store s"
    and p: "valid_path d" "valid_name n" "valid_path (join d n)"
    and e: "store (peer s) (join d n) = Some (meta_value hp)" "is_dir hp = 0"
  shows "\<exists>s'. hello_unlink serve J (join d n) s = Inr (0, s') \<and> fs_ready store s' \<and>
    tree_removed (store (peer s)) (store (peer s')) d (join d n) \<and>
    (\<forall>i \<in> {1..sint (num_buckets hp)}. store (peer s') (data_key i (join d n)) = None) \<and>
    (\<forall>i \<in> {1..sint (xattr_num hp)}. store (peer s') (xattr_key i (join d n)) = None)"
proof -
  have w: "fs_wf (store (peer s))" and i: "inbox s = []" using assms(2) by (simp_all add: fs_ready_def)
  obtain h m hq where r: "removable (store (peer s)) d n h hp m hq"
    by (rule removable_ex [OF w p e(1)]) (use e(2) in auto)
  note R = removableD [OF r] and F = removable_facts [OF r]
  let ?p = "join d n"
  let ?st = "remove_entry (store (peer s)) d h ?p hp (join d m) hq"
  define ks where "ks = map (\<lambda>i. xattr_key i ?p) [1..sint (xattr_num hp)]
      @ map (\<lambda>i. data_key i ?p) [1..sint (num_buckets hp)]"
  define s' where "s' = s\<lparr>peer := foldl (cdel serve)
      (remove_state serve (peer s) d h ?p hp (join d m) hq) ks\<rparr>"
  have run: "hello_unlink serve J ?p s = Inr (0, s')"
    unfolding s'_def ks_def
    by (rule memcached.unlink_run [OF assms(1) i p R(6,5) _ R(9) F(10) R(10,11)])
       (use F(3,4) in simp)
  have "valid_key k" if "k \<in> set ks" for k
    using that p(3) sint32_range [of "xattr_num hp"] sint32_range [of "num_buckets hp"]
    by (auto simp: ks_def)
  then have st: "store (peer s') = (\<lambda>k. if k \<in> set ks then None else ?st k)"
    using memcached.store_foldl_cdel [OF assms(1)] memcached.store_remove_state [OF assms(1) R(2,4,9)]
    by (auto simp: s'_def)
  have t0: "x \<notin> set ks" "child_key i x \<notin> set ks" if "valid_path x" for i x
    using that by (auto simp: ks_def)
  then have t: "same_tree ?st (store (peer s'))" unfolding st by (intro same_tree_delete)
  have ch: "children (store (peer s')) x = children ?st x" if "valid_path x" for x
    using t0 that by (auto simp: children_def st split: option.splits)
  have tr: "tree_removed (store (peer s)) (store (peer s')) d ?p"
    using tree_removed_remove_entry [OF r] fs_wf_same_tree [OF t] nodes_same_tree [OF t] ch R(2)
    by (simp add: tree_removed_def)
  moreover have "inbox s' = []" by (simp add: s'_def i)
  ultimately have "fs_ready store s'" by (simp add: fs_ready_def tree_removed_def)
  moreover have "\<forall>i \<in> {1..sint (num_buckets hp)}. store (peer s') (data_key i ?p) = None"
    "\<forall>i \<in> {1..sint (xattr_num hp)}. store (peer s') (xattr_key i ?p) = None"
    by (simp_all add: st ks_def)
  ultimately show ?thesis using run tr by blast
qed

lemma readdir_names:
  assumes "memcached serve store" "fs_ready store s"
    and d: "valid_path d" "store (peer s) d = Some (meta_value h)" "is_dir h = 1"
  shows "\<exists>names. hello_readdir serve J d s = Inr (0, [''.'', ''..''] @ names, s) \<and>
    map (join d) names = children (store (peer s)) d \<and> list_all valid_name names"
proof -
  have w: "fs_wf (store (peer s))" and i: "inbox s = []" using assms(2) by (simp_all add: fs_ready_def)
  note sl = fs_wf_node(1) [OF w d]
  have "\<exists>n. 1 \<le> i \<and> i \<le> sint (num_buckets h) \<longrightarrow> valid_name n \<and> valid_path (join d n)
      \<and> store (peer s) (child_key i d) = Some (bucket_value (join d n))" for i
    using slots_wfE [OF sl] by metis
  then obtain nm where nm: "1 \<le> i \<Longrightarrow> i \<le> sint (num_buckets h) \<Longrightarrow> valid_name (nm i)
      \<and> valid_path (join d (nm i)) \<and> store (peer s) (child_key i d) = Some (bucket_value (join d (nm i)))"
    for i by metis
  have "children (store (peer s)) d = map (\<lambda>i. join d (nm i)) [1..sint (num_buckets h)]"
    by (rule children_eqI [where h = h]) (use d(2) nm in \<open>simp_all add: add.commute\<close>)
  moreover have "hello_readdir serve J d s =
      Inr (0, [''.'', ''..''] @ map nm [1..sint (num_buckets h)], s)"
    by (rule memcached.readdir_run [OF assms(1) i d(1,2)]) (use nm in blast)
  ultimately show ?thesis
    using nm by (intro exI [of _ "map nm [1..sint (num_buckets h)]"]) (auto simp: list_all_iff)
qed

text \<open>hello\_readdir lists ``.'', ``..'' and the last components of the children, in the
  order of the child slots, and changes nothing.\<close>

theorem readdir_correct:
  assumes "memcached serve store" "fs_ready store s"
    and d: "valid_path d" "store (peer s) d = Some (meta_value h)" "is_dir h = 1"
  shows "\<exists>names. hello_readdir serve J d s = Inr (0, [''.'', ''..''] @ names, s) \<and>
    map (join d) names = children (store (peer s)) d \<and> list_all valid_name names"
  using assms by (rule readdir_names)

lemma swap_remove_snoc:
  assumes "p \<notin> set xs" "k < length (xs @ [p])" "(xs @ [p]) ! k = p"
  shows "swap_remove k (xs @ [p]) = xs"
proof -
  have "\<not> k < length xs" using assms by (auto simp: nth_append)
  then have "k = length xs" using assms(2) by simp
  then show ?thesis by (simp add: swap_remove_def)
qed

lemma fresh_not_child:
  assumes w: "fs_wf st" and d: "valid_path d" "st d = Some (meta_value h)" "is_dir h = 1"
    and "st p = None"
  shows "p \<notin> set (children st d)"
proof
  assume "p \<in> set (children st d)"
  then obtain k where k: "k < length (children st d)" "children st d ! k = p"
    by (auto simp: in_set_conv_nth)
  note sl = fs_wf_node(1) [OF w d]
  have "1 \<le> int k + 1" "int k + 1 \<le> sint (num_buckets h)"
    using k(1) children_simp(1) [OF sl d(2)] by simp_all
  then obtain n hc where "st (child_key (int k + 1) d) = Some (bucket_value (join d n))"
      "st (join d n) = Some (meta_value hc)"
    by (rule slots_wfE [OF sl])
  with children_simp(2) [OF sl d(2) k(1)] k(2) assms(5) show False by simp
qed

text \<open>C26. hello\_mkdir and hello\_rmdir are inverse: removing the directory just made gives back
  the nodes and every list of children.\<close>

theorem mkdir_rmdir_roundtrip:
  assumes "memcached serve store" "fs_ready store s" "can_add (store (peer s)) d n"
  shows "\<exists>s1 s2. hello_mkdir serve J (join d n) s = Inr (0, s1) \<and>
    hello_rmdir serve J' (join d n) s1 = Inr (0, s2) \<and> fs_ready store s2 \<and>
    nodes (store (peer s2)) = nodes (store (peer s)) \<and>
    (\<forall>x. valid_path x \<and> x \<noteq> join d n \<longrightarrow>
       children (store (peer s2)) x = children (store (peer s)) x)"
proof -
  obtain h where a: "addable (store (peer s)) d n h"
    using assms(2,3) can_add_addable unfolding fs_ready_def by metis
  note A = addableD [OF a]
  define hp where "hp = dir_header (num_buckets h + 1) (hdr_xattr_num (uninit J ''buf'' 24))"
  define s1 where "s1 = s\<lparr>peer := add_state serve (peer s) d h (join d n) hp\<rparr>"
  have i: "inbox s = []" using assms(2) by (simp add: fs_ready_def)
  have run: "hello_mkdir serve J (join d n) s = Inr (0, s1)"
    unfolding s1_def hp_def by (rule memcached.mkdir_run [OF assms(1) i A(2-5,7)])
  have st: "store (peer s1) = add_entry (store (peer s)) d h (join d n) hp"
    unfolding s1_def using memcached.store_add_state [OF assms(1) A(2,4,7)] by simp
  have t: "tree_added (store (peer s)) (store (peer s1)) d (join d n)"
    unfolding st by (rule tree_added_add_entry [OF a]) (simp_all add: hp_def dir_header_def)
  have e: "empty_dir (store (peer s1)) (join d n)"
    unfolding st empty_dir_def using add_entry_meta [OF a A(4)] by (simp add: hp_def dir_header_def)
  have "fs_ready store s1" using i t by (simp add: fs_ready_def tree_added_def s1_def)
  then obtain s2 where s2: "hello_rmdir serve J' (join d n) s1 = Inr (0, s2)" "fs_ready store s2"
      "tree_removed (store (peer s1)) (store (peer s2)) d (join d n)"
    using rmdir_tree [OF assms(1) _ A(2-4) e] by blast
  have notin: "join d n \<notin> set (children (store (peer s)) d)"
    by (rule fresh_not_child [OF A(1,2,5,6,8)])
  have "children (store (peer s2)) d = children (store (peer s)) d"
    using t s2(3) swap_remove_snoc [OF notin] by (auto simp: tree_added_def tree_removed_def)
  moreover have "nodes (store (peer s2)) = nodes (store (peer s))"
    using t s2(3) A(8) by (simp add: tree_added_def tree_removed_def nodes_def)
  moreover have "children (store (peer s2)) x = children (store (peer s)) x"
    if "valid_path x" "x \<noteq> d" "x \<noteq> join d n" for x
    using t s2(3) that by (simp add: tree_added_def tree_removed_def)
  ultimately show ?thesis using run s2(1,2) by blast
qed


text \<open>Where the parent directory does not exist, hello\_mkdir answers -EFAULT, having stored
  the child's path under the key ``-1<parent>'', and hello\_create reaches the end of a
  non-void function without a return value.\<close>

theorem missing_parent:
  assumes "memcached serve store" "inbox s = []" "valid_path d" "valid_name n" "valid_path (join d n)"
    "store (peer s) d = None"
  shows "(\<exists>s'. hello_mkdir serve J (join d n) s = Inr (- EFAULT, s') \<and>
      store (peer s') = (store (peer s))(child_key (- 1) d \<mapsto> bucket_value (join d n))) \<and>
    hello_create serve J (join d n) s = Inl NoReturn"
proof -
  have "length (join d n) \<le> 230" using assms(5) by (simp add: valid_path_def)
  then show ?thesis
    using memcached.mkdir_orphan [OF assms] memcached.create_orphan [OF assms]
      memcached.store_cput [OF assms(1)] assms(3)
    by simp
qed

text \<open>hello\_getattr and hello\_access find exactly the nodes of the tree.\<close>

theorem lookup_correct:
  assumes "memcached serve store" "fs_ready store s" "valid_path p"
  shows "(p \<in> nodes (store (peer s)) \<longrightarrow>
      (\<exists>h. store (peer s) p = Some (meta_value h) \<and>
           hello_getattr serve J p s = Inr (0, stat_of h, s)) \<and>
      hello_access serve J p s = Inr (0, s)) \<and>
    (p \<notin> nodes (store (peer s)) \<longrightarrow>
      (\<exists>stbuf. hello_getattr serve J p s = Inr (- ENOENT, stbuf, s)) \<and>
      hello_access serve J p s = Inr (- ENOENT, s))"
proof -
  have w: "fs_wf (store (peer s))" and i: "inbox s = []" using assms(2) by (simp_all add: fs_ready_def)
  show ?thesis
  proof (cases "store (peer s) p")
    case None
    then show ?thesis
      using memcached.getattr_missing [OF assms(1) i assms(3) None]
        memcached.access_run(1) [OF assms(1) i assms(3)]
      by (simp add: nodes_def)
  next
    case (Some v)
    obtain h where h: "store (peer s) p = Some (meta_value h)"
      using fs_wf_meta [OF w assms(3) Some] Some by blast
    then show ?thesis
      using memcached.getattr_run [OF assms(1) i assms(3) h]
        memcached.access_run(2) [OF assms(1) i assms(3) h] assms(3)
      by (auto simp: nodes_def)
  qed
qed

lemma init_run_ok:
  assumes "memcached serve store" "inbox s = []"
  shows "(store (peer s) ''stats'' = None \<longrightarrow>
      (\<exists>s' x. hello_init serve J s = Inr s' \<and> store (peer s') = root_only x \<and>
        fs_ready store s' \<and> nodes (store (peer s')) = {''/''} \<and>
        children (store (peer s')) ''/'' = [])) \<and>
    (store (peer s) ''stats'' = Some stats_value \<longrightarrow> hello_init serve J s = Inr s)"
proof -
  have "store (cput serve (cput serve (cflush serve (peer s)) ''stats'' stats_value)
      ''/'' (meta_value (dir_header 0 x))) = root_only x" for x
    using memcached.store_cput [OF assms(1)] memcached.store_cflush [OF assms(1)]
    by (simp add: root_only_def)
  then show ?thesis
    using memcached.init_fresh_run [OF assms] memcached.init_again_run [OF assms] assms(2)
    by (auto simp: fs_ready_def fs_wf_root_only root_only_view)
qed

text \<open>hello\_init on a server that does not hold a file system clears it and makes the
  root; on one that does, with the same bucket size, it changes nothing.\<close>

theorem init_correct:
  assumes "memcached serve store" "inbox s = []"
  shows "(store (peer s) ''stats'' = None \<longrightarrow>
      (\<exists>s' x. hello_init serve J s = Inr s' \<and> store (peer s') = root_only x \<and>
        fs_ready store s' \<and> nodes (store (peer s')) = {''/''} \<and>
        children (store (peer s')) ''/'' = [])) \<and>
    (store (peer s) ''stats'' = Some stats_value \<longrightarrow> hello_init serve J s = Inr s)"
  using assms by (rule init_run_ok)

text \<open>hello\_mkdir never initialises the attribute count of the new directory: it is
  whatever the fresh memory held.\<close>

theorem mkdir_xattr_num_uninitialised:
  assumes "memcached serve store" "fs_ready store s" "can_add (store (peer s)) d n"
  shows "\<exists>s' hp. hello_mkdir serve J (join d n) s = Inr (0, s') \<and>
    store (peer s') (join d n) = Some (meta_value hp) \<and>
    enc32 (xattr_num hp) = map (J ''buf'') [20, 21, 22, 23]"
proof -
  obtain h where a: "addable (store (peer s)) d n h"
    using assms(2,3) can_add_addable unfolding fs_ready_def by metis
  note A = addableD [OF a]
  define hp where "hp = dir_header (num_buckets h + 1) (hdr_xattr_num (uninit J ''buf'' 24))"
  have i: "inbox s = []" using assms(2) by (simp add: fs_ready_def)
  have "store (add_state serve (peer s) d h (join d n) hp) (join d n) = Some (meta_value hp)"
    using memcached.store_add_state [OF assms(1) A(2,4,7)] add_entry_meta [OF a A(4)] by simp
  moreover have "drop 20 [0..<24] = [20, 21, 22, 23 :: nat]" by code_simp
  then have "drop 20 (uninit J ''buf'' 24) = map (J ''buf'') [20, 21, 22, 23]"
    by (simp add: uninit_def drop_map)
  then have "enc32 (xattr_num hp) = map (J ''buf'') [20, 21, 22, 23]"
    using enc32_dec32 [of "drop 20 (uninit J ''buf'' 24)"]
    by (simp only: hp_def dir_header_def hdr_defs peek32_def length_drop length_uninit
        header_struct.simps) simp
  ultimately show ?thesis
    using memcached.mkdir_run [OF assms(1) i A(2-5,7)] unfolding hp_def by force
qed


section \<open>Instances\<close>

text \<open>A root with one file \<open>/f\<close> of one bucket and one extended attribute.\<close>

definition file_a :: header_struct where
  "file_a = \<lparr>is_dir = 0, data_len = 9, num_buckets = 0, parent_index = 1, xattr_num = 0\<rparr>"

definition sample_file :: "(string \<Rightarrow> string option) sock" where
  "sample_file = \<lparr>peer = (add_entry (root_only 0) ''/'' (dir_header 0 0) ''/a'' file_a)
     (data_key 1 ''/a'' \<mapsto> bucket_value ''hello'', ''/a'' \<mapsto> meta_value (file_a\<lparr>num_buckets := 1\<rparr>)),
     inbox = []\<rparr>"

lemma sample_file_facts:
  "fs_ready ref_store sample_file"
  "ref_store (peer sample_file) ''/a'' = Some (meta_value (file_a\<lparr>num_buckets := 1\<rparr>))"
proof -
  let ?st = "add_entry (root_only 0) ''/'' (dir_header 0 0) ''/a'' file_a"
  have w: "fs_wf ?st"
    using fs_wf_add [OF sample_addable, of file_a] valid_name_a(3)
    by (simp add: file_a_def dir_header_def)
  have f: "?st ''/a'' = Some (meta_value file_a)"
    using add_entry_meta [OF sample_addable, of "''/a''" file_a] valid_name_a by simp
  have 1: "same_tree ?st (?st(data_key 1 ''/a'' \<mapsto> bucket_value ''hello''))"
    by (rule same_tree_other_key) (auto dest: sym)
  have 2: "same_tree (?st(data_key 1 ''/a'' \<mapsto> bucket_value ''hello''))
      ((?st(data_key 1 ''/a'' \<mapsto> bucket_value ''hello''))(''/a'' \<mapsto> meta_value (file_a\<lparr>num_buckets := 1\<rparr>)))"
    using f valid_name_a by (intro same_tree_header) (auto simp: file_a_def)
  show "fs_ready ref_store sample_file"
    using fs_wf_same_tree [OF same_tree_trans [OF 1 2] w]
    by (simp add: fs_ready_def sample_file_def ref_store_def)
  show "ref_store (peer sample_file) ''/a'' = Some (meta_value (file_a\<lparr>num_buckets := 1\<rparr>))"
    by (simp add: sample_file_def ref_store_def)
qed

theorem rmdir_refuses_witness:
  "hello_rmdir ref_serve zero_junk ''/'' sample_sock = Inr (- EPERM, sample_sock) \<and>
   hello_rmdir ref_serve zero_junk ''/a'' sample_sock = Inr (- ENOTDIR, sample_sock)"
  using rmdir_refuses [where store = ref_store and s = sample_sock and J = zero_junk,
      OF ref.memcached_axioms sample_ready valid_path_root valid_name_a(1)] valid_name_a
  by (simp add: ref_store_def sample_sock_def root_only_path)

theorem unlink_correct_witness:
  "\<exists>s'. hello_unlink ref_serve zero_junk ''/a'' sample_file = Inr (0, s') \<and>
     ref_store (peer s') (data_key 1 ''/a'') = None \<and> fs_ready ref_store s'"
  using unlink_correct [where store = ref_store and s = sample_file and J = zero_junk
      and hp = "file_a\<lparr>num_buckets := 1\<rparr>",
      OF ref.memcached_axioms sample_file_facts(1) valid_path_root valid_name_a(1)]
    valid_name_a sample_file_facts(2)
  by (auto simp: file_a_def)

theorem readdir_correct_witness:
  "hello_readdir ref_serve zero_junk ''/'' sample_sub = Inr (0, [''.'', ''..'', ''a''], sample_sub)"
proof -
  have c: "children (ref_store (peer sample_sub)) ''/'' = [''/a'']"
    using sample_sub_tree(1) root_only_view [of 0] by (simp add: tree_added_def)
  have h: "ref_store (peer sample_sub) ''/'' =
      Some (meta_value ((dir_header 0 0)\<lparr>num_buckets := 1\<rparr>))"
    using add_entry_meta [OF sample_addable valid_path_root, of "dir_header 1 0"] valid_name_a(3)
    by (simp add: sample_sub_def ref_store_def) (simp add: dir_header_def)
  have j: "n = ''a''" if "join ''/'' n = ''/a''" for n using that by (simp add: join_def)
  show ?thesis
    using readdir_correct [where store = ref_store and s = sample_sub and J = zero_junk,
        OF ref.memcached_axioms sample_sub_tree(2) valid_path_root h] c j
    by (auto simp: dir_header_def)
qed

theorem mkdir_rmdir_roundtrip_witness:
  "\<exists>s1 s2. hello_mkdir ref_serve zero_junk ''/a'' sample_sock = Inr (0, s1) \<and>
    hello_rmdir ref_serve zero_junk ''/a'' s1 = Inr (0, s2) \<and>
    nodes (ref_store (peer s2)) = {''/''}"
  using mkdir_rmdir_roundtrip [where store = ref_store and s = sample_sock and J = zero_junk
      and J' = zero_junk, OF ref.memcached_axioms sample_ready sample_can_add]
    root_only_view [of 0] valid_name_a
  by (auto simp: ref_store_def sample_sock_def)

theorem missing_parent_witness:
  "hello_create ref_serve zero_junk ''/a'' \<lparr>peer = Map.empty, inbox = []\<rparr> = Inl NoReturn"
  using missing_parent [where store = ref_store and s = "\<lparr>peer = Map.empty, inbox = []\<rparr>"
      and J = zero_junk, OF ref.memcached_axioms _ valid_path_root valid_name_a(1)] valid_name_a
  by (simp add: ref_store_def)

theorem lookup_correct_witness:
  "hello_access ref_serve zero_junk ''/'' sample_sock = Inr (0, sample_sock) \<and>
   hello_access ref_serve zero_junk ''/a'' sample_sock = Inr (- ENOENT, sample_sock)"
  using lookup_correct [where store = ref_store and s = sample_sock and J = zero_junk,
      OF ref.memcached_axioms sample_ready valid_path_root]
    lookup_correct [where store = ref_store and s = sample_sock and J = zero_junk,
      OF ref.memcached_axioms sample_ready valid_name_a(2)] root_only_view [of 0]
  by (simp add: ref_store_def sample_sock_def)

theorem init_correct_witness:
  "\<exists>s' x. hello_init ref_serve zero_junk \<lparr>peer = Map.empty, inbox = []\<rparr> = Inr s' \<and>
     ref_store (peer s') = root_only x"
  using init_correct [where store = ref_store and s = "\<lparr>peer = Map.empty, inbox = []\<rparr>"
      and J = zero_junk, OF ref.memcached_axioms]
  by (auto simp: ref_store_def)

theorem mkdir_xattr_num_uninitialised_witness:
  "\<exists>s' hp. hello_mkdir ref_serve (\<lambda>_ _. CHR ''A'') ''/a'' sample_sock = Inr (0, s') \<and>
    ref_store (peer s') ''/a'' = Some (meta_value hp) \<and> enc32 (xattr_num hp) = ''AAAA''"
  using mkdir_xattr_num_uninitialised [where store = ref_store and s = sample_sock
      and J = "\<lambda>_ _. CHR ''A''", OF ref.memcached_axioms sample_ready sample_can_add]
    valid_name_a
  by auto

end
