(* ===== verification/FileProps.thy ===== *)
theory FileProps
  imports FileRuns NodeProps
begin

text \<open>
  The properties of \<open>hello_read\<close> and \<open>hello_write\<close>: what they do to the contents of a file,
  what they leave alone, and where the code's size bookkeeping goes wrong.
\<close>

lemma same_tree_file:
  assumes "valid_path p" "st p = Some (meta_value h)" "st' p = Some (meta_value h')"
    "is_dir h = 0" "is_dir h' = 0" "parent_index h' = parent_index h"
    "\<forall>k. k \<noteq> p \<longrightarrow> (\<forall>i. k \<noteq> data_key i p) \<longrightarrow> st' k = st k"
  shows "same_tree st st'"
  unfolding same_tree_def
proof (intro conjI allI impI)
  fix i x assume "valid_path x"
  show "st' (child_key i x) = st (child_key i x)" using assms(1,7) by simp
next
  fix x assume "valid_path x" "st x = None"
  then show "st' x = None" using assms(2,7) by (cases "x = p") auto
next
  fix x g assume x: "valid_path x" "st x = Some (meta_value g)"
  show "\<exists>h'. st' x = Some (meta_value h') \<and> is_dir h' = is_dir g \<and> parent_index h' = parent_index g \<and>
      (is_dir g = 1 \<longrightarrow> num_buckets h' = num_buckets g)"
  proof (cases "x = p")
    case True
    then show ?thesis using x(2) assms(2-6) by auto
  next
    case False
    then have "st' x = st x" using x(1) assms(7) keys_not_path(4) by blast
    then show ?thesis using x(2) by auto
  qed
qed

lemma file_at_other:
  assumes "valid_path p" "q \<noteq> p" "\<forall>k. k \<noteq> p \<longrightarrow> (\<forall>i. k \<noteq> data_key i p) \<longrightarrow> st' k = st k"
    "file_at st q h xs"
  shows "file_at st' q h xs"
proof -
  have q: "valid_path q" using assms(4) by (simp add: file_at_def)
  have "st' q = st q" using assms(2,3) keys_not_path(4) [OF q] by blast
  moreover have "st' (data_key i q) = st (data_key i q)" for i
    using assms(1-3) q by simp
  ultimately show ?thesis using assms(4) by (simp add: file_at_def blocks_at_def)
qed

text \<open>C6. Reading any range inside the contents of a file gives exactly those bytes: the count
  asked for is returned, the buffer beyond it and the server are untouched.\<close>

theorem read_correct:
  assumes "memcached serve store" "inbox s = []" "file_at (store (peer s)) p h xs"
    "off + n \<le> length xs" "n \<le> length buf" "n \<le> fuel"
  shows "hello_read serve J fuel p buf n (int off) s =
    Inr (int n, take n (drop off xs) @ drop n buf, s)"
  by (rule memcached.read_run [OF assms])

text \<open>C5. Writing at any position up to the end of a file overwrites and extends its contents
  accordingly; every other file keeps its contents and the tree is the same.\<close>

theorem write_correct:
  assumes "memcached serve store" "fs_ready store s" "file_at (store (peer s)) p h xs"
    "off \<le> length xs" "n \<le> length buf" "off + n < 1073741824"
  shows "\<exists>s' h'. hello_write serve J (Suc fuel) p buf n (int off) s = Inr (int n, s') \<and>
    fs_ready store s' \<and> file_at (store (peer s')) p h' (overwrite xs off (take n buf)) \<and>
    nodes (store (peer s')) = nodes (store (peer s)) \<and>
    (\<forall>q g zs. q \<noteq> p \<and> file_at (store (peer s)) q g zs \<longrightarrow> file_at (store (peer s')) q g zs)"
proof -
  have i: "inbox s = []" and w: "fs_wf (store (peer s))" using assms(2) by (simp_all add: fs_ready_def)
  let ?ys = "overwrite xs off (take n buf)"
  obtain m where m: "hello_write serve J (Suc fuel) p buf n (int off) s = Inr (int n, s\<lparr>peer := m\<rparr>)"
      "file_at (store m) p (sized h ?ys) ?ys"
      "\<forall>k. k \<noteq> p \<longrightarrow> (\<forall>i. k \<noteq> data_key i p) \<longrightarrow> store m k = store (peer s) k"
    using memcached.write_run [OF assms(1) i assms(3-6)] only_buckets_frame by blast
  have p: "valid_path p" using m(2) by (simp add: file_at_def)
  have t: "same_tree (store (peer s)) (store m)"
    using m(2,3) assms(3)
    by (intro same_tree_file [OF p, where h = h and h' = "sized h ?ys"]) (auto simp: file_at_def)
  show ?thesis
    using m file_at_other [OF p _ m(3)] fs_wf_same_tree [OF t w] nodes_same_tree [OF t w] i
    by (intro exI [of _ "s\<lparr>peer := m\<rparr>"] exI [of _ "sized h ?ys"]) (auto simp: fs_ready_def)
qed

text \<open>A sequence of writes, each at a position of its own, and the contents it leaves.\<close>

primrec run_writes ::
    "'m server \<Rightarrow> junk \<Rightarrow> string \<Rightarrow> (nat \<times> string) list \<Rightarrow> 'm sock \<Rightarrow> 'm sock result" where
  "run_writes serve J p [] s = Inr s"
| "run_writes serve J p (w # ws) s =
     andthen (hello_write serve J 1 p (snd w) (length (snd w)) (int (fst w)) s) (\<lambda>(_, s). run_writes serve J p ws s)"

primrec contents_after :: "string \<Rightarrow> (nat \<times> string) list \<Rightarrow> string" where
  "contents_after xs [] = xs"
| "contents_after xs (w # ws) = contents_after (overwrite xs (fst w) (snd w)) ws"

text \<open>Each write starts inside of the contents at its time or at their end.\<close>

primrec writes_inside :: "string \<Rightarrow> (nat \<times> string) list \<Rightarrow> bool" where
  "writes_inside xs [] \<longleftrightarrow> True"
| "writes_inside xs (w # ws) \<longleftrightarrow>
     fst w \<le> length xs \<and> fst w + length (snd w) < 1073741824 \<and> writes_inside (overwrite xs (fst w) (snd w)) ws"

lemma run_writes_ok:
  assumes mc: "memcached serve store"
  shows "inbox s = [] \<Longrightarrow> file_at (store (peer s)) p h xs \<Longrightarrow> writes_inside xs ws \<Longrightarrow>
    \<exists>s' h'. run_writes serve J p ws s = Inr s' \<and> inbox s' = [] \<and> file_at (store (peer s')) p h' (contents_after xs ws)"
proof (induction ws arbitrary: s h xs)
  case Nil
  then show ?case by auto
next
  case (Cons w ws)
  obtain off bs where w: "w = (off, bs)" by (cases w) auto
  let ?ys = "overwrite xs off bs"
  have ok: "off \<le> length xs" "off + length bs < 1073741824" "writes_inside ?ys ws"
    using Cons.prems(3) by (simp_all add: w)
  obtain m where m: "hello_write serve J 1 p bs (length bs) (int off) s = Inr (int (length bs), s\<lparr>peer := m\<rparr>)"
      "file_at (store m) p (sized h ?ys) ?ys"
    using memcached.write_run [OF mc Cons.prems(1,2) ok(1) order_refl ok(2), of J 0] by auto
  then show ?case using Cons.IH [of "s\<lparr>peer := m\<rparr>" "sized h ?ys" ?ys] Cons.prems(1) ok(3) by (simp add: w)
qed

text \<open>C25. After any sequence of writes, each of which starts inside of the contents it finds or at
  their end, a read of any range inside of the file gives back exactly what overwriting the old
  contents in that order leaves there.\<close>

theorem write_read_roundtrip:
  assumes "memcached serve store" "inbox s = []" "file_at (store (peer s)) p h xs" "writes_inside xs ws"
    "o' + n \<le> length (contents_after xs ws)" "n \<le> length buf" "n \<le> fuel"
  shows "\<exists>s'. run_writes serve J p ws s = Inr s' \<and>
    hello_read serve J' fuel p buf n (int o') s' =
      Inr (int n, take n (drop o' (contents_after xs ws)) @ drop n buf, s')"
proof -
  obtain s' h' where s': "run_writes serve J p ws s = Inr s'" "inbox s' = []"
    "file_at (store (peer s')) p h' (contents_after xs ws)"
    using run_writes_ok [OF assms(1-4), of J] by blast
  then show ?thesis
    using memcached.read_run [OF assms(1) s'(2,3) assms(5,6,7), of J'] by (intro exI [of _ s']) simp
qed

text \<open>The size hello\_getattr reports for a file is four bytes per bucket larger than its
  contents, because hello\_write adds sizeof(struct bucket\_struct) to data\_len for each one.\<close>

theorem size_over_reported:
  assumes "memcached serve store" "inbox s = []" "file_at (store (peer s)) p h xs"
  shows "hello_getattr serve J p s = Inr (0, \<lparr>st_mode = S_IFREG_0444, st_nlink = 1,
    st_size = int (length xs) + 4 * int ((length xs + 1023) div 1024)\<rparr>, s)"
proof -
  have F: "valid_path p" "store (peer s) p = Some (meta_value h)" "length xs < 1073741824"
      "is_dir h = 0" "h = sized h xs"
    using assms(3) by (auto simp: file_at_def)
  show ?thesis
    using memcached.getattr_run [OF assms(1,2) F(1,2)] sized_fields(1) [OF F(3), of h] F(4,5)
    by (simp add: stat_of_def nblk_def)
qed

text \<open>Of a file that fits one bucket more is wanted than it holds: the loop goes on to a bucket that does
  not exist.\<close>

lemma read_loop_runs_over:
  assumes "memcached serve store" "inbox s = []" "file_at (store (peer s)) p h xs"
    "0 < length xs" "length xs \<le> 1024" "length xs < N" "N \<le> length buf" "2 \<le> fuel"
    "store (peer s) (data_key 2 p) = None"
    "bucket_len (uninit (at J ''2'') ''data'' 1224) < 0"
  shows "read_loop serve J fuel p buf N 0 0 1 s = Inl Overrun"
proof -
  have F: "valid_path p" "blocks_at (store (peer s)) p xs"
    using assms(3) by (auto simp: file_at_def)
  have nb: "nblk xs = 1"
    using assms(4,5) unfolding nblk_def by (cases xs) (auto intro!: div_nat_eqI)
  have b: "blk 0 xs = xs" using assms(5) by (simp add: blk_def)
  have st: "store (peer s) (data_key 1 p) = Some (bucket_value xs)"
    using F(2) nb b by (auto simp: blocks_at_def dest: spec [of _ 0])
  have k: "valid_key (data_key 1 p)" "valid_key (data_key 2 p)"
    "length (data_key 1 p) < 250" "length (data_key 2 p) < 250"
    using F(1) by (simp_all add: length_keys)
  have d2: "dec_int 2 = ''2''" by code_simp
  obtain f where f: "fuel = Suc (Suc f)" using assms(8) by (cases fuel; cases "fuel - 1") auto
  define x where "x J' = drop (4 + length xs) (uninit J' ''data'' 1224)" for J'
  have g1: "cache_get serve J' (data_key 1 p) (uninit J' ''data'' 1224) s =
      Inr (0, bucket_value xs @ x J', s)" for J'
    using memcached.get_bucket [OF assms(1,2) k(1) st] assms(5) by (simp add: x_def)
  have g2: "cache_get serve J' (data_key 2 p) buf' s = Inr (- 1, buf', s)" for J' buf'
    by (rule memcached.cache_get_miss [OF assms(1,2) k(2) assms(9)])
  define b where "b J' = poke buf 0 (take (length xs) (drop 4 (bucket_value xs @ x J')))" for J'
  have cp: "memcpy buf 0 (bucket_value xs @ x J') 4 (int (length xs)) = Inr (b J')" for J'
    using memcpy_ok [of 0 "length xs" buf 4 "bucket_value xs @ x J'"] assms(6,7) by (simp add: b_def)
  have m1: "min (int (min N 1024)) (int (length xs)) = int (length xs)" using assms(5,6) by simp
  have "\<exists>b. read_loop serve J (Suc (Suc f)) p buf N 0 0 1 s =
      read_loop serve J (Suc f) p b (N - length xs) (length xs) (length xs) 2 s"
    using assms(5,6)
    by (subst read_loop.simps(2))
       (simp add: k g1 cp m1 Let_def SPACE_FOR_STRUCTS_def MAX_BUCKET_SIZE_def sizeof_bucket_def
          del: of_nat_min; blast)
  moreover have "read_loop serve J (Suc f) p b n' o' w 2 s = Inl Overrun" if "0 < n'" for b n' o' w
    using that assms(10)
    by (subst read_loop.simps(2))
       (simp add: k g2 d2 Let_def SPACE_FOR_STRUCTS_def MAX_BUCKET_SIZE_def sizeof_bucket_def
          memcpy_def)
  ultimately show ?thesis using assms(6) f by auto
qed

text \<open>C30. Reading a file of one bucket beyond its contents, as a reader does that trusts the reported
  size, looks into a bucket that was never stored: what happens is up to uninitialised memory,
  and where that memory claims a size below four the copy has a negative length.\<close>

theorem read_past_contents:
  assumes "memcached serve store" "inbox s = []" "file_at (store (peer s)) p h xs"
    "0 < length xs" "length xs \<le> 1024" "length xs < n" "n \<le> length buf" "2 \<le> fuel"
    "store (peer s) (data_key 2 p) = None"
    "bucket_len (uninit (at J ''2'') ''data'' 1224) < 0"
  shows "hello_read serve J fuel p buf n 0 s = Inl Overrun"
proof -
  have F: "valid_path p" "store (peer s) p = Some (meta_value h)" "length xs < 1073741824" "h = sized h xs"
    using assms(3) by (auto simp: file_at_def)
  have "nblk xs = 1"
    using assms(4,5) unfolding nblk_def by (cases xs) (auto intro!: div_nat_eqI)
  then have dl: "sint (data_len h) = int (length xs) + 4"
    using sized_fields(1) [OF F(3), of h] F(4) by simp
  define N where "N = min n (length xs + 4)"
  have "read_loop serve J fuel p buf N 0 0 1 s = Inl Overrun"
    by (rule read_loop_runs_over [OF assms(1-5) _ _ assms(8-10)]) (use assms(6,7) in \<open>simp_all add: N_def\<close>)
  moreover have "int (length xs) + 4 < int n \<Longrightarrow> nat (int (length xs) + 4) = N"
    "\<not> int (length xs) + 4 < int n \<Longrightarrow> n = N"
    by (auto simp: N_def nat_add_distrib)
  ultimately show ?thesis
    by (auto simp: hello_read_def memcached.get_meta [OF assms(1,2) F(1,2)] dl Let_def MAX_BUCKET_SIZE_def)
qed

text \<open>With a header that says there is no bucket, the loop starts bucket 1 anew.\<close>

lemma write_loop_stale_header:
  assumes "memcached serve store" "inbox s = []" "valid_path p" "num_buckets h = 0"
    "off < 1024" "0 < n" "n \<le> 1024" "n \<le> length buf"
  shows "write_loop serve J p buf n (int off) 0 1 (meta_value (h\<lparr>data_len := of_nat off\<rparr>) @ r) s =
    Inr (meta_value (h\<lparr>num_buckets := 1, data_len := of_nat (off + n + 4)\<rparr>) @ r,
         s\<lparr>peer := cput serve (peer s) (data_key 1 p) (bucket_value (take n buf))\<rparr>)"
proof -
  have k: "valid_key (data_key 1 p)" "length (data_key 1 p) < 250" using assms(3) by (simp_all add: length_keys)
  define bs where "bs = take n buf"
  have bs: "length bs = n" using assms(8) by (simp add: bs_def)
  have cp: "memcpy (set_cur_size (of_nat (4 + n)) (uninit J' ''data'' 1224)) 4 buf 0 (int n) =
      Inr (bucket_value bs @ drop (4 + n) (uninit J' ''data'' 1224))" for J'
    using memcpy_ok [of 4 n _ 0 buf] new_bucket [of bs J' "''data''"] bs assms(7,8)
    by (simp add: bs_def)
  have set1: "cache_set serve J' (data_key 1 p) (bucket_value bs @ x) (int n + 4) s =
      Inr (0, s\<lparr>peer := cput serve (peer s) (data_key 1 p) (bucket_value bs)\<rparr>)" for J' x
    using memcached.set_bucket [OF assms(1) _ k(1), of s bs J' x] bs assms(2,7)
    by (simp add: add.commute)
  show ?thesis
    using assms(4,6,7) k(2) cp set1
    by (subst write_loop.simps)
       (simp add: SPACE_FOR_STRUCTS_def MAX_BUCKET_SIZE_def sizeof_bucket_def Let_def bs_def
          write_loop.simps [where sz = 0])
qed

text \<open>A write behind the end of an empty file loses the gap: the zeros go to bucket 1 and to a
  stored header, but the outer call goes on with its stale header, sees no bucket, and puts
  the data at position 0 of bucket 1, over the zeros.\<close>

theorem write_gap_lost:
  assumes "memcached serve store" "inbox s = []" "file_at (store (peer s)) p h []"
    "0 < off" "off < 1024" "0 < n" "n \<le> 1024" "n \<le> length buf"
  shows "\<exists>s'. hello_write serve J 2 p buf n (int off) s = Inr (int n, s') \<and>
    blocks_at (store (peer s')) p (take n buf) \<and>
    store (peer s') p = Some (meta_value (h\<lparr>num_buckets := 1, data_len := of_nat (off + n + 4)\<rparr>))"
proof -
  have F: "valid_path p" "store (peer s) p = Some (meta_value h)" "h = sized h []"
    using assms(3) by (auto simp: file_at_def)
  have h: "num_buckets h = 0" "data_len h = 0"
    using arg_cong [OF F(3), of num_buckets] arg_cong [OF F(3), of data_len]
    by (simp_all add: sized_def nblk_def)
  define z where "z = replicate off NUL"
  have z: "off \<le> length z" by (simp add: z_def)
  obtain m1 where m1: "hello_write serve (at J ''zeros'') 1 p z off 0 s = Inr (int off, s\<lparr>peer := m1\<rparr>)"
    using memcached.write_run [OF assms(1-3) _ z, where off = 0 and J = "at J ''zeros''" and fuel = 0]
      assms(5) by auto
  have k: "valid_key (data_key 1 p)" using F(1) by simp
  define bs where "bs = take n buf"
  have bs: "length bs = n" using assms(8) by (simp add: bs_def)
  define m2 where "m2 = cput serve m1 (data_key 1 p) (bucket_value bs)"
  define h' where "h' = h\<lparr>num_buckets := 1, data_len := of_nat (off + n + 4)\<rparr>"
  define m3 where "m3 = cput serve m2 p (meta_value h')"
  have loop: "write_loop serve J p buf n (int off) 0 1
      (meta_value (h\<lparr>data_len := of_nat off\<rparr>) @ r) (s\<lparr>peer := m1\<rparr>) =
      Inr (meta_value h' @ r, s\<lparr>peer := m2\<rparr>)" for r
    using write_loop_stale_header [OF assms(1) _ F(1) h(1) assms(5-8), of "s\<lparr>peer := m1\<rparr>" J r] assms(2)
    by (simp add: h'_def m2_def bs_def)
  have n: "- 2147483648 \<le> int n" "int n < 2147483648" using assms(7) by linarith+
  have "hello_write serve J 2 p buf n (int off) s = Inr (int n, s\<lparr>peer := m3\<rparr>)"
    using m1 loop assms(4) h memcached.get_meta [OF assms(1,2) F(1,2)]
      memcached.set_header [OF assms(1) _ F(1), of "s\<lparr>peer := m2\<rparr>"] assms(2,5)
      sdiv_of_nat [of off 1024]
    by (simp add: numeral_2_eq_2 hello_write.simps(2) [of _ _ "Suc 0"] z_def MAX_BUCKET_SIZE_def
        to_int_id [OF n] m3_def)
  moreover have "store m3 = (store m1)(data_key 1 p \<mapsto> bucket_value bs, p \<mapsto> meta_value h')"
    using memcached.store_cput [OF assms(1)] F(1) k(1) bs assms(7) by (simp add: m3_def m2_def)
  moreover have "nblk bs = 1" "blk 0 bs = bs"
    using bs assms(6,7) by (auto simp: nblk_def blk_def intro!: div_nat_eqI)
  ultimately show ?thesis
    using F(1) by (intro exI [of _ "s\<lparr>peer := m3\<rparr>"]) (auto simp: blocks_at_def bs_def h'_def)
qed


section \<open>Instances\<close>

lemma sample_file_at: "file_at (ref_store (peer sample_file)) ''/a'' (file_a\<lparr>num_buckets := 1\<rparr>) ''hello''"
proof -
  have "nblk ''hello'' = 1" "blk 0 ''hello'' = ''hello''" by (simp_all add: nblk_def blk_def)
  then show ?thesis
    using sample_file_facts(2) valid_name_a(2)
    by (simp add: file_at_def blocks_at_def sized_def)
       (simp add: file_a_def sample_file_def ref_store_def)
qed

definition empty_file :: "(string \<Rightarrow> string option) sock" where
  "empty_file = \<lparr>peer = [''/a'' \<mapsto> meta_value (file_header 1)], inbox = []\<rparr>"

lemma empty_file_at: "file_at (ref_store (peer empty_file)) ''/a'' (file_header 1) []"
  using valid_name_a(2)
  by (simp add: file_at_def blocks_at_def sized_def nblk_def empty_file_def ref_store_def)
     (simp add: file_header_def)

theorem read_correct_witness:
  "hello_read ref_serve zero_junk 3 ''/a'' ''xxxx'' 3 1 sample_file = Inr (3, ''ellx'', sample_file)"
  using read_correct [where store = ref_store and s = sample_file and J = zero_junk and n = 3
      and off = 1 and buf = "''xxxx''" and fuel = 3, OF ref.memcached_axioms _ sample_file_at]
  by (simp add: sample_file_def)

theorem write_correct_witness:
  "\<exists>s' h'. hello_write ref_serve zero_junk 1 ''/a'' ''y!'' 2 4 sample_file = Inr (2, s') \<and>
    file_at (ref_store (peer s')) ''/a'' h' ''helly!''"
  using write_correct [where store = ref_store and s = sample_file and J = zero_junk and n = 2
      and off = 4 and buf = "''y!''" and fuel = 0,
      OF ref.memcached_axioms sample_file_facts(1) sample_file_at]
  by (auto simp: overwrite_def)

text \<open>Two writes, the second over the end of the first.\<close>

theorem write_read_roundtrip_witness:
  "\<exists>s'. run_writes ref_serve zero_junk ''/a'' [(4, ''y!''), (5, ''?ab'')] sample_file = Inr s' \<and>
    hello_read ref_serve zero_junk 4 ''/a'' ''....'' 4 3 s' = Inr (4, ''ly?a'', s')"
  using write_read_roundtrip [where store = ref_store and s = sample_file and J = zero_junk and n = 4
      and ws = "[(4, ''y!''), (5, ''?ab'')]"
      and J' = zero_junk and o' = 3 and buf = "''....''" and fuel = 4,
      OF ref.memcached_axioms _ sample_file_at]
  by (simp add: sample_file_def overwrite_def)

theorem size_over_reported_witness:
  "hello_getattr ref_serve zero_junk ''/a'' sample_file =
    Inr (0, \<lparr>st_mode = S_IFREG_0444, st_nlink = 1, st_size = 9\<rparr>, sample_file)"
  using size_over_reported [where store = ref_store and s = sample_file and J = zero_junk,
      OF ref.memcached_axioms _ sample_file_at]
  by (simp add: sample_file_def)

theorem read_past_contents_witness:
  "hello_read ref_serve zero_junk 9 ''/a'' (replicate 9 CHR ''x'') 9 0 sample_file = Inl Overrun"
proof -
  have "ref_store (peer sample_file) (data_key 2 ''/a'') = None"
    using valid_name_a(2)
    by (simp add: sample_file_def ref_store_def add_entry_def root_only_def)
  moreover have "bucket_len (uninit (at zero_junk ''2'') ''data'' 1224) < 0"
  proof -
    have "uninit (at zero_junk ''2'') ''data'' 1224 = NUL # NUL # NUL # NUL # replicate 1220 NUL"
      by (simp add: uninit_def at_def zero_junk_def map_replicate_const flip: replicate_Suc)
    then show ?thesis by (simp add: bucket_len_def cur_size_def peek32_def sizeof_bucket_def)
  qed
  ultimately show ?thesis
    using read_past_contents [where store = ref_store and s = sample_file and J = zero_junk and n = 9
        and buf = "replicate 9 CHR ''x''" and fuel = 9, OF ref.memcached_axioms _ sample_file_at]
    by (simp add: sample_file_def)
qed

theorem write_gap_lost_witness:
  "\<exists>s'. hello_write ref_serve zero_junk 2 ''/a'' ''data'' 4 10 empty_file = Inr (4, s') \<and>
    blocks_at (ref_store (peer s')) ''/a'' ''data''"
  using write_gap_lost [where store = ref_store and s = empty_file and J = zero_junk and n = 4
      and off = 10 and buf = "''data''", OF ref.memcached_axioms _ empty_file_at]
  by (auto simp: empty_file_def)

end
