(* ===== verification/XattrProps.thy ===== *)
theory XattrProps
  imports XattrRuns FileProps
begin

text \<open>
  The properties of extended attributes: the four operations against a list of
  name-value pairs per node.
\<close>

section \<open>The store after a change\<close>

lemma attrs_at_other:
  assumes "attrs_at st q g bs" "\<And>i. st' (xattr_key i q) = st (xattr_key i q)" "st' q = st q"
  shows "attrs_at st' q g bs"
  using assms by (simp add: attrs_at_def)

lemma attrs_at_append:
  assumes "attrs_at st p h as" "length as < 2147483646" "attr_ok (n, v)"
    "parent_index g = xattr_num h + 1"
    "st' = st(p \<mapsto> meta_value (h\<lparr>xattr_num := xattr_num h + 1\<rparr>),
              xattr_key (int (length as) + 1) p \<mapsto> attr_value g n v)"
  shows "attrs_at st' p (h\<lparr>xattr_num := xattr_num h + 1\<rparr>) (as @ [(n, v)])"
proof -
  note A = attrs_atD [OF assms(1)]
  have "st' (xattr_key (int i + 1) p) =
      (if i = length as then Some (attr_value g n v) else st (xattr_key (int i + 1) p))" for i
    using A(1) by (simp add: assms(5))
  moreover have "st' p = Some (meta_value (h\<lparr>xattr_num := xattr_num h + 1\<rparr>))"
    using A(1) by (simp add: assms(5))
  ultimately show ?thesis
    using assms(1-4) A(1,4) by (auto simp: attrs_at_def nth_append less_Suc_eq add.commute)
qed

lemma attrs_at_remove:
  assumes "attrs_at st p h as" "k < length as" "parent_index g = of_nat (k + 1)"
    "st' = st(p \<mapsto> meta_value (h\<lparr>xattr_num := xattr_num h - 1\<rparr>),
              xattr_key (int k + 1) p \<mapsto> attr_value g (fst (last as)) (snd (last as)),
              xattr_key (int (length as)) p := None)"
  shows "attrs_at st' p (h\<lparr>xattr_num := xattr_num h - 1\<rparr>) (swap_remove k as)"
proof -
  note A = attrs_atD [OF assms(1)]
  have ne: "as \<noteq> []" using assms(2) by auto
  have len: "length (swap_remove k as) = length as - 1" by (simp add: swap_remove_def)
  have "of_nat (length as) - 1 = (of_nat (length as - 1) :: int32)"
    using assms(2) by (simp add: of_nat_diff)
  moreover have "attr_ok (swap_remove k as ! i) \<and>
      (\<exists>g. st' (xattr_key (int i + 1) p) =
             Some (attr_value g (fst (swap_remove k as ! i)) (snd (swap_remove k as ! i))) \<and>
           parent_index g = of_nat (i + 1))" if i: "i < length as - 1" for i
  proof -
    have e: "swap_remove k as ! i = (if i = k then last as else as ! i)"
      using i assms(2) by (simp add: swap_remove_def nth_butlast nth_list_update)
    have s: "st' (xattr_key (int i + 1) p) =
        (if i = k then Some (attr_value g (fst (last as)) (snd (last as)))
         else st (xattr_key (int i + 1) p))"
      using i A(1) by (auto simp: assms(4))
    have "attr_ok (last as)"
      using attrs_at_nth [OF assms(1), of "length as - 1"] ne by (auto simp: last_conv_nth)
    moreover have il: "i < length as" using i by simp
    moreover obtain g1 where "attr_ok (as ! i)" "parent_index g1 = of_nat (i + 1)"
      "st (xattr_key (int i + 1) p) = Some (attr_value g1 (fst (as ! i)) (snd (as ! i)))"
      by (rule attrs_at_nth [OF assms(1) il])
    ultimately show ?thesis
      using assms(3) unfolding e s by (intro conjI exI [of _ "if i = k then g else g1"]) simp_all
  qed
  moreover have "st' p = Some (meta_value (h\<lparr>xattr_num := xattr_num h - 1\<rparr>))"
    using A(1) by (simp add: assms(4))
  moreover have "length as - 1 < 2147483647" using A(3) by linarith
  ultimately show ?thesis
    unfolding attrs_at_def len using A(1,4) by simp
qed

lemma same_tree_xattr:
  assumes "valid_path p" "st p = Some (meta_value h)"
    "st1 = st(p \<mapsto> meta_value (h\<lparr>xattr_num := w\<rparr>))"
    "\<forall>k. (\<forall>i. k \<noteq> xattr_key i p) \<longrightarrow> st' k = st1 k"
  shows "same_tree st st'"
proof -
  have "same_tree st st1" unfolding assms(3) using assms(1,2)
    by (intro same_tree_header [where h = h]) simp_all
  moreover have "same_tree st1 st'"
  proof -
    have "st' x = st1 x" if "valid_path x" for x using that assms(4) keys_not_path(6) by blast
    moreover have "st' (child_key i x) = st1 (child_key i x)" for i x
      using assms(4) keys_disjoint(3) by blast
    ultimately show ?thesis by (auto simp: same_tree_def)
  qed
  ultimately show ?thesis by (rule same_tree_trans)
qed

lemma attrs_at_elsewhere:
  assumes "valid_path p" "q \<noteq> p" "attrs_at st q g bs"
    "\<forall>k. k \<noteq> p \<longrightarrow> (\<forall>i. k \<noteq> xattr_key i p) \<longrightarrow> st' k = st k"
  shows "attrs_at st' q g bs"
proof (rule attrs_at_other [OF assms(3)])
  note q = attrs_atD(1) [OF assms(3)]
  show "st' (xattr_key i q) = st (xattr_key i q)" for i using assms(1,2,4) q by simp
  show "st' q = st q" using assms(2,4) keys_not_path(6) [OF q] by blast
qed

text \<open>All that changes besides the header is attributes of the node.\<close>

definition only_attrs :: "string \<Rightarrow> (string \<Rightarrow> string option) \<Rightarrow> (string \<Rightarrow> string option) \<Rightarrow> bool" where
  "only_attrs p st st' \<longleftrightarrow>
     (\<forall>k. st' k = st k \<or> (\<exists>i. 0 < i \<and> k = xattr_key i p \<and>
        (st' k = None \<or> (\<exists>g n v. attr_ok (n, v) \<and> st' k = Some (attr_value g n v)))))"

lemma only_attrs_frame:
  "only_attrs p (st(p \<mapsto> w)) st' \<Longrightarrow> \<forall>k. k \<noteq> p \<longrightarrow> (\<forall>i. k \<noteq> xattr_key i p) \<longrightarrow> st' k = st k"
  unfolding only_attrs_def by (metis fun_upd_apply)

lemma only_attrs_set:
  "0 < i \<Longrightarrow> attr_ok (n, v) \<Longrightarrow> only_attrs p st (st(xattr_key i p \<mapsto> attr_value g n v))"
  by (auto simp: only_attrs_def)

lemma only_attrs_delete: "0 < i \<Longrightarrow> only_attrs p st st' \<Longrightarrow> only_attrs p st (st'(xattr_key i p := None))"
  by (auto simp: only_attrs_def)

text \<open>What both changing operations leave alone.\<close>

definition attrs_framed ::
    "('m \<Rightarrow> string \<Rightarrow> string option) \<Rightarrow> 'm sock \<Rightarrow> 'm sock \<Rightarrow> string \<Rightarrow> bool" where
  "attrs_framed store s s' p \<longleftrightarrow>
     fs_ready store s' \<and> nodes (store (peer s')) = nodes (store (peer s)) \<and>
     (\<forall>q g bs. q \<noteq> p \<and> attrs_at (store (peer s)) q g bs \<longrightarrow> attrs_at (store (peer s')) q g bs) \<and>
     (\<exists>h w. store (peer s) p = Some (meta_value h) \<and>
        store (peer s') p = Some (meta_value (h\<lparr>xattr_num := w\<rparr>)) \<and>
        only_attrs p ((store (peer s))(p \<mapsto> meta_value (h\<lparr>xattr_num := w\<rparr>))) (store (peer s')))"

lemma attrs_framedI:
  assumes "fs_ready store s" "valid_path p" "store (peer s) p = Some (meta_value h)"
    "store m p = Some (meta_value (h\<lparr>xattr_num := w\<rparr>))"
    "only_attrs p ((store (peer s))(p \<mapsto> meta_value (h\<lparr>xattr_num := w\<rparr>))) (store m)"
  shows "attrs_framed store s (s\<lparr>peer := m\<rparr>) p"
proof -
  note fr = only_attrs_frame [OF assms(5)]
  have w: "fs_wf (store (peer s))" using assms(1) by (simp add: fs_ready_def)
  have "same_tree (store (peer s)) (store m)"
    using assms(4) fr assms(2,3)
    by (intro same_tree_xattr [where p = p and h = h and w = w]) auto
  then show ?thesis
    using fs_wf_same_tree [OF _ w] nodes_same_tree [OF _ w] assms attrs_at_elsewhere [OF assms(2) _ _ fr]
    by (auto simp: attrs_framed_def fs_ready_def)
qed


section \<open>Properties\<close>

lemma setxattr_run_ok:
  assumes "memcached serve store" "fs_ready store s" "attrs_at (store (peer s)) p h as"
    "length as < 2147483646" "attr_ok (nm, take sz val)" "sz \<le> length val"
  shows "\<exists>s' h'. hello_setxattr serve J p nm val sz s = Inr (0, s') \<and>
    attrs_at (store (peer s')) p h' (as @ [(nm, take sz val)]) \<and> attrs_framed store s s' p"
proof -
  note A = attrs_atD [OF assms(3)]
  have i: "inbox s = []" using assms(2) by (simp add: fs_ready_def)
  have c: "small_count (xattr_num h)" using A(5) assms(4) by simp
  let ?h = "h\<lparr>xattr_num := xattr_num h + 1\<rparr>"
  obtain g where g: "parent_index g = xattr_num h + 1" "hello_setxattr serve J p nm val sz s =
    Inr (0, s\<lparr>peer := cput serve (cput serve (peer s) p (meta_value ?h))
      (xattr_key (sint (xattr_num h) + 1) p) (attr_value g nm (take sz val))\<rparr>)"
    using memcached.setxattr_run [OF assms(1) i A(1,2) c assms(5,6)] by blast
  define m where "m = cput serve (cput serve (peer s) p (meta_value ?h))
      (xattr_key (sint (xattr_num h) + 1) p) (attr_value g nm (take sz val))"
  have r: "- 2147483648 \<le> int (length as) + 1" "int (length as) + 1 < 2147483648"
    using assms(4) by linarith+
  have st: "store m = (store (peer s))(p \<mapsto> meta_value ?h,
      xattr_key (int (length as) + 1) p \<mapsto> attr_value g nm (take sz val))"
    using memcached.store_cput [OF assms(1)] A(1,5) valid_keys(3) [OF A(1) r] assms(5)
    by (simp add: m_def attr_ok_def)
  have "attrs_framed store s (s\<lparr>peer := m\<rparr>) p"
    using A(1) by (intro attrs_framedI [OF assms(2) A(1,2), where w = "xattr_num h + 1"])
      (simp add: st, unfold st, rule only_attrs_set [OF _ assms(5)], simp)
  moreover note attrs_at_append [OF assms(3-5) g(1) st]
  ultimately show ?thesis using g(2) by (intro exI [of _ "s\<lparr>peer := m\<rparr>"]) (auto simp: m_def)
qed

text \<open>C27. hello\_setxattr appends the pair to the node's attributes and leaves the tree, and the
  attributes of every other node, as they are.\<close>

theorem setxattr_correct:
  assumes "memcached serve store" "fs_ready store s" "attrs_at (store (peer s)) p h as"
    "length as < 2147483646" "attr_ok (nm, take sz val)" "sz \<le> length val"
  shows "\<exists>s' h'. hello_setxattr serve J p nm val sz s = Inr (0, s') \<and>
    attrs_at (store (peer s')) p h' (as @ [(nm, take sz val)]) \<and> attrs_framed store s s' p"
  using assms by (rule setxattr_run_ok)

lemma getxattr_run_ok:
  assumes "memcached serve store" "inbox s = []" "attrs_at (store (peer s)) p h as" "sz \<le> length val"
  shows "hello_getxattr serve J p nm val sz s =
      (case map_of as nm of
         None \<Rightarrow> Inr (- 1, val, s)
       | Some v \<Rightarrow> Inr (int (length v), take sz v @ drop (min sz (length v)) val, s))"
  using memcached.get_node [OF assms(1-3)] attrs_atD(5) [OF assms(3)]
    memcached.getxattr_loop_run [OF assms(1-3), of 0 sz val J nm] assms(4)
  by (simp add: hello_getxattr_def Let_def)

text \<open>hello\_getxattr returns the first value stored under the name, as many bytes of it as the
  caller asks for, and its full length; -1 when the name is not there.\<close>

theorem getxattr_correct:
  assumes "memcached serve store" "inbox s = []" "attrs_at (store (peer s)) p h as" "sz \<le> length val"
  shows "hello_getxattr serve J p nm val sz s =
      (case map_of as nm of
         None \<Rightarrow> Inr (- 1, val, s)
       | Some v \<Rightarrow> Inr (int (length v), take sz v @ drop (min sz (length v)) val, s))"
  using assms by (rule getxattr_run_ok)

text \<open>Setting an attribute never replaces it: hello\_getxattr gives the new value for a name
  that was not there, and still the old value for one that was.\<close>

theorem setxattr_getxattr:
  assumes "memcached serve store" "inbox s = []" "attrs_at (store (peer s)) p h as"
    "length as < 2147483646" "attr_ok (nm, v)" "length v \<le> length buf"
  shows "\<exists>s'. hello_setxattr serve J p nm v (length v) s = Inr (0, s') \<and>
    hello_getxattr serve J' p nm buf (length buf) s' =
      (let w = (case map_of as nm of None \<Rightarrow> v | Some old \<Rightarrow> old) in
       Inr (int (length w), take (length buf) w @ drop (length w) buf, s'))"
proof -
  note A = attrs_atD [OF assms(3)]
  have c: "small_count (xattr_num h)" using A(5) assms(4) by simp
  let ?h = "h\<lparr>xattr_num := xattr_num h + 1\<rparr>"
  have ok: "attr_ok (nm, take (length v) v)" using assms(5) by simp
  obtain g where g: "parent_index g = xattr_num h + 1" "hello_setxattr serve J p nm v (length v) s =
    Inr (0, s\<lparr>peer := cput serve (cput serve (peer s) p (meta_value ?h))
      (xattr_key (sint (xattr_num h) + 1) p) (attr_value g nm v)\<rparr>)"
    using memcached.setxattr_run [OF assms(1,2) A(1,2) c ok] by auto
  define s' where "s' = s\<lparr>peer := cput serve (cput serve (peer s) p (meta_value ?h))
      (xattr_key (sint (xattr_num h) + 1) p) (attr_value g nm v)\<rparr>"
  have r: "- 2147483648 \<le> int (length as) + 1" "int (length as) + 1 < 2147483648"
    using assms(4) by linarith+
  have st: "store (peer s') = (store (peer s))(p \<mapsto> meta_value ?h,
      xattr_key (int (length as) + 1) p \<mapsto> attr_value g nm v)"
    using memcached.store_cput [OF assms(1)] A(1,5) valid_keys(3) [OF A(1) r] assms(5)
    by (simp add: s'_def attr_ok_def)
  have i: "inbox s' = []" using assms(2) by (simp add: s'_def)
  have "take n w @ drop (min n (length w)) b = take n w @ drop (length w) b" if "n = length b"
    for n and w b :: string using that by (simp add: min_def)
  then show ?thesis
    using memcached.get_node [OF assms(1) i attrs_at_append [OF assms(3-5) g(1) st]]
      memcached.getxattr_loop_run [OF assms(1) i attrs_at_append [OF assms(3-5) g(1) st],
        of 0 "length buf" buf J' nm]
      attrs_atD(5) [OF attrs_at_append [OF assms(3-5) g(1) st]] g(2)
    by (intro exI [of _ s'])
       (simp add: hello_getxattr_def Let_def s'_def [symmetric] map_add_def split: option.splits)
qed

lemma listxattr_run_ok:
  assumes "memcached serve store" "inbox s = []" "attrs_at (store (peer s)) p h as" "sz \<le> length lst"
  shows "hello_listxattr serve J p lst 0 s = Inr (int (length as), lst, s) \<and>
    (0 < sz \<and> length (names_from 0 as) \<le> sz \<longrightarrow>
      hello_listxattr serve J p lst sz s =
        Inr (int (length (names_from 0 as)), names_from 0 as @ drop (length (names_from 0 as)) lst, s)) \<and>
    (0 < sz \<and> sz < length (names_from 0 as) \<longrightarrow>
      (\<exists>out. hello_listxattr serve J p lst sz s = Inr (int (length as), out, s)))"
  using memcached.get_node [OF assms(1-3)] attrs_atD(5) [OF assms(3)] assms(4)
    memcached.listxattr_loop_run [OF assms(1-3), of 0 0 sz lst]
    memcached.listxattr_loop_short [OF assms(1-3), of 0 sz 0 lst]
  by (simp add: hello_listxattr_def Let_def poke_def)

text \<open>hello\_listxattr with room for all names writes them one after the other, each with its
  NUL, and returns their total length; with size 0, or too little room, it returns the number
  of attributes.\<close>

theorem listxattr_correct:
  assumes "memcached serve store" "inbox s = []" "attrs_at (store (peer s)) p h as" "sz \<le> length lst"
  shows "hello_listxattr serve J p lst 0 s = Inr (int (length as), lst, s) \<and>
    (0 < sz \<and> length (names_from 0 as) \<le> sz \<longrightarrow>
      hello_listxattr serve J p lst sz s =
        Inr (int (length (names_from 0 as)), names_from 0 as @ drop (length (names_from 0 as)) lst, s)) \<and>
    (0 < sz \<and> sz < length (names_from 0 as) \<longrightarrow>
      (\<exists>out. hello_listxattr serve J p lst sz s = Inr (int (length as), out, s)))"
  using assms by (rule listxattr_run_ok)

lemma removexattr_run_ok:
  assumes "memcached serve store" "fs_ready store s" "attrs_at (store (peer s)) p h as"
  shows "(nm \<notin> fst ` set as \<longrightarrow> hello_removexattr serve J p nm s = Inr (- 1, s)) \<and>
    (nm \<in> fst ` set as \<longrightarrow>
      (\<exists>s' h'. hello_removexattr serve J p nm s = Inr (0, s') \<and>
        attrs_at (store (peer s')) p h'
          (swap_remove (length (takeWhile (\<lambda>a. fst a \<noteq> nm) as)) as) \<and>
        attrs_framed store s s' p))"
proof (intro conjI impI)
  note A = attrs_atD [OF assms(3)]
  have i: "inbox s = []" using assms(2) by (simp add: fs_ready_def)
  {
    assume "nm \<notin> fst ` set as"
    then show "hello_removexattr serve J p nm s = Inr (- 1, s)"
      using memcached.get_node [OF assms(1) i assms(3)] A(5)
        memcached.removexattr_loop_miss [OF assms(1) i assms(3), of nm 0]
      by (simp add: hello_removexattr_def Let_def)
  next
    assume nm: "nm \<in> fst ` set as"
    let ?P = "\<lambda>a. fst a \<noteq> nm"
    define k where "k = length (takeWhile ?P as)"
    have "takeWhile ?P as \<noteq> as" using nm unfolding takeWhile_eq_all_conv by auto
    then have k: "k < length as"
      using takeWhile_eq_take [of ?P as] unfolding k_def by (metis not_less take_all)
    then have "fst (as ! k) = nm" using nth_length_takeWhile [of ?P as] by (simp add: k_def)
    moreover have "fst (as ! j) \<noteq> nm" if "j < k" for j
      using that nth_mem [of j "takeWhile ?P as"] set_takeWhileD [of _ ?P as] takeWhile_nth [of j ?P as]
      by (auto simp: k_def)
    ultimately obtain g m where m: "hello_removexattr serve J p nm s = Inr (0, s\<lparr>peer := m\<rparr>)"
      "parent_index g = of_nat (k + 1)"
      "store m = (store (peer s))(p \<mapsto> meta_value (h\<lparr>xattr_num := xattr_num h - 1\<rparr>),
        xattr_key (int k + 1) p \<mapsto> attr_value g (fst (last as)) (snd (last as)),
        xattr_key (int (length as)) p := None)"
      using memcached.removexattr_run [OF assms(1) i assms(3) k] by metis
    have "as \<noteq> []" using k by auto
    then have "attr_ok (last as)"
      using attrs_at_nth [OF assms(3), of "length as - 1"] last_conv_nth [of as] by fastforce
    then have "attrs_framed store s (s\<lparr>peer := m\<rparr>) p"
      using A(1) k by (intro attrs_framedI [OF assms(2) A(1,2), where w = "xattr_num h - 1"])
        (simp add: m(3), unfold m(3), intro only_attrs_delete only_attrs_set, auto)
    then show "\<exists>s' h'. hello_removexattr serve J p nm s = Inr (0, s') \<and>
        attrs_at (store (peer s')) p h'
          (swap_remove (length (takeWhile (\<lambda>a. fst a \<noteq> nm) as)) as) \<and>
        attrs_framed store s s' p"
      using m(1) attrs_at_remove [OF assms(3) k m(2,3)] unfolding k_def
      by (intro exI [of _ "s\<lparr>peer := m\<rparr>"]) auto
  }
qed

text \<open>C28. hello\_removexattr of a name that is not there returns -1 and changes nothing; otherwise
  the first attribute of that name goes and the last one takes its slot.\<close>

theorem removexattr_correct:
  assumes "memcached serve store" "fs_ready store s" "attrs_at (store (peer s)) p h as"
  shows "(nm \<notin> fst ` set as \<longrightarrow> hello_removexattr serve J p nm s = Inr (- 1, s)) \<and>
    (nm \<in> fst ` set as \<longrightarrow>
      (\<exists>s' h'. hello_removexattr serve J p nm s = Inr (0, s') \<and>
        attrs_at (store (peer s')) p h'
          (swap_remove (length (takeWhile (\<lambda>a. fst a \<noteq> nm) as)) as) \<and>
        attrs_framed store s s' p))"
  using assms by (rule removexattr_run_ok)


section \<open>Instances\<close>

abbreviation header_a :: header_struct where "header_a \<equiv> file_a\<lparr>num_buckets := 1\<rparr>"

lemma sample_attrs_none: "attrs_at (ref_store (peer sample_file)) ''/a'' header_a []"
  using sample_file_facts(2) valid_name_a(2) by (simp add: attrs_at_def) (simp add: file_a_def)

text \<open>The sample file with one attribute, \<open>k\<close>, of value \<open>old\<close>.\<close>

definition sample_attr :: "(string \<Rightarrow> string option) sock" where
  "sample_attr = sample_file\<lparr>peer := (peer sample_file)
     (''/a'' \<mapsto> meta_value (header_a\<lparr>xattr_num := xattr_num header_a + 1\<rparr>),
      xattr_key 1 ''/a'' \<mapsto> attr_value (dir_header 1 0) ''k'' ''old'')\<rparr>"

lemma sample_attrs_one:
  "attrs_at (ref_store (peer sample_attr)) ''/a'' (header_a\<lparr>xattr_num := xattr_num header_a + 1\<rparr>)
     [(''k'', ''old'')]"
  "fs_ready ref_store sample_attr"
proof -
  have g: "parent_index (dir_header 1 0) = xattr_num header_a + 1"
    by (simp add: dir_header_def file_a_def)
  show "attrs_at (ref_store (peer sample_attr)) ''/a'' (header_a\<lparr>xattr_num := xattr_num header_a + 1\<rparr>)
     [(''k'', ''old'')]"
    using attrs_at_append [OF sample_attrs_none _ _ g, of "''k''" "''old''"]
    by (simp add: sample_attr_def ref_store_def attr_ok_def)
  have "attrs_framed ref_store sample_file (sample_file\<lparr>peer := peer sample_attr\<rparr>) ''/a''"
    using sample_file_facts valid_name_a(2)
    by (intro attrs_framedI [where store = ref_store and h = header_a and w = "xattr_num header_a + 1"])
       (auto simp: sample_attr_def ref_store_def only_attrs_set attr_ok_def)
  then show "fs_ready ref_store sample_attr"
    by (simp add: attrs_framed_def sample_attr_def)
qed

lemma sample_attr_inbox [simp]: "inbox sample_attr = []" "inbox sample_file = []"
  by (simp_all add: sample_attr_def sample_file_def)

theorem setxattr_correct_witness:
  "\<exists>s' h'. hello_setxattr ref_serve zero_junk ''/a'' ''k'' ''val'' 3 sample_file = Inr (0, s') \<and>
    attrs_at (ref_store (peer s')) ''/a'' h' [(''k'', ''val'')]"
  using setxattr_correct [where store = ref_store and s = sample_file and J = zero_junk and nm = "''k''"
      and val = "''val''" and sz = 3, OF ref.memcached_axioms sample_file_facts(1) sample_attrs_none]
  by (auto simp: attr_ok_def)

theorem getxattr_correct_witness:
  "hello_getxattr ref_serve zero_junk ''/a'' ''k'' ''....'' 2 sample_attr = Inr (3, ''ol..'', sample_attr) \<and>
   hello_getxattr ref_serve zero_junk ''/a'' ''j'' ''....'' 2 sample_attr = Inr (- 1, ''....'', sample_attr)"
  using getxattr_correct [where store = ref_store and s = sample_attr and J = zero_junk and nm = "''k''"
      and val = "''....''" and sz = 2, OF ref.memcached_axioms _ sample_attrs_one(1)]
    getxattr_correct [where store = ref_store and s = sample_attr and J = zero_junk and nm = "''j''"
      and val = "''....''" and sz = 2, OF ref.memcached_axioms _ sample_attrs_one(1)]
  by simp

theorem setxattr_getxattr_witness:
  "\<exists>s'. hello_setxattr ref_serve zero_junk ''/a'' ''k'' ''new'' (length ''new'') sample_attr = Inr (0, s') \<and>
    hello_getxattr ref_serve zero_junk ''/a'' ''k'' ''....'' (length ''....'') s' = Inr (3, ''old.'', s')"
  using setxattr_getxattr [where store = ref_store and s = sample_attr and J = zero_junk and nm = "''k''"
      and v = "''new''" and buf = "''....''" and J' = zero_junk,
      OF ref.memcached_axioms _ sample_attrs_one(1)]
  by (auto simp: attr_ok_def)

theorem listxattr_correct_witness:
  "hello_listxattr ref_serve zero_junk ''/a'' ''....'' 4 sample_attr = Inr (2, ''k'' @ [NUL] @ ''..'', sample_attr) \<and>
   hello_listxattr ref_serve zero_junk ''/a'' ''....'' 0 sample_attr = Inr (1, ''....'', sample_attr)"
  using listxattr_correct [where store = ref_store and s = sample_attr and J = zero_junk
      and lst = "''....''" and sz = 4, OF ref.memcached_axioms _ sample_attrs_one(1)]
  by simp

theorem removexattr_correct_witness:
  "hello_removexattr ref_serve zero_junk ''/a'' ''j'' sample_attr = Inr (- 1, sample_attr) \<and>
   (\<exists>s' h'. hello_removexattr ref_serve zero_junk ''/a'' ''k'' sample_attr = Inr (0, s') \<and>
     attrs_at (ref_store (peer s')) ''/a'' h' [])"
  using removexattr_correct [where store = ref_store and s = sample_attr and J = zero_junk
      and nm = "''j''", OF ref.memcached_axioms sample_attrs_one(2,1)]
    removexattr_correct [where store = ref_store and s = sample_attr and J = zero_junk
      and nm = "''k''", OF ref.memcached_axioms sample_attrs_one(2,1)]
  by (auto simp: swap_remove_def)

end
