(* ===== verification/StoreTypes.thy ===== *)
theory StoreTypes
  imports XattrProps
begin

text \<open>
  The types of stored values: which layout stands under which kind of key, and that adding,
  removing, writing and setting attributes keep a store well-typed.
\<close>

section \<open>Typing\<close>

inductive stored :: "string \<Rightarrow> string \<Rightarrow> bool" where
  stats: "stored ''stats'' stats_value"
| node: "valid_path p \<Longrightarrow> is_dir h = 0 \<or> is_dir h = 1 \<Longrightarrow> stored p (meta_value h)"
| child: "valid_path d \<Longrightarrow> 0 < i \<Longrightarrow> valid_path c \<Longrightarrow> stored (child_key i d) (bucket_value c)"
| data: "valid_path p \<Longrightarrow> 0 < i \<Longrightarrow> length b \<le> 1024 \<Longrightarrow> stored (data_key i p) (bucket_value b)"
| attr: "valid_path p \<Longrightarrow> 0 < i \<Longrightarrow> attr_ok (n, v) \<Longrightarrow> stored (xattr_key i p) (attr_value g n v)"

inductive_cases stored_pathE: "stored p (meta_value h)"

definition well_typed :: "(string \<Rightarrow> string option) \<Rightarrow> bool" where
  "well_typed st \<longleftrightarrow> (\<forall>k w. st k = Some w \<longrightarrow> stored k w)"

text \<open>The smallest array the code reads a value of each kind into.\<close>

definition reader_room :: "string \<Rightarrow> nat" where
  "reader_room k =
     (if k = ''stats'' then 128
      else if hd k = CHR ''/'' then 1024
      else if hd k = CHR ''&'' then SPACE_FOR_STRUCTS + MAX_BUCKET_SIZE
      else if hd k = CHR ''$'' then 66000
      else 1280)"

lemma stored_kind: "stored p (meta_value h) \<Longrightarrow> valid_path p \<Longrightarrow> is_dir h = 0 \<or> is_dir h = 1"
  by (erule stored_pathE) (auto simp: valid_path_def)

lemma stored_fits: "stored k w \<Longrightarrow> framed w \<and> length w \<le> reader_room k"
proof (induction rule: stored.induct)
  case (node p h)
  then show ?case by (cases p) (auto simp: reader_room_def valid_path_def)
next
  case (child d i c)
  then show ?case using key_heads [of i d] by (simp add: reader_room_def valid_path_def)
next
  case (data p i b)
  then show ?case using key_heads [of i p] by (simp add: reader_room_def SPACE_FOR_STRUCTS_def MAX_BUCKET_SIZE_def)
next
  case (attr p i n v g)
  then show ?case using key_heads [of i p] framed_attr_value [OF attr(3), of g]
    by (simp add: reader_room_def attr_ok_def)
qed (simp add: reader_room_def)


section \<open>Stores that stay well-typed\<close>

lemma well_typed_upd [simp]: "well_typed st \<Longrightarrow> stored k w \<Longrightarrow> well_typed (st(k \<mapsto> w))"
  by (simp add: well_typed_def)

lemma well_typed_del [simp]: "well_typed st \<Longrightarrow> well_typed (st(k := None))"
  by (simp add: well_typed_def)

lemma well_typed_restrict: "well_typed st \<Longrightarrow> well_typed (\<lambda>k. if k \<in> K then None else st k)"
  by (simp add: well_typed_def)

lemma well_typed_node:
  "well_typed st \<Longrightarrow> valid_path p \<Longrightarrow> st p = Some (meta_value h) \<Longrightarrow> is_dir h = 0 \<or> is_dir h = 1"
  unfolding well_typed_def using stored_kind by blast

lemma well_typed_root_only: "well_typed (root_only x)"
  unfolding root_only_def
  by (intro well_typed_upd stored.stats stored.node) (simp_all add: well_typed_def dir_header_def)

lemma well_typed_add_entry:
  assumes "addable st d n h" "well_typed st" "is_dir hp = 0 \<or> is_dir hp = 1"
  shows "well_typed (add_entry st d h (join d n) hp)"
  unfolding add_entry_def using assms(2,3) addableD [OF assms(1)]
  by (intro well_typed_upd stored.node stored.child) auto

lemma well_typed_remove_entry:
  assumes "removable st d n h hp m hq" "well_typed st"
  shows "well_typed (remove_entry st d h (join d n) hp (join d m) hq)"
proof -
  note R = removableD [OF assms(1)] and F = removable_facts [OF assms(1)]
  have "is_dir hq = 0 \<or> is_dir hq = 1" by (rule well_typed_node [OF assms(2) R(9,11)])
  then show ?thesis
    unfolding remove_entry_def using assms(2) R F
    by (intro well_typed_upd well_typed_del stored.node stored.child) auto
qed

lemma well_typed_buckets:
  assumes "only_buckets p st st'" "well_typed st" "valid_path p"
  shows "well_typed st'"
  using assms unfolding well_typed_def only_buckets_def by (metis option.inject stored.data)

lemma well_typed_attrs:
  assumes "only_attrs p st st'" "well_typed st" "valid_path p"
  shows "well_typed st'"
  using assms unfolding well_typed_def only_attrs_def by (metis option.inject option.distinct(1) stored.attr)

end
