(* ===== verification/FsSpec.thy ===== *)
theory FsSpec
  imports StoreTypes
begin

text \<open>
  The file system as a whole: the requests the kernel makes through the operation table
  \<open>hello_oper\<close>, an abstract file system of directories with their entries, files with their
  contents and nodes with their attributes, and the relation between the two.
\<close>

section \<open>Requests\<close>

text \<open>
  A path of an entry is given as its directory and its name: the kernel has looked up the
  directory before it asks for the entry.  The buffers of \<open>read\<close>, \<open>getxattr\<close> and \<open>listxattr\<close>
  are arguments, as they hold something before the call.
\<close>

datatype request =
    Getattr string
  | Readdir string
  | Read string string nat nat
  | Mkdir string string
  | Write string string nat nat
  | Rmdir string string
  | Opendir string
  | Unlink string string
  | Create string string
  | Open string
  | Release string
  | Access string
  | Setxattr string string string nat
  | Getxattr string string string nat
  | Listxattr string string nat
  | Removexattr string string

text \<open>What a request hands out besides its result.\<close>

datatype out = Nothing | Stat stat | Names "string list" | Buf string

definition plain :: "(int \<times> 'm sock) result \<Rightarrow> (int \<times> out \<times> 'm sock) result" where
  "plain r = andthen r (\<lambda>(c, s). Inr (c, Nothing, s))"

definition hello_oper ::
    "'m server \<Rightarrow> junk \<Rightarrow> nat \<Rightarrow> request \<Rightarrow> 'm sock \<Rightarrow> (int \<times> out \<times> 'm sock) result" where
  "hello_oper serve J fuel req s =
     (case req of
        Getattr p \<Rightarrow> andthen (hello_getattr serve J p s) (\<lambda>(c, st, s). Inr (c, Stat st, s))
      | Readdir p \<Rightarrow> andthen (hello_readdir serve J p s) (\<lambda>(c, ns, s). Inr (c, Names ns, s))
      | Read p buf n off \<Rightarrow>
          andthen (hello_read serve J fuel p buf n (int off) s) (\<lambda>(c, b, s). Inr (c, Buf b, s))
      | Mkdir d n \<Rightarrow> plain (hello_mkdir serve J (join d n) s)
      | Write p buf n off \<Rightarrow> plain (hello_write serve J fuel p buf n (int off) s)
      | Rmdir d n \<Rightarrow> plain (hello_rmdir serve J (join d n) s)
      | Opendir p \<Rightarrow> Inr (hello_opendir p, Nothing, s)
      | Unlink d n \<Rightarrow> plain (hello_unlink serve J (join d n) s)
      | Create d n \<Rightarrow> plain (hello_create serve J (join d n) s)
      | Open p \<Rightarrow> Inr (hello_open p, Nothing, s)
      | Release p \<Rightarrow> Inr (hello_release p, Nothing, s)
      | Access p \<Rightarrow> plain (hello_access serve J p s)
      | Setxattr p nm val sz \<Rightarrow> plain (hello_setxattr serve J p nm val sz s)
      | Getxattr p nm buf sz \<Rightarrow>
          andthen (hello_getxattr serve J p nm buf sz s) (\<lambda>(c, b, s). Inr (c, Buf b, s))
      | Listxattr p buf sz \<Rightarrow>
          andthen (hello_listxattr serve J p buf sz s) (\<lambda>(c, b, s). Inr (c, Buf b, s))
      | Removexattr p nm \<Rightarrow> plain (hello_removexattr serve J p nm s))"


section \<open>The abstract file system\<close>

text \<open>
  \<open>attrs\<close> is None where nothing is known: \<open>hello_mkdir\<close> does not set the attribute count of a new
  directory, which is what the fresh memory held.
\<close>

record fs =
  dirs :: "string \<Rightarrow> string list option"
  files :: "string \<Rightarrow> string option"
  attrs :: "string \<Rightarrow> (string \<times> string) list option"

definition empty_fs :: fs where
  "empty_fs = \<lparr>dirs = [''/'' \<mapsto> []], files = Map.empty, attrs = Map.empty\<rparr>"

definition entries :: "fs \<Rightarrow> string \<Rightarrow> string list" where
  "entries v d = (case dirs v d of None \<Rightarrow> [] | Some cs \<Rightarrow> cs)"

definition known :: "fs \<Rightarrow> string \<Rightarrow> bool" where
  "known v p \<longleftrightarrow> dirs v p \<noteq> None \<or> files v p \<noteq> None"

definition spec_mkdir :: "string \<Rightarrow> string \<Rightarrow> fs \<Rightarrow> fs" where
  "spec_mkdir d p v = v\<lparr>dirs := (dirs v)(d \<mapsto> entries v d @ [p], p \<mapsto> [])\<rparr>"

definition spec_create :: "string \<Rightarrow> string \<Rightarrow> fs \<Rightarrow> fs" where
  "spec_create d p v =
     v\<lparr>dirs := (dirs v)(d \<mapsto> entries v d @ [p]), files := (files v)(p \<mapsto> []), attrs := (attrs v)(p \<mapsto> [])\<rparr>"

text \<open>The last entry takes the place of the one that goes.\<close>

definition spec_remove :: "string \<Rightarrow> string \<Rightarrow> fs \<Rightarrow> fs" where
  "spec_remove d p v =
     v\<lparr>dirs := (dirs v)(d \<mapsto> swap_remove (length (takeWhile (\<lambda>x. x \<noteq> p) (entries v d))) (entries v d),
                        p := None),
       files := (files v)(p := None), attrs := (attrs v)(p := None)\<rparr>"

definition spec_write :: "string \<Rightarrow> nat \<Rightarrow> string \<Rightarrow> fs \<Rightarrow> fs" where
  "spec_write p off bs v = v\<lparr>files := (files v)(p \<mapsto> overwrite (the (files v p)) off bs)\<rparr>"

text \<open>The attributes of a node, in the order they were set.\<close>

definition attrs_of :: "fs \<Rightarrow> string \<Rightarrow> (string \<times> string) list" where
  "attrs_of v p = (case attrs v p of None \<Rightarrow> [] | Some as \<Rightarrow> as)"

definition spec_setxattr :: "string \<Rightarrow> string \<Rightarrow> string \<Rightarrow> fs \<Rightarrow> fs" where
  "spec_setxattr p nm a v = v\<lparr>attrs := (attrs v)(p \<mapsto> attrs_of v p @ [(nm, a)])\<rparr>"

definition spec_removexattr :: "string \<Rightarrow> string \<Rightarrow> fs \<Rightarrow> fs" where
  "spec_removexattr p nm v =
     (let as = attrs_of v p in
      v\<lparr>attrs := (attrs v)(p \<mapsto> swap_remove (length (takeWhile (\<lambda>a. fst a \<noteq> nm) as)) as)\<rparr>)"

text \<open>
  What each request may answer and do.  The size of a file comes out four bytes too large per
  1024, as \<open>size_over_reported\<close> says.
\<close>

definition spec_step :: "request \<Rightarrow> fs \<Rightarrow> int \<Rightarrow> out \<Rightarrow> fs \<Rightarrow> bool" where
  "spec_step req v c r v' \<longleftrightarrow>
     (case req of
        Getattr p \<Rightarrow> v' = v \<and>
          (if dirs v p \<noteq> None then c = 0 \<and> r = Stat \<lparr>st_mode = S_IFDIR_0755, st_nlink = 2, st_size = 0\<rparr>
           else case files v p of
             None \<Rightarrow> c = - ENOENT
           | Some xs \<Rightarrow> c = 0 \<and> r = Stat \<lparr>st_mode = S_IFREG_0444, st_nlink = 1,
               st_size = int (length xs + 4 * nblk xs)\<rparr>)
      | Readdir p \<Rightarrow> v' = v \<and> c = 0 \<and>
          (\<exists>names. r = Names ([''.'', ''..''] @ names) \<and> dirs v p = Some (map (join p) names))
      | Read p buf n off \<Rightarrow> v' = v \<and> c = int n \<and>
          r = Buf (take n (drop off (the (files v p))) @ drop n buf)
      | Mkdir d n \<Rightarrow> r = Nothing \<and> v' = spec_mkdir d (join d n) v \<and> c = 0
      | Write p buf n off \<Rightarrow> r = Nothing \<and> v' = spec_write p off (take n buf) v \<and> c = int n
      | Rmdir d n \<Rightarrow>
          r = Nothing \<and> (case dirs v (join d n) of
             None \<Rightarrow> v' = v \<and> c = - ENOTDIR
           | Some [] \<Rightarrow> v' = spec_remove d (join d n) v \<and> c = 0
           | Some (_ # _) \<Rightarrow> v' = v \<and> c = - ENOTEMPTY)
      | Unlink d n \<Rightarrow>
          r = Nothing \<and> (if files v (join d n) = None then v' = v \<and> c = - ENOENT
           else v' = spec_remove d (join d n) v \<and> c = 0)
      | Create d n \<Rightarrow> r = Nothing \<and> v' = spec_create d (join d n) v \<and> c = 0
      | Access p \<Rightarrow> r = Nothing \<and> v' = v \<and> c = (if known v p then 0 else - ENOENT)
      | Opendir p \<Rightarrow> r = Nothing \<and> v' = v \<and> c = 0
      | Open p \<Rightarrow> r = Nothing \<and> v' = v \<and> c = 0
      | Release p \<Rightarrow> r = Nothing \<and> v' = v \<and> c = 0
      | Setxattr p nm val sz \<Rightarrow> r = Nothing \<and> v' = spec_setxattr p nm (take sz val) v \<and> c = 0
      | Getxattr p nm buf sz \<Rightarrow> v' = v \<and>
          (case map_of (attrs_of v p) nm of
             None \<Rightarrow> c = - 1 \<and> r = Buf buf
           | Some a \<Rightarrow> c = int (length a) \<and> r = Buf (take sz a @ drop (min sz (length a)) buf))
      | Listxattr p buf sz \<Rightarrow> v' = v \<and>
          (let names = names_from 0 (attrs_of v p) in
           if 0 < sz \<and> length names \<le> sz then c = int (length names) \<and> r = Buf (names @ drop (length names) buf)
           else c = int (length (attrs_of v p)) \<and> (sz = 0 \<longrightarrow> r = Buf buf))
      | Removexattr p nm \<Rightarrow>
          r = Nothing \<and> (if nm \<in> fst ` set (attrs_of v p) then v' = spec_removexattr p nm v \<and> c = 0 else v' = v \<and> c = - 1))"

text \<open>
  The requests the model covers.  The kernel asks for a new entry only in a directory that
  exists and does not have it, and knows a directory from a file; names and paths are those the
  keys can hold; a read stays inside of the contents, a write starts inside of them; and there
  is room in the 32-bit counters.
\<close>

definition entry :: "string \<Rightarrow> string \<Rightarrow> bool" where
  "entry d n \<longleftrightarrow> valid_path d \<and> valid_name n \<and> valid_path (join d n)"

definition request_ok :: "nat \<Rightarrow> fs \<Rightarrow> request \<Rightarrow> bool" where
  "request_ok fuel v req \<longleftrightarrow>
     (case req of
        Getattr p \<Rightarrow> valid_path p
      | Readdir p \<Rightarrow> dirs v p \<noteq> None
      | Read p buf n off \<Rightarrow>
          (\<exists>xs. files v p = Some xs \<and> off + n \<le> length xs) \<and> n \<le> length buf \<and> n \<le> fuel
      | Mkdir d n \<Rightarrow> entry d n \<and> dirs v d \<noteq> None \<and> length (entries v d) < 2147483647 \<and> \<not> known v (join d n)
      | Write p buf n off \<Rightarrow>
          (\<exists>xs. files v p = Some xs \<and> off \<le> length xs) \<and> n \<le> length buf \<and> off + n < 1073741824 \<and> 0 < fuel
      | Rmdir d n \<Rightarrow> entry d n \<and> files v (join d n) = None
      | Unlink d n \<Rightarrow> entry d n \<and> dirs v (join d n) = None
      | Create d n \<Rightarrow> entry d n \<and> dirs v d \<noteq> None \<and> length (entries v d) < 2147483647 \<and> \<not> known v (join d n)
      | Access p \<Rightarrow> valid_path p
      | Opendir p \<Rightarrow> True
      | Open p \<Rightarrow> True
      | Release p \<Rightarrow> True
      | Setxattr p nm val sz \<Rightarrow>
          attrs v p \<noteq> None \<and> length (attrs_of v p) < 2147483646 \<and> attr_ok (nm, take sz val) \<and> sz \<le> length val
      | Getxattr p nm buf sz \<Rightarrow> attrs v p \<noteq> None \<and> sz \<le> length buf
      | Listxattr p buf sz \<Rightarrow> attrs v p \<noteq> None \<and> sz \<le> length buf
      | Removexattr p nm \<Rightarrow> attrs v p \<noteq> None)"


section \<open>What the store stands for\<close>

definition node_rep :: "(string \<Rightarrow> string option) \<Rightarrow> fs \<Rightarrow> string \<Rightarrow> bool" where
  "node_rep st v p \<longleftrightarrow>
     (case st p of
        None \<Rightarrow> dirs v p = None \<and> files v p = None
      | Some w \<Rightarrow> \<exists>h. w = meta_value h \<and>
          (if is_dir h = 1 then dirs v p = Some (children st p) \<and> files v p = None
           else dirs v p = None \<and> (\<exists>xs. files v p = Some xs \<and> file_at st p h xs)))"

definition attrs_rep :: "(string \<Rightarrow> string option) \<Rightarrow> fs \<Rightarrow> string \<Rightarrow> bool" where
  "attrs_rep st v p \<longleftrightarrow>
     (case attrs v p of None \<Rightarrow> files v p = None | Some as \<Rightarrow> \<exists>h. attrs_at st p h as)"

definition fs_rep :: "(string \<Rightarrow> string option) \<Rightarrow> fs \<Rightarrow> bool" where
  "fs_rep st v \<longleftrightarrow> fs_wf st \<and> well_typed st \<and>
     (\<forall>p. if valid_path p then node_rep st v p \<and> attrs_rep st v p
          else dirs v p = None \<and> files v p = None \<and> attrs v p = None)"

lemma fs_rep_wf: "fs_rep st v \<Longrightarrow> fs_wf st"
  by (simp add: fs_rep_def)

lemma fs_rep_typed: "fs_rep st v \<Longrightarrow> well_typed st"
  by (simp add: fs_rep_def)

lemma fs_rep_attrs: "fs_rep st v \<Longrightarrow> valid_path p \<Longrightarrow> attrs_rep st v p"
  by (simp add: fs_rep_def)

lemma attrs_Some:
  assumes "fs_rep st v" "attrs v p \<noteq> None"
  obtains h where "attrs_at st p h (attrs_of v p)" "attrs v p = Some (attrs_of v p)" "valid_path p"
proof -
  have p: "valid_path p" using assms by (auto simp: fs_rep_def split: if_splits)
  obtain as where "attrs v p = Some as" using assms(2) by blast
  then show thesis using fs_rep_attrs [OF assms(1) p] that p by (auto simp: attrs_rep_def attrs_of_def)
qed

lemma fs_rep_node: "fs_rep st v \<Longrightarrow> valid_path p \<Longrightarrow> node_rep st v p"
  by (simp add: fs_rep_def)

lemma node_rep_None [simp]: "st p = None \<Longrightarrow> node_rep st v p \<longleftrightarrow> dirs v p = None \<and> files v p = None"
  by (simp add: node_rep_def)

lemma node_rep_dir [simp]:
  "st p = Some (meta_value h) \<Longrightarrow> is_dir h = 1 \<Longrightarrow>
   node_rep st v p \<longleftrightarrow> dirs v p = Some (children st p) \<and> files v p = None"
  by (auto simp: node_rep_def)

lemma node_rep_file [simp]:
  "st p = Some (meta_value h) \<Longrightarrow> is_dir h \<noteq> 1 \<Longrightarrow>
   node_rep st v p \<longleftrightarrow> dirs v p = None \<and> (\<exists>xs. files v p = Some xs \<and> file_at st p h xs)"
  by (auto simp: node_rep_def)

text \<open>The three cases a path is in.\<close>

lemma node_cases:
  assumes "fs_rep st v" "valid_path p"
  obtains (missing) "st p = None" "dirs v p = None" "files v p = None"
  | (dir) h where "st p = Some (meta_value h)" "is_dir h = 1" "dirs v p = Some (children st p)" "files v p = None"
  | (regular) h xs where "st p = Some (meta_value h)" "is_dir h = 0" "dirs v p = None" "files v p = Some xs"
      "file_at st p h xs"
proof (cases "st p")
  case None
  then show thesis using fs_rep_node [OF assms] missing by simp
next
  case (Some w)
  then obtain h where h: "st p = Some (meta_value h)" using fs_wf_meta [OF fs_rep_wf [OF assms(1)] assms(2)] by blast
  show thesis
  proof (cases "is_dir h = 1")
    case True
    then show thesis using fs_rep_node [OF assms] h dir by simp
  next
    case False
    then show thesis using fs_rep_node [OF assms] h regular by (auto simp: file_at_def)
  qed
qed

lemma dirs_Some:
  assumes "fs_rep st v" "dirs v d \<noteq> None"
  obtains h where "valid_path d" "st d = Some (meta_value h)" "is_dir h = 1" "dirs v d = Some (children st d)"
    "entries v d = children st d"
proof -
  have d: "valid_path d" using assms by (auto simp: fs_rep_def split: if_splits)
  from assms(1) d show thesis
    by (cases rule: node_cases) (use d assms(2) that in \<open>auto simp: entries_def\<close>)
qed

lemma files_Some:
  assumes "fs_rep st v" "files v p = Some xs"
  obtains h where "valid_path p" "st p = Some (meta_value h)" "is_dir h = 0" "file_at st p h xs" "dirs v p = None"
proof -
  have d: "valid_path p" using assms by (auto simp: fs_rep_def split: if_splits)
  from assms(1) d show thesis
    by (cases rule: node_cases) (use d assms(2) that in auto)
qed

text \<open>A node whose header keeps its kind and its counts, and whose data and slots stay.\<close>

lemma node_rep_cong:
  assumes "node_rep st v p" "valid_path p"
    and "\<And>h. st p = Some (meta_value h) \<Longrightarrow>
        \<exists>i x. st' p = Some (meta_value (h\<lparr>parent_index := i, xattr_num := x\<rparr>))"
    and "st p = None \<Longrightarrow> st' p = None"
    and "\<And>i. st' (data_key i p) = st (data_key i p)" "\<And>i. st' (child_key i p) = st (child_key i p)"
    and "dirs v' p = dirs v p" "files v' p = files v p"
  shows "node_rep st' v' p"
proof (cases "st p")
  case None
  then show ?thesis using assms by simp
next
  case (Some w)
  then obtain h where h: "st p = Some (meta_value h)" using assms(1) by (auto simp: node_rep_def)
  obtain i x where h': "st' p = Some (meta_value (h\<lparr>parent_index := i, xattr_num := x\<rparr>))" using assms(3) [OF h] by blast
  show ?thesis
  proof (cases "is_dir h = 1")
    case True
    have "hdr_num_buckets (meta_value (h\<lparr>parent_index := i, xattr_num := x\<rparr>)) = hdr_num_buckets (meta_value h)"
      using peek_meta_value(4) [where r = "[]"] by simp
    then have "children st' p = children st p" using h h' assms(6) by (simp add: children_def)
    then show ?thesis using True h h' assms(1,7,8) by simp
  next
    case False
    then obtain xs where xs: "dirs v p = None" "files v p = Some xs" "file_at st p h xs" using h assms(1) by auto
    have "file_at st' p (h\<lparr>parent_index := i, xattr_num := x\<rparr>) xs"
      using xs(3) h' assms(5) by (cases h) (auto simp: file_at_def sized_def blocks_at_def)
    then show ?thesis using False h' xs assms(7,8) by simp
  qed
qed

lemma attrs_rep_cong:
  assumes "attrs_rep st v p"
    and "\<And>h. st p = Some (meta_value h) \<Longrightarrow> \<exists>h'. st' p = Some (meta_value h') \<and> xattr_num h' = xattr_num h"
    and "\<And>i. st' (xattr_key i p) = st (xattr_key i p)" "attrs v' p = attrs v p"
    and "files v p = None \<Longrightarrow> files v' p = None"
  shows "attrs_rep st' v' p"
proof (cases "attrs v p")
  case (Some as)
  then obtain h where h: "attrs_at st p h as" using assms(1) by (auto simp: attrs_rep_def)
  obtain h' where "st' p = Some (meta_value h')" "xattr_num h' = xattr_num h"
    using assms(2) attrs_atD(2) [OF h] by blast
  then have "attrs_at st' p h' as" using h assms(3) by (simp add: attrs_at_def)
  then show ?thesis using Some assms(4) by (auto simp: attrs_rep_def)
qed (use assms in \<open>simp add: attrs_rep_def\<close>)

text \<open>A node of which only the \<open>parent_index\<close> may have changed.\<close>

lemma node_same:
  assumes r: "fs_rep st v" "valid_path p"
    and "\<And>h. st p = Some (meta_value h) \<Longrightarrow> \<exists>i. st' p = Some (meta_value (h\<lparr>parent_index := i\<rparr>))"
    and "st p = None \<Longrightarrow> st' p = None"
    and keys: "\<And>i. st' (data_key i p) = st (data_key i p)" "\<And>i. st' (child_key i p) = st (child_key i p)"
      "\<And>i. st' (xattr_key i p) = st (xattr_key i p)"
    and v: "dirs v' p = dirs v p" "files v' p = files v p" "attrs v' p = attrs v p"
  shows "node_rep st' v' p \<and> attrs_rep st' v' p"
proof
  have h: "\<exists>i. st' p = Some (meta_value (h\<lparr>parent_index := i, xattr_num := xattr_num h\<rparr>))"
    if "st p = Some (meta_value h)" for h
    using assms(3) [OF that] by (cases h) auto
  show "node_rep st' v' p"
    by (rule node_rep_cong [OF fs_rep_node [OF r] r(2)]) (use h assms(4) keys v in blast)+
  show "attrs_rep st' v' p"
    by (rule attrs_rep_cong [OF fs_rep_attrs [OF r]]) (use h keys v in fastforce)+
qed

end
