(* ===== verification/FsRefine.thy ===== *)
theory FsRefine
  imports FsSpec
begin

text \<open>
  Every request does to the store what the abstract file system says; the file system made by
  \<open>hello_init\<close> and any sequence of requests keep the invariant.
\<close>

section \<open>Adding an entry\<close>

lemma nblk_Nil [simp]: "nblk [] = 0"
  by (simp add: nblk_def)

lemma fs_rep_add:
  assumes r: "fs_rep st v" and a: "addable st d n h" and hp: "parent_index hp = num_buckets h + 1" "num_buckets hp = 0"
    and kind: "is_dir hp = 1 \<and> v' = spec_mkdir d (join d n) v \<or>
      is_dir hp = 0 \<and> data_len hp = 0 \<and> xattr_num hp = 0 \<and> v' = spec_create d (join d n) v"
  shows "fs_rep (add_entry st d h (join d n) hp) v'"
proof -
  let ?st = "add_entry st d h (join d n) hp" and ?p = "join d n"
  note A = addableD [OF a] and meta = add_entry_meta [OF a] and slot = add_entry_slot [OF a]
  have d: "dirs v d = Some (children st d)" "files v d = None" using fs_rep_node [OF r A(2)] A(5,6) by simp_all
  have p: "files v ?p = None" "dirs v ?p = None" using fs_rep_node [OF r A(4)] A(8) by simp_all
  have pa: "attrs v ?p = None" using fs_rep_attrs [OF r A(4)] A(8) p by (auto simp: attrs_rep_def attrs_at_def split: option.splits)
  have keys: "?st (data_key i x) = st (data_key i x)" "?st (xattr_key i x) = st (xattr_key i x)" for i x
    using A(2,4) by (simp_all add: add_entry_def)
  have "node_rep ?st v' x \<and> attrs_rep ?st v' x" if x: "valid_path x" for x
  proof -
    consider "x = ?p" | "x = d" | "x \<noteq> ?p" "x \<noteq> d" by blast
    then show ?thesis
    proof cases
      case 1
      have "?st ?p = Some (meta_value hp)" using meta [OF A(4)] by simp
      moreover have "children ?st ?p = []" by (rule children_add_new [OF a hp(2)])
      moreover have "is_dir hp = 0 \<Longrightarrow> data_len hp = 0 \<Longrightarrow> hp = sized hp []"
        using hp(2) by (cases hp) (simp add: sized_def)
      moreover have "xattr_num hp = 0 \<Longrightarrow> attrs_at ?st ?p hp []"
        using A(4) meta [OF A(4)] by (simp add: attrs_at_def)
      ultimately show ?thesis using 1 kind A(4,12) p pa
        by (auto simp: spec_mkdir_def spec_create_def file_at_def blocks_at_def attrs_rep_def)
    next
      case 2
      have "?st d = Some (meta_value (h\<lparr>num_buckets := num_buckets h + 1\<rparr>))" using meta [OF A(2)] A(12) by simp
      moreover have "children ?st d = children st d @ [?p]" by (rule children_add [OF a])
      ultimately have "node_rep ?st v' d" using kind A(6,12) d
        by (auto simp: spec_mkdir_def spec_create_def entries_def)
      moreover have "attrs_rep ?st v' d"
        by (rule attrs_rep_cong [OF fs_rep_attrs [OF r A(2)]])
           (use meta [OF A(2)] A(5,12) kind d keys in \<open>auto simp: spec_mkdir_def spec_create_def\<close>)
      ultimately show ?thesis using 2 by simp
    next
      case 3
      then have "dirs v' x = dirs v x" "files v' x = files v x" "attrs v' x = attrs v x"
        using kind by (auto simp: spec_mkdir_def spec_create_def)
      moreover have s: "?st x = st x" using meta [OF x] 3 by simp
      have "\<exists>i. ?st x = Some (meta_value (g\<lparr>parent_index := i\<rparr>))" if "st x = Some (meta_value g)" for g
        by (rule exI [of _ "parent_index g"]) (use s that in simp)
      ultimately show ?thesis
        using s slot [OF x] 3 by (intro node_same [OF r x]) (simp_all add: keys)
    qed
  qed
  moreover have "dirs v' x = None \<and> files v' x = None \<and> attrs v' x = None" if "\<not> valid_path x" for x
    using r that A(2,4) kind by (auto simp: fs_rep_def spec_mkdir_def spec_create_def)
  moreover have "well_typed ?st" using well_typed_add_entry [OF a fs_rep_typed [OF r]] kind by blast
  ultimately show ?thesis using fs_wf_add [OF a hp] by (simp add: fs_rep_def)
qed


section \<open>Removing an entry\<close>

lemma length_takeWhile_nth: "distinct xs \<Longrightarrow> k < length xs \<Longrightarrow> length (takeWhile (\<lambda>x. x \<noteq> xs ! k) xs) = k"
proof (induction xs arbitrary: k)
  case (Cons y ys)
  then show ?case by (cases k) auto
qed simp

lemma fs_rep_remove:
  assumes r: "fs_rep st v" and m: "removable st d n h hp m hq"
  shows "fs_rep (remove_entry st d h (join d n) hp (join d m) hq) (spec_remove d (join d n) v)"
proof -
  let ?st = "remove_entry st d h (join d n) hp (join d m) hq" and ?p = "join d n"
  let ?v = "spec_remove d ?p v"
  note R = removableD [OF m] and F = removable_facts [OF m] and ch = children_remove [OF m]
  have d: "dirs v d = Some (children st d)" "files v d = None" using fs_rep_node [OF r R(2)] R(5) F(1) by simp_all
  have keys: "?st (data_key i x) = st (data_key i x)" "?st (xattr_key i x) = st (xattr_key i x)" for i x
    using R(2,4,9) by (simp_all add: remove_entry_def)
  have dist: "distinct (children st d)" by (rule children_distinct [OF R(1,2,5) F(1)])
  have "node_rep ?st ?v x \<and> attrs_rep ?st ?v x" if x: "valid_path x" for x
  proof -
    consider "x = ?p" | "x = d" | "x \<noteq> ?p" "x \<noteq> d" by blast
    then show ?thesis
    proof cases
      case 1
      then show ?thesis using remove_entry_meta [OF m x] by (simp add: spec_remove_def attrs_rep_def)
    next
      case 2
      have "?st d = Some (meta_value (h\<lparr>num_buckets := num_buckets h - 1\<rparr>))"
        using remove_entry_meta [OF m R(2)] F(11,12) by simp
      moreover have "children ?st d = swap_remove (length (takeWhile (\<lambda>x. x \<noteq> ?p) (children st d))) (children st d)"
        using ch(1) length_takeWhile_nth [OF dist ch(2)] ch(3) by simp
      ultimately have "node_rep ?st ?v d" using F(1,11) d by (simp add: spec_remove_def entries_def)
      moreover have "attrs_rep ?st ?v d"
        by (rule attrs_rep_cong [OF fs_rep_attrs [OF r R(2)]])
           (use remove_entry_meta [OF m R(2)] F(11,12) R(5) keys in \<open>auto simp: spec_remove_def\<close>)
      ultimately show ?thesis using 2 by simp
    next
      case 3
      have "\<exists>i. ?st x = Some (meta_value (g\<lparr>parent_index := i\<rparr>))" if g: "st x = Some (meta_value g)" for g
        using remove_entry_meta [OF m x] 3 g R(11)
        by (cases "x = join d m"; intro exI [of _ "if x = join d m then parent_index hp else parent_index g"]) auto
      moreover have "?st x = None" if "st x = None" using that remove_entry_meta [OF m x] 3 R(11) by auto
      moreover have "?st (child_key i x) = st (child_key i x)" for i using remove_entry_slot [OF m x] 3 by simp
      ultimately show ?thesis
        using 3 by (intro node_same [OF r x]) (simp_all add: keys spec_remove_def)
    qed
  qed
  moreover have "dirs ?v x = None \<and> files ?v x = None \<and> attrs ?v x = None" if "\<not> valid_path x" for x
    using r that R(2,4) by (auto simp: fs_rep_def spec_remove_def)
  ultimately show ?thesis
    using fs_wf_remove [OF m] well_typed_remove_entry [OF m fs_rep_typed [OF r]] by (simp add: fs_rep_def)
qed

text \<open>Keys that belong to a file that is gone.\<close>

lemma fs_rep_delete:
  assumes r: "fs_rep st v" and p: "valid_path p" "st p = None"
    and K: "\<And>k. k \<in> K \<Longrightarrow> \<exists>i. k = data_key i p \<or> k = xattr_key i p"
  shows "fs_rep (\<lambda>k. if k \<in> K then None else st k) v"
proof -
  let ?st = "\<lambda>k. if k \<in> K then None else st k"
  have path: "x \<notin> K" "child_key i x \<notin> K" if "valid_path x" for x i
    using K that keys_not_path(4,6) keys_disjoint(1,3) by blast+
  have keys: "data_key i x \<notin> K" "xattr_key i x \<notin> K" if "valid_path x" "x \<noteq> p" for x i
    using K that p(1) by fastforce+
  have "node_rep ?st v x \<and> attrs_rep ?st v x" if x: "valid_path x" for x
  proof (cases "x = p")
    case True
    then show ?thesis using fs_rep_node [OF r x] fs_rep_attrs [OF r x] p
      by (auto simp: path attrs_rep_def attrs_at_def split: option.splits)
  next
    case False
    have "\<exists>i. ?st x = Some (meta_value (g\<lparr>parent_index := i\<rparr>))" if "st x = Some (meta_value g)" for g
      by (rule exI [of _ "parent_index g"]) (use path [OF x] that in simp)
    then show ?thesis
      using path [OF x] keys [OF x False] by (intro node_same [OF r x]) simp_all
  qed
  moreover have "fs_wf ?st"
    by (rule fs_wf_same_tree [OF same_tree_delete fs_rep_wf [OF r]]) (use path in auto)
  moreover have "well_typed ?st" by (rule well_typed_restrict [OF fs_rep_typed [OF r]])
  ultimately show ?thesis using r by (simp add: fs_rep_def)
qed

section \<open>Changing a file or its attributes\<close>

lemma fs_rep_write:
  assumes r: "fs_rep st v" and f: "file_at st p h xs" "file_at st' p (sized h ys) ys"
    and change: "only_buckets p (st(p \<mapsto> meta_value (sized h ys))) st'"
  shows "fs_rep st' (v\<lparr>files := (files v)(p \<mapsto> ys)\<rparr>)"
proof -
  note other = only_buckets_frame [OF change]
  have p: "valid_path p" "st p = Some (meta_value h)" "is_dir h = 0" using f(1) by (simp_all add: file_at_def)
  have st': "st' p = Some (meta_value (sized h ys))" "is_dir (sized h ys) = 0" using f(2) by (simp_all add: file_at_def)
  have dp: "dirs v p = None" "files v p \<noteq> None" using fs_rep_node [OF r p(1)] p by auto
  have "node_rep st' (v\<lparr>files := (files v)(p \<mapsto> ys)\<rparr>) x \<and> attrs_rep st' (v\<lparr>files := (files v)(p \<mapsto> ys)\<rparr>) x"
    if x: "valid_path x" for x
  proof (cases "x = p")
    case True
    have "attrs_rep st' (v\<lparr>files := (files v)(p \<mapsto> ys)\<rparr>) p"
      by (rule attrs_rep_cong [OF fs_rep_attrs [OF r p(1)]]) (use p st' other dp in \<open>auto simp: sized_def\<close>)
    then show ?thesis using True st' f(2) dp by simp
  next
    case False
    have s: "st' x = st x" using other False x keys_not_path(4) by blast
    have "\<exists>i. st' x = Some (meta_value (g\<lparr>parent_index := i\<rparr>))" if "st x = Some (meta_value g)" for g
      by (rule exI [of _ "parent_index g"]) (use s that in simp)
    then show ?thesis
      using s False p(1) x other by (intro node_same [OF r x]) simp_all
  qed
  moreover have "same_tree st st'"
    by (rule same_tree_file [OF p(1,2) st'(1) p(3) st'(2) _ other]) (simp add: sized_def)
  then have "fs_wf st'" by (rule fs_wf_same_tree [OF _ fs_rep_wf [OF r]])
  moreover have "well_typed st'"
    by (rule well_typed_buckets [OF change well_typed_upd [OF fs_rep_typed [OF r]] p(1)])
       (use p(1) st' in \<open>auto intro: stored.node\<close>)
  ultimately show ?thesis using r p(1) by (auto simp: fs_rep_def)
qed

lemma fs_rep_xattr:
  assumes r: "fs_rep (store (peer s)) v" and p: "attrs_at (store (peer s)) p h0 bs" "attrs_at (store (peer s')) p h1 as"
    and a: "attrs_framed store s s' p"
  shows "fs_rep (store (peer s')) (v\<lparr>attrs := (attrs v)(p \<mapsto> as)\<rparr>)"
proof -
  let ?st = "store (peer s)" and ?st' = "store (peer s')" and ?v = "v\<lparr>attrs := (attrs v)(p \<mapsto> as)\<rparr>"
  obtain h w where h: "?st p = Some (meta_value h)" "?st' p = Some (meta_value (h\<lparr>xattr_num := w\<rparr>))"
    and change: "only_attrs p (?st(p \<mapsto> meta_value (h\<lparr>xattr_num := w\<rparr>))) ?st'"
    using a by (auto simp: attrs_framed_def)
  note o = only_attrs_frame [OF change, rule_format] and vp = attrs_atD(1) [OF p(1)]
  have "node_rep ?st' ?v x \<and> attrs_rep ?st' ?v x" if x: "valid_path x" for x
  proof (cases "x = p")
    case True
    have "\<exists>i y. ?st' p = Some (meta_value (g\<lparr>parent_index := i, xattr_num := y\<rparr>))" if "?st p = Some (meta_value g)" for g
      using h that by (intro exI [of _ "parent_index h"] exI [of _ w]) simp
    then have "node_rep ?st' ?v p"
      using h vp by (intro node_rep_cong [OF fs_rep_node [OF r vp] vp]) (auto intro!: o)
    then show ?thesis using True p(2) by (auto simp: attrs_rep_def)
  next
    case False
    then have s: "?st' x = ?st x" using x by (intro o) auto
    have "\<exists>i. ?st' x = Some (meta_value (g\<lparr>parent_index := i\<rparr>))" if "?st x = Some (meta_value g)" for g
      by (rule exI [of _ "parent_index g"]) (use s that in simp)
    then show ?thesis using s False vp x by (intro node_same [OF r x]) (auto intro!: o)
  qed
  moreover have "well_typed ?st'"
    using well_typed_node [OF fs_rep_typed [OF r] vp h(1)]
    by (intro well_typed_attrs [OF change well_typed_upd [OF fs_rep_typed [OF r]] vp])
       (auto intro!: stored.node vp)
  ultimately show ?thesis using r a vp by (auto simp: fs_rep_def attrs_framed_def fs_ready_def)
qed

section \<open>One request\<close>

definition fs_state :: "('m \<Rightarrow> string \<Rightarrow> string option) \<Rightarrow> 'm sock \<Rightarrow> fs \<Rightarrow> bool" where
  "fs_state store s v \<longleftrightarrow> inbox s = [] \<and> fs_rep (store (peer s)) v"

text \<open>A request is answered as the abstract file system says, and the states correspond again.\<close>

definition answers ::
    "('m \<Rightarrow> string \<Rightarrow> string option) \<Rightarrow> request \<Rightarrow> fs \<Rightarrow> (int \<times> out \<times> 'm sock) result \<Rightarrow> bool" where
  "answers store req v res \<longleftrightarrow>
     (\<exists>c r s' v'. res = Inr (c, r, s') \<and> spec_step req v c r v' \<and> fs_state store s' v')"

lemma plain_simps [simp]: "plain (Inr (c, s)) = Inr (c, Nothing, s)"
  by (simp add: plain_def)

lemma answersI:
  "res = Inr (c, r, s') \<Longrightarrow> spec_step req v c r v' \<Longrightarrow> fs_state store s' v' \<Longrightarrow> answers store req v res"
  by (auto simp: answers_def)

lemma answer_lookups:
  assumes mc: "memcached serve store" and s: "fs_state store s v" and p: "valid_path p"
  shows "answers store (Getattr p) v (hello_oper serve J fuel (Getattr p) s)"
    "answers store (Access p) v (hello_oper serve J fuel (Access p) s)"
proof -
  have i: "inbox s = []" and r: "fs_rep (store (peer s)) v" using s by (simp_all add: fs_state_def)
  note get = memcached.getattr_run [OF mc i p] and miss = memcached.getattr_missing [OF mc i p]
    and acc = memcached.access_run [OF mc i p]
  from r p have "answers store (Getattr p) v (hello_oper serve J fuel (Getattr p) s) \<and>
      answers store (Access p) v (hello_oper serve J fuel (Access p) s)"
  proof (cases rule: node_cases)
    case missing
    obtain b where "hello_getattr serve J p s = Inr (- ENOENT, b, s)" using miss missing by blast
    then show ?thesis using missing acc s
      by (simp add: answers_def hello_oper_def spec_step_def known_def)
  next
    case (dir h)
    then show ?thesis using get acc s
      by (simp add: answers_def hello_oper_def spec_step_def known_def stat_of_def)
  next
    case (regular h xs)
    have "sint (data_len h) = int (length xs + 4 * nblk xs)"
      using regular(5) sized_fields(1) [of xs h] by (simp add: file_at_def)
    then show ?thesis using regular get acc s
      by (simp add: answers_def hello_oper_def spec_step_def known_def stat_of_def)
  qed
  then show "answers store (Getattr p) v (hello_oper serve J fuel (Getattr p) s)"
    "answers store (Access p) v (hello_oper serve J fuel (Access p) s)" by simp_all
qed

lemma answer_readdir:
  assumes mc: "memcached serve store" and s: "fs_state store s v" and d: "dirs v d \<noteq> None"
  shows "answers store (Readdir d) v (hello_oper serve J fuel (Readdir d) s)"
proof -
  have r: "fs_rep (store (peer s)) v" and rd: "fs_ready store s"
    using s fs_rep_wf by (auto simp: fs_state_def fs_ready_def)
  obtain h where h: "valid_path d" "store (peer s) d = Some (meta_value h)" "is_dir h = 1"
    "dirs v d = Some (children (store (peer s)) d)"
    by (rule dirs_Some [OF r d])
  obtain names where "hello_readdir serve J d s = Inr (0, [''.'', ''..''] @ names, s)"
    "map (join d) names = children (store (peer s)) d"
    using readdir_names [OF mc rd h(1-3)] by blast
  then show ?thesis using h(4) s by (auto simp: answers_def hello_oper_def spec_step_def)
qed

lemma answer_adds:
  assumes mc: "memcached serve store" and s: "fs_state store s v"
    and ok: "entry d n" "dirs v d \<noteq> None" "length (entries v d) < 2147483647" "\<not> known v (join d n)"
  shows "answers store (Mkdir d n) v (hello_oper serve J fuel (Mkdir d n) s)"
    "answers store (Create d n) v (hello_oper serve J fuel (Create d n) s)"
proof -
  have i: "inbox s = []" and r: "fs_rep (store (peer s)) v" using s by (simp_all add: fs_state_def)
  obtain h where h: "valid_path d" "store (peer s) d = Some (meta_value h)" "is_dir h = 1"
    "entries v d = children (store (peer s)) d"
    by (rule dirs_Some [OF r ok(2)])
  have sl: "slots_wf (store (peer s)) d h" by (rule fs_wf_node(1) [OF fs_rep_wf [OF r] h(1-3)])
  have "sint (num_buckets h) < 2147483647"
    using ok(3) children_simp(1) [OF sl h(2)] h(4) by simp
  moreover have "store (peer s) (join d n) = None"
    using ok(1,4) fs_rep_node [OF r, of "join d n"] by (auto simp: entry_def known_def node_rep_def split: option.splits if_splits)
  ultimately have a: "addable (store (peer s)) d n h"
    using h ok(1) fs_rep_wf [OF r] by (simp add: addable_def entry_def)
  note A = addableD [OF a]
  have st: "store (add_state serve (peer s) d h (join d n) hp) = add_entry (store (peer s)) d h (join d n) hp" for hp
    using memcached.store_add_state [OF mc A(2,4,7)] by simp
  have rep: "fs_state store (s\<lparr>peer := add_state serve (peer s) d h (join d n) hp\<rparr>) v'"
    if "parent_index hp = num_buckets h + 1" "num_buckets hp = 0"
      "is_dir hp = 1 \<and> v' = spec_mkdir d (join d n) v \<or>
       is_dir hp = 0 \<and> data_len hp = 0 \<and> xattr_num hp = 0 \<and> v' = spec_create d (join d n) v" for hp v'
    using fs_rep_add [OF r a that] i by (simp add: fs_state_def st)
  have "fs_state store (s\<lparr>peer := add_state serve (peer s) d h (join d n) (dir_header (num_buckets h + 1) x)\<rparr>)
      (spec_mkdir d (join d n) v)" for x
    by (rule rep) (simp_all add: dir_header_def)
  then show "answers store (Mkdir d n) v (hello_oper serve J fuel (Mkdir d n) s)"
    by (intro answersI) (simp_all add: hello_oper_def spec_step_def memcached.mkdir_run [OF mc i A(2-5,7)])
  have "fs_state store (s\<lparr>peer := add_state serve (peer s) d h (join d n) (file_header (num_buckets h + 1))\<rparr>)
      (spec_create d (join d n) v)"
    by (rule rep) (simp_all add: file_header_def)
  then show "answers store (Create d n) v (hello_oper serve J fuel (Create d n) s)"
    by (intro answersI) (simp_all add: hello_oper_def spec_step_def memcached.create_run [OF mc i A(2-5,7)])
qed

lemma answer_rmdir:
  assumes mc: "memcached serve store" and s: "fs_state store s v"
    and ok: "entry d n" "files v (join d n) = None"
  shows "answers store (Rmdir d n) v (hello_oper serve J fuel (Rmdir d n) s)"
proof -
  have i: "inbox s = []" and r: "fs_rep (store (peer s)) v" using s by (simp_all add: fs_state_def)
  have e: "valid_path d" "valid_name n" "valid_path (join d n)" using ok(1) by (simp_all add: entry_def)
  from r e(3) show ?thesis
  proof (cases rule: node_cases)
    case missing
    then show ?thesis using memcached.rmdir_missing [OF mc i e] s
      by (simp add: answers_def hello_oper_def spec_step_def)
  next
    case (dir hp)
    note sl = fs_wf_node(1) [OF fs_rep_wf [OF r] e(3) dir(1,2)]
    note len = children_simp(1) [OF sl dir(1)]
    have n0: "0 \<le> sint (num_buckets hp)" using sl by (simp add: slots_wf_def)
    show ?thesis
    proof (cases "children (store (peer s)) (join d n)")
      case (Cons c cs)
      then have "0 < sint (num_buckets hp)" using len by simp
      then show ?thesis using memcached.rmdir_not_empty [OF mc i e dir(1)] dir s Cons
        by (simp add: answers_def hello_oper_def spec_step_def)
    next
      case Nil
      then have z: "num_buckets hp = 0" using len n0 by (auto intro: signed_word_eqI)
      obtain h m hq where m: "removable (store (peer s)) d n h hp m hq"
        by (rule removable_ex [OF fs_rep_wf [OF r] e dir(1)]) (use z in auto)
      note R = removableD [OF m] and F = removable_facts [OF m]
      have "hello_rmdir serve J (join d n) s =
          Inr (0, s\<lparr>peer := remove_state serve (peer s) d h (join d n) hp (join d m) hq\<rparr>)"
        by (rule memcached.rmdir_run [OF mc i e R(6) _ R(5) _ R(9) F(10) R(10,11)])
           (use z F(3,4) in simp_all)
      moreover have "fs_state store (s\<lparr>peer := remove_state serve (peer s) d h (join d n) hp (join d m) hq\<rparr>)
          (spec_remove d (join d n) v)"
        using fs_rep_remove [OF r m] memcached.store_remove_state [OF mc R(2,4,9)] i by (simp add: fs_state_def)
      ultimately show ?thesis using dir Nil by (simp add: answers_def hello_oper_def spec_step_def)
    qed
  qed (use ok in simp)
qed

lemma answer_unlink:
  assumes mc: "memcached serve store" and s: "fs_state store s v"
    and ok: "entry d n" "dirs v (join d n) = None"
  shows "answers store (Unlink d n) v (hello_oper serve J fuel (Unlink d n) s)"
proof -
  have i: "inbox s = []" and r: "fs_rep (store (peer s)) v" using s by (simp_all add: fs_state_def)
  have e: "valid_path d" "valid_name n" "valid_path (join d n)" using ok(1) by (simp_all add: entry_def)
  from r e(3) show ?thesis
  proof (cases rule: node_cases)
    case missing
    then show ?thesis using memcached.unlink_missing [OF mc i e] s
      by (simp add: answers_def hello_oper_def spec_step_def)
  next
    case (regular hp xs)
    obtain h m hq where m: "removable (store (peer s)) d n h hp m hq"
      by (rule removable_ex [OF fs_rep_wf [OF r] e regular(1)]) (use regular(2) in auto)
    note R = removableD [OF m] and F = removable_facts [OF m]
    let ?p = "join d n" and ?st = "remove_entry (store (peer s)) d h (join d n) hp (join d m) hq"
    define ks where "ks = map (\<lambda>i. xattr_key i ?p) [1..sint (xattr_num hp)]
        @ map (\<lambda>i. data_key i ?p) [1..sint (num_buckets hp)]"
    define s' where "s' = s\<lparr>peer := foldl (cdel serve)
        (remove_state serve (peer s) d h ?p hp (join d m) hq) ks\<rparr>"
    have "hello_unlink serve J ?p s = Inr (0, s')"
      unfolding s'_def ks_def
      by (rule memcached.unlink_run [OF mc i e R(6,5) _ R(9) F(10) R(10,11)]) (use F(3,4) in simp)
    moreover have "valid_key k" if "k \<in> set ks" for k
      using that e(3) sint32_range [of "xattr_num hp"] sint32_range [of "num_buckets hp"]
      by (auto simp: ks_def)
    then have "store (peer s') = (\<lambda>k. if k \<in> set ks then None else ?st k)"
      using memcached.store_foldl_cdel [OF mc] memcached.store_remove_state [OF mc R(2,4,9)]
      by (auto simp: s'_def)
    moreover have "fs_rep (\<lambda>k. if k \<in> set ks then None else ?st k) (spec_remove d ?p v)"
      by (rule fs_rep_delete [OF fs_rep_remove [OF r m] e(3)])
         (use remove_entry_meta [OF m e(3)] in \<open>auto simp: ks_def\<close>)
    ultimately show ?thesis using regular(4) i
      by (simp add: answers_def hello_oper_def spec_step_def fs_state_def) (simp add: s'_def)
  qed (use ok in simp)
qed

lemma answer_io:
  assumes mc: "memcached serve store" and s: "fs_state store s v" and f: "files v p = Some xs" and n: "n \<le> length buf"
  shows "off + n \<le> length xs \<Longrightarrow> n \<le> fuel \<Longrightarrow>
      answers store (Read p buf n off) v (hello_oper serve J fuel (Read p buf n off) s)"
    "off \<le> length xs \<Longrightarrow> off + n < 1073741824 \<Longrightarrow> 0 < fuel \<Longrightarrow>
      answers store (Write p buf n off) v (hello_oper serve J fuel (Write p buf n off) s)"
proof -
  have i: "inbox s = []" and r: "fs_rep (store (peer s)) v" using s by (simp_all add: fs_state_def)
  obtain h where h: "file_at (store (peer s)) p h xs" by (rule files_Some [OF r f])
  show "answers store (Read p buf n off) v (hello_oper serve J fuel (Read p buf n off) s)"
    if "off + n \<le> length xs" "n \<le> fuel"
    using memcached.read_run [OF mc i h that(1) n that(2)] s f
    by (simp add: answers_def hello_oper_def spec_step_def)
  assume w: "off \<le> length xs" "off + n < 1073741824" "0 < fuel"
  obtain k where k: "fuel = Suc k" using w(3) by (cases fuel) auto
  obtain m where m: "hello_write serve J fuel p buf n (int off) s = Inr (int n, s\<lparr>peer := m\<rparr>)"
    "file_at (store m) p (sized h (overwrite xs off (take n buf))) (overwrite xs off (take n buf))"
    "only_buckets p ((store (peer s))(p \<mapsto> meta_value (sized h (overwrite xs off (take n buf))))) (store m)"
    using memcached.write_run [OF mc i h w(1) n w(2)] unfolding k by blast
  have "fs_state store (s\<lparr>peer := m\<rparr>) (spec_write p off (take n buf) v)"
    using fs_rep_write [OF r h m(2,3)] i f by (simp add: fs_state_def spec_write_def)
  then show "answers store (Write p buf n off) v (hello_oper serve J fuel (Write p buf n off) s)"
    using m(1) by (simp add: answers_def hello_oper_def spec_step_def)
qed

lemma answer_xattr:
  assumes mc: "memcached serve store" and s: "fs_state store s v" and a: "attrs v p \<noteq> None"
  shows "length (attrs_of v p) < 2147483646 \<Longrightarrow> attr_ok (nm, take sz val) \<Longrightarrow> sz \<le> length val \<Longrightarrow>
      answers store (Setxattr p nm val sz) v (hello_oper serve J fuel (Setxattr p nm val sz) s)"
    "sz \<le> length buf \<Longrightarrow> answers store (Getxattr p nm buf sz) v (hello_oper serve J fuel (Getxattr p nm buf sz) s)"
    "sz \<le> length buf \<Longrightarrow> answers store (Listxattr p buf sz) v (hello_oper serve J fuel (Listxattr p buf sz) s)"
    "answers store (Removexattr p nm) v (hello_oper serve J fuel (Removexattr p nm) s)"
proof -
  have i: "inbox s = []" and r: "fs_rep (store (peer s)) v" and rd: "fs_ready store s"
    using s fs_rep_wf by (auto simp: fs_state_def fs_ready_def)
  obtain h where at: "attrs_at (store (peer s)) p h (attrs_of v p)" by (rule attrs_Some [OF r a])
  have framed: "fs_state store s' (v\<lparr>attrs := (attrs v)(p \<mapsto> as)\<rparr>)"
    if "attrs_framed store s s' p" "attrs_at (store (peer s')) p h' as" for s' h' as
    using fs_rep_xattr [OF r at that(2,1)] that(1) by (simp add: fs_state_def attrs_framed_def fs_ready_def)
  show "answers store (Setxattr p nm val sz) v (hello_oper serve J fuel (Setxattr p nm val sz) s)"
    if ok: "length (attrs_of v p) < 2147483646" "attr_ok (nm, take sz val)" "sz \<le> length val"
  proof -
    obtain s' h' where "hello_setxattr serve J p nm val sz s = Inr (0, s')" "attrs_framed store s s' p"
      "attrs_at (store (peer s')) p h' (attrs_of v p @ [(nm, take sz val)])"
      using setxattr_run_ok [OF mc rd at ok, of J] by blast
    then show ?thesis using framed by (simp add: answers_def hello_oper_def spec_step_def spec_setxattr_def)
  qed
  show "answers store (Getxattr p nm buf sz) v (hello_oper serve J fuel (Getxattr p nm buf sz) s)" if "sz \<le> length buf"
    using getxattr_run_ok [OF mc i at that, of J nm] s
    by (auto simp: answers_def hello_oper_def spec_step_def split: option.splits)
  show "answers store (Listxattr p buf sz) v (hello_oper serve J fuel (Listxattr p buf sz) s)" if "sz \<le> length buf"
    using listxattr_run_ok [OF mc i at that, of J] s
    by (cases "sz = 0"; cases "length (names_from 0 (attrs_of v p)) \<le> sz")
       (auto simp: answers_def hello_oper_def spec_step_def Let_def)
  show "answers store (Removexattr p nm) v (hello_oper serve J fuel (Removexattr p nm) s)"
  proof (cases "nm \<in> fst ` set (attrs_of v p)")
    case True
    obtain s' h' where "hello_removexattr serve J p nm s = Inr (0, s')" "attrs_framed store s s' p"
      "attrs_at (store (peer s')) p h'
         (swap_remove (length (takeWhile (\<lambda>a. fst a \<noteq> nm) (attrs_of v p))) (attrs_of v p))"
      using removexattr_run_ok [OF mc rd at, of nm J] True by blast
    then show ?thesis using True framed
      by (simp add: answers_def hello_oper_def spec_step_def spec_removexattr_def Let_def)
  next
    case False
    then show ?thesis using removexattr_run_ok [OF mc rd at, of nm J] s
      by (simp add: answers_def hello_oper_def spec_step_def)
  qed
qed

lemma request_answered:
  assumes mc: "memcached serve store" and s: "fs_state store s v" and ok: "request_ok fuel v req"
  shows "answers store req v (hello_oper serve J fuel req s)"
proof (cases req)
  case (Getattr p)
  then show ?thesis using answer_lookups [OF mc s] ok by (simp add: request_ok_def)
next
  case (Readdir d)
  then show ?thesis using answer_readdir [OF mc s] ok by (simp add: request_ok_def)
next
  case (Read p buf n off)
  then show ?thesis using answer_io(1) [OF mc s] ok by (auto simp: request_ok_def)
next
  case (Mkdir d n)
  then show ?thesis using answer_adds(1) [OF mc s] ok by (simp add: request_ok_def)
next
  case (Write p buf n off)
  then show ?thesis using answer_io(2) [OF mc s] ok by (auto simp: request_ok_def)
next
  case (Rmdir d n)
  then show ?thesis using answer_rmdir [OF mc s] ok by (simp add: request_ok_def)
next
  case (Unlink d n)
  then show ?thesis using answer_unlink [OF mc s] ok by (simp add: request_ok_def)
next
  case (Create d n)
  then show ?thesis using answer_adds(2) [OF mc s] ok by (simp add: request_ok_def)
next
  case (Access p)
  then show ?thesis using answer_lookups [OF mc s] ok by (simp add: request_ok_def)
next
  case (Setxattr p nm val sz)
  then show ?thesis using answer_xattr(1) [OF mc s] ok by (auto simp: request_ok_def)
next
  case (Getxattr p nm buf sz)
  then show ?thesis using answer_xattr(2) [OF mc s] ok by (auto simp: request_ok_def)
next
  case (Listxattr p buf sz)
  then show ?thesis using answer_xattr(3) [OF mc s] ok by (auto simp: request_ok_def)
next
  case (Removexattr p nm)
  then show ?thesis using answer_xattr(4) [OF mc s] ok by (auto simp: request_ok_def)
qed (use s in \<open>simp_all add: answers_def hello_oper_def spec_step_def hello_open_def hello_opendir_def hello_release_def\<close>)

end
