(* ===== verification/Simulation.thy ===== *)
theory Simulation
  imports Prelude
begin

text \<open>
  Refinement in general: operations on a concrete state that may fault, an abstract specification
  that says which answer and which next abstract state an operation may have, and what follows
  for sequences of operations.  The specification says what an operation promises at the abstract
  states where \<open>ok\<close> allows it.
\<close>

section \<open>Sequences\<close>

primrec exec_all :: "('r \<Rightarrow> 's \<Rightarrow> ('o \<times> 's) result) \<Rightarrow> 'r list \<Rightarrow> 's \<Rightarrow> ('o list \<times> 's) result" where
  "exec_all exec [] s = Inr ([], s)"
| "exec_all exec (r # rs) s =
     andthen (exec r s) (\<lambda>(c, s). andthen (exec_all exec rs s) (\<lambda>(cs, s). Inr (c # cs, s)))"

primrec spec_all :: "('r \<Rightarrow> 'a \<Rightarrow> 'o \<Rightarrow> 'a \<Rightarrow> bool) \<Rightarrow> 'r list \<Rightarrow> 'a \<Rightarrow> 'o list \<Rightarrow> 'a \<Rightarrow> bool" where
  "spec_all spec [] v cs v' \<longleftrightarrow> cs = [] \<and> v' = v"
| "spec_all spec (r # rs) v cs v'' \<longleftrightarrow>
     (\<exists>c cs' v'. cs = c # cs' \<and> spec r v c v' \<and> spec_all spec rs v' cs' v'')"

primrec ok_all :: "('r \<Rightarrow> 'a \<Rightarrow> 'o \<Rightarrow> 'a \<Rightarrow> bool) \<Rightarrow> ('a \<Rightarrow> 'r \<Rightarrow> bool) \<Rightarrow> 'r list \<Rightarrow> 'a \<Rightarrow> bool" where
  "ok_all spec ok [] v \<longleftrightarrow> True"
| "ok_all spec ok (r # rs) v \<longleftrightarrow> ok v r \<and> (\<forall>c v'. spec r v c v' \<longrightarrow> ok_all spec ok rs v')"


section \<open>The contract\<close>

locale simulation =
  fixes exec :: "'r \<Rightarrow> 's \<Rightarrow> ('o \<times> 's) result" and spec :: "'r \<Rightarrow> 'a \<Rightarrow> 'o \<Rightarrow> 'a \<Rightarrow> bool"
    and ok :: "'a \<Rightarrow> 'r \<Rightarrow> bool" and stands_for :: "'s \<Rightarrow> 'a \<Rightarrow> bool"
  assumes sim_step: "stands_for s v \<Longrightarrow> ok v r \<Longrightarrow>
      \<exists>c s' v'. exec r s = Inr (c, s') \<and> spec r v c v' \<and> stands_for s' v'"
begin

lemma sim_run:
  "stands_for s v \<Longrightarrow> ok_all spec ok rs v \<Longrightarrow>
   \<exists>cs s' v'. exec_all exec rs s = Inr (cs, s') \<and> spec_all spec rs v cs v' \<and> stands_for s' v'"
proof (induction rs arbitrary: s v)
  case Nil
  then show ?case by simp
next
  case (Cons r rs)
  obtain c s' v' where 1: "exec r s = Inr (c, s')" "spec r v c v'" "stands_for s' v'"
    using sim_step [OF Cons.prems(1), of r] Cons.prems(2) by auto
  moreover obtain cs s'' v'' where "exec_all exec rs s' = Inr (cs, s'')" "spec_all spec rs v' cs v''" "stands_for s'' v''"
    using Cons.IH [OF 1(3)] Cons.prems(2) 1(2) by auto
  ultimately show ?case by auto
qed

text \<open>Whatever holds of every abstract state that is stood for holds after every run.\<close>

lemma sim_invariant:
  assumes "stands_for s v" "ok_all spec ok rs v" "\<And>s v. stands_for s v \<Longrightarrow> I s v"
  obtains cs s' v' where "exec_all exec rs s = Inr (cs, s')" "spec_all spec rs v cs v'" "I s' v'"
  using sim_run [OF assms(1,2)] assms(3) by blast

end

end
