(* ===== verification/FsProps.thy ===== *)
theory FsProps
  imports FsRefine Simulation
begin

text \<open>
  The properties of the file system as a whole: it refines the abstract file system on every
  sequence of requests, everything that can be reached from \<open>hello_init\<close> on an empty server is a
  tree, and every value in its store has the type of its key.
\<close>

section \<open>Sequences of requests\<close>

text \<open>A request comes with the junk of its storage and the fuel of its loops.\<close>

type_synonym call = "junk \<times> nat \<times> request"

fun fs_exec :: "'m server \<Rightarrow> call \<Rightarrow> 'm sock \<Rightarrow> ((int \<times> out) \<times> 'm sock) result" where
  "fs_exec serve (J, fuel, req) s = andthen (hello_oper serve J fuel req s) (\<lambda>(c, r, s). Inr ((c, r), s))"

fun fs_spec :: "call \<Rightarrow> fs \<Rightarrow> int \<times> out \<Rightarrow> fs \<Rightarrow> bool" where
  "fs_spec (J, fuel, req) v (c, r) v' \<longleftrightarrow> spec_step req v c r v'"

fun fs_ok :: "fs \<Rightarrow> call \<Rightarrow> bool" where
  "fs_ok v (J, fuel, req) \<longleftrightarrow> request_ok fuel v req"

text \<open>The contract of the server gives the contract of the file system.\<close>

sublocale memcached < file_system: simulation "fs_exec serve" fs_spec fs_ok "fs_state store"
proof
  fix s v and c :: call
  assume a: "fs_state store s v" "fs_ok v c"
  obtain J fuel req where c: "c = (J, fuel, req)" by (cases c)
  have "answers store req v (hello_oper serve J fuel req s)"
    by (rule request_answered [OF memcached_axioms a(1)]) (use a(2) in \<open>simp add: c\<close>)
  then show "\<exists>out s' v'. fs_exec serve c s = Inr (out, s') \<and> fs_spec c v out v' \<and> fs_state store s' v'"
    by (auto simp: answers_def c)
qed

context memcached
begin

lemma calls_refine:
  "fs_state store s v \<Longrightarrow> ok_all fs_spec fs_ok calls v \<Longrightarrow>
   \<exists>cs s' v'. exec_all (fs_exec serve) calls s = Inr (cs, s') \<and> spec_all fs_spec calls v cs v' \<and> fs_state store s' v'"
  by (rule file_system.sim_run)

end


section \<open>What can be reached\<close>

text \<open>A fresh server, and any sequence of requests the model covers.\<close>

inductive fs_reach :: "'m server \<Rightarrow> ('m \<Rightarrow> string \<Rightarrow> string option) \<Rightarrow> 'm sock \<Rightarrow> fs \<Rightarrow> bool"
  for serve :: "'m server" and store :: "'m \<Rightarrow> string \<Rightarrow> string option" where
  start: "inbox s0 = [] \<Longrightarrow> store (peer s0) ''stats'' = None \<Longrightarrow> hello_init serve J s0 = Inr s \<Longrightarrow>
    fs_reach serve store s empty_fs"
| request: "fs_reach serve store s v \<Longrightarrow> request_ok fuel v req \<Longrightarrow>
    hello_oper serve J fuel req s = Inr (c, r, s') \<Longrightarrow> spec_step req v c r v' \<Longrightarrow> fs_reach serve store s' v'"

inductive_cases fs_reachE: "fs_reach serve store s v"

text \<open>A tree: there is a root, entries exist and are listed once, all else is an entry of some directory.\<close>

definition tree_ok :: "fs \<Rightarrow> bool" where
  "tree_ok v \<longleftrightarrow> dirs v ''/'' \<noteq> None \<and>
     (\<forall>d cs. dirs v d = Some cs \<longrightarrow>
        distinct cs \<and> (\<forall>c \<in> set cs. known v c \<and> (\<exists>n. valid_name n \<and> c = join d n))) \<and>
     (\<forall>p. known v p \<and> p \<noteq> ''/'' \<longrightarrow> (\<exists>d cs. dirs v d = Some cs \<and> p \<in> set cs))"

lemma spec_step_unique: "spec_step req v c r v' \<Longrightarrow> spec_step req v c' r' v'' \<Longrightarrow> v' = v''"
  by (cases req) (auto simp: spec_step_def split: option.splits list.splits if_splits)

lemma known_iff:
  assumes "fs_rep st v"
  shows "known v p \<longleftrightarrow> valid_path p \<and> st p \<noteq> None"
proof (cases "valid_path p")
  case True
  from assms True show ?thesis by (cases rule: node_cases) (use True in \<open>simp_all add: known_def\<close>)
next
  case False
  then show ?thesis using assms by (auto simp: fs_rep_def known_def)
qed

lemma fs_rep_tree:
  assumes r: "fs_rep st v"
  shows "tree_ok v"
  unfolding tree_ok_def
proof (intro conjI allI impI)
  note w = fs_rep_wf [OF r]
  obtain h where "st ''/'' = Some (meta_value h)" "is_dir h = 1" using w by (auto simp: fs_wf_def)
  then show "dirs v ''/'' \<noteq> None" using fs_rep_node [OF r valid_path_root] by simp
  fix d cs assume d: "dirs v d = Some cs"
  then obtain h where h: "valid_path d" "st d = Some (meta_value h)" "is_dir h = 1" "cs = children st d"
    using dirs_Some [OF r, of d] by auto
  note sl = fs_wf_node(1) [OF w h(1-3)]
  show "distinct cs" unfolding h(4) by (rule children_distinct [OF w h(1-3)])
  show "\<forall>c \<in> set cs. known v c \<and> (\<exists>n. valid_name n \<and> c = join d n)"
  proof
    fix c assume "c \<in> set cs"
    then obtain k where k: "k < length (children st d)" "c = children st d ! k" by (auto simp: h(4) in_set_conv_nth)
    then have "1 \<le> int k + 1" "int k + 1 \<le> sint (num_buckets h)" using children_simp(1) [OF sl h(2)] by simp_all
    then obtain n hc where "valid_name n" "valid_path (join d n)"
      "st (child_key (int k + 1) d) = Some (bucket_value (join d n))" "st (join d n) = Some (meta_value hc)"
      by (rule slots_wfE [OF sl])
    then show "known v c \<and> (\<exists>n. valid_name n \<and> c = join d n)"
      using children_simp(2) [OF sl h(2) k(1)] k(2) known_iff [OF r] by auto
  qed
next
  note w = fs_rep_wf [OF r]
  fix p assume p: "known v p \<and> p \<noteq> ''/''"
  then have vp: "valid_path p" "st p \<noteq> None" using known_iff [OF r] by auto
  obtain hp where hp: "st p = Some (meta_value hp)" using fs_wf_meta [OF w vp(1)] vp(2) by blast
  obtain d n hd where d: "valid_path d" "st d = Some (meta_value hd)" "is_dir hd = 1"
    "1 \<le> sint (parent_index hp)" "sint (parent_index hp) \<le> sint (num_buckets hd)"
    "st (child_key (sint (parent_index hp)) d) = Some (bucket_value p)"
    using fs_wf_node(2) [OF w vp(1) hp] p unfolding linked_def by blast
  note sl = fs_wf_node(1) [OF w d(1-3)]
  define k where "k = nat (sint (parent_index hp) - 1)"
  have k: "k < length (children st d)" "int k + 1 = sint (parent_index hp)"
    using d(4,5) children_simp(1) [OF sl d(2)] by (simp_all add: k_def)
  then have "children st d ! k = p" using children_simp(2) [OF sl d(2) k(1)] d(6) by simp
  then have "p \<in> set (children st d)" using k(1) nth_mem by fastforce
  then show "\<exists>d cs. dirs v d = Some cs \<and> p \<in> set cs" using fs_rep_node [OF r d(1)] d(2,3) by auto
qed

lemma fs_rep_root: "fs_rep (root_only x) empty_fs"
proof -
  have "node_rep (root_only x) empty_fs p" if "valid_path p" for p
  proof (cases "p = ''/''")
    case True
    then show ?thesis using root_only_path [OF that] root_only_view(2) [of x]
      by (simp add: node_rep_def empty_fs_def) (simp add: dir_header_def)
  next
    case False
    then show ?thesis using root_only_path [OF that] by (simp add: empty_fs_def)
  qed
  moreover have "dirs empty_fs p = None \<and> files empty_fs p = None \<and> attrs empty_fs p = None"
    if "\<not> valid_path p" for p
    using that valid_path_root by (auto simp: empty_fs_def)
  moreover have "attrs_rep (root_only x) empty_fs p" for p by (simp add: attrs_rep_def empty_fs_def)
  ultimately show ?thesis by (simp add: fs_rep_def fs_wf_root_only well_typed_root_only)
qed

lemma reach_state:
  assumes mc: "memcached serve store" and "fs_reach serve store s v"
  shows "fs_state store s v"
  using assms(2)
proof induction
  case (start s0 J s)
  then obtain x where "store (peer s) = root_only x" "fs_ready store s"
    using init_run_ok [OF mc start(1), of J] by auto
  then show ?case using fs_rep_root by (simp add: fs_state_def fs_ready_def)
next
  case (request s v fuel req J c r s' v')
  have "answers store req v (hello_oper serve J fuel req s)"
    by (rule request_answered [OF mc]) (use request in simp_all)
  then show ?case using request spec_step_unique by (fastforce simp: answers_def)
qed


section \<open>Properties\<close>

text \<open>C1. The file system refines the abstract one on every sequence of requests of which each one
  meets request_ok when its turn comes: a new name in a directory that exists, a read inside of
  the contents, a write that starts inside of them or at their end, attributes of a node whose
  attributes are known, names that fit the keys and counts that fit 32 bits.  From a server state
  that stands for an abstract file system such a sequence runs without a fault, gives the answers
  of the abstract requests, contents and extended attributes included, and ends in a state that
  stands for the abstract file system they lead to.  The size of a file is the one the code
  reports, four bytes per 1024 more than its contents; what happens outside of request_ok is the
  subject of read_past_contents, write_gap_lost and missing_parent.\<close>

theorem fs_refines:
  assumes "memcached serve store" "fs_state store s v" "ok_all fs_spec fs_ok calls v"
  shows "\<exists>cs s' v'. exec_all (fs_exec serve) calls s = Inr (cs, s') \<and> spec_all fs_spec calls v cs v' \<and>
    fs_state store s' v'"
  by (rule memcached.calls_refine [OF assms])

text \<open>C2. After hello_init on a server that holds no file system and any sequence of requests that
  meet request_ok when their turn comes, as in fs_refines, the store stands for an abstract file
  system, and that is a tree: every path but the root is an entry of a directory, every entry
  exists, and no directory lists one twice.\<close>

theorem fs_invariant:
  assumes "memcached serve store" "fs_reach serve store s v"
  shows "fs_state store s v \<and> tree_ok v"
  using reach_state [OF assms] fs_rep_tree by (auto simp: fs_state_def)

text \<open>C19. Every key-value pair in the store of a file system made by hello_init and requests that
  meet request_ok when their turn comes, as in fs_refines, is of one of five types: the stats
  record, the header of a file or directory, a path in a child slot, a bucket of at most 1024
  bytes, an attribute; its cur_size is its length, and it fits the smallest array the code reads
  it into.\<close>

theorem fs_store_typed:
  assumes "memcached serve store" "fs_reach serve store s v" "store (peer s) k = Some w"
  shows "stored k w \<and> framed w \<and> length w \<le> reader_room k"
proof -
  have "well_typed (store (peer s))"
    using reach_state [OF assms(1,2)] fs_rep_typed by (auto simp: fs_state_def)
  then have "stored k w" using assms(3) by (simp add: well_typed_def)
  then show ?thesis using stored_fits by simp
qed


section \<open>Instances\<close>

lemma sample_reach:
  "\<exists>s. fs_reach ref_serve ref_store s empty_fs \<and> fs_state ref_store s empty_fs"
proof -
  have "inbox \<lparr>peer = Map.empty, inbox = []\<rparr> = []" "ref_store (peer \<lparr>peer = Map.empty, inbox = []\<rparr>) ''stats'' = None"
    by (simp_all add: ref_store_def)
  then obtain s where "hello_init ref_serve zero_junk \<lparr>peer = Map.empty, inbox = []\<rparr> = Inr s"
    using init_run_ok [OF ref.memcached_axioms, of "\<lparr>peer = Map.empty, inbox = []\<rparr>" zero_junk] by auto
  then have "fs_reach ref_serve ref_store s empty_fs" by (rule fs_reach.start [rotated 2]) (simp_all add: ref_store_def)
  then show ?thesis using reach_state [OF ref.memcached_axioms] by blast
qed

lemma sample_request: "request_ok 1 empty_fs (Mkdir ''/'' ''a'')"
  using valid_name_a by (simp add: request_ok_def entry_def empty_fs_def entries_def known_def)

text \<open>A file is created, written, given an attribute, and both are read back.\<close>

definition session :: "call list" where
  "session = map (\<lambda>req. (zero_junk, 5, req))
     [Create ''/'' ''a'', Write ''/a'' ''hello'' 5 0, Setxattr ''/a'' ''k'' ''v'' 1,
      Read ''/a'' ''.......'' 4 1, Getxattr ''/a'' ''k'' ''...'' 3]"

lemma session_ok: "ok_all fs_spec fs_ok session empty_fs"
  using valid_name_a
  by (simp add: session_def spec_step_def request_ok_def entry_def empty_fs_def entries_def known_def
      spec_create_def spec_write_def spec_setxattr_def attrs_of_def overwrite_def attr_ok_def)

theorem fs_refines_witness:
  "\<exists>s s' v'. fs_reach ref_serve ref_store s empty_fs \<and>
     exec_all (fs_exec ref_serve) session s = Inr
       ([(0, Nothing), (5, Nothing), (0, Nothing), (4, Buf ''ello...''), (1, Buf ''v..'')], s') \<and>
     fs_state ref_store s' v' \<and> files v' ''/a'' = Some ''hello''"
proof -
  obtain s where s: "fs_reach ref_serve ref_store s empty_fs" "fs_state ref_store s empty_fs" using sample_reach by blast
  obtain cs s' v' where r: "exec_all (fs_exec ref_serve) session s = Inr (cs, s')"
    "spec_all fs_spec session empty_fs cs v'" "fs_state ref_store s' v'"
    using fs_refines [OF ref.memcached_axioms s(2) session_ok] by blast
  have "cs = [(0, Nothing), (5, Nothing), (0, Nothing), (4, Buf ''ello...''), (1, Buf ''v..'')] \<and>
      files v' ''/a'' = Some ''hello''"
    using r(2) valid_name_a
    by (auto simp: session_def spec_step_def empty_fs_def entries_def
        spec_create_def spec_write_def spec_setxattr_def attrs_of_def overwrite_def)
  then show ?thesis using r(1,3) s(1) by blast
qed

text \<open>The header of the root is a well-typed value.\<close>

theorem fs_store_typed_witness:
  "\<exists>s w. fs_reach ref_serve ref_store s empty_fs \<and> ref_store (peer s) ''/'' = Some w \<and>
     stored ''/'' w \<and> length w \<le> 1024"
proof -
  obtain s where s: "fs_reach ref_serve ref_store s empty_fs" "fs_state ref_store s empty_fs" using sample_reach by blast
  then obtain w where w: "ref_store (peer s) ''/'' = Some w" by (auto simp: fs_state_def fs_rep_def fs_wf_def)
  then show ?thesis using fs_store_typed [OF ref.memcached_axioms s(1), of "''/''" w] w s(1) by (auto simp: reader_room_def)
qed

theorem fs_invariant_witness:
  "\<exists>s. fs_reach ref_serve ref_store s (spec_mkdir ''/'' ''/a'' empty_fs) \<and>
     tree_ok (spec_mkdir ''/'' ''/a'' empty_fs)"
proof -
  obtain s where s: "fs_reach ref_serve ref_store s empty_fs" "fs_state ref_store s empty_fs"
    using sample_reach by blast
  obtain c r s' v' where "hello_oper ref_serve zero_junk 1 (Mkdir ''/'' ''a'') s = Inr (c, r, s')"
    "spec_step (Mkdir ''/'' ''a'') empty_fs c r v'"
    using request_answered [OF ref.memcached_axioms s(2) sample_request, of zero_junk] by (auto simp: answers_def)
  moreover from this have "v' = spec_mkdir ''/'' ''/a'' empty_fs" using valid_name_a(3) by (simp add: spec_step_def)
  ultimately have "fs_reach ref_serve ref_store s' (spec_mkdir ''/'' ''/a'' empty_fs)"
    using fs_reach.request [OF s(1) sample_request] by blast
  then show ?thesis using fs_invariant [OF ref.memcached_axioms] by blast
qed

end
