(* ===== verification/Startup.thy ===== *)
theory Startup
  imports NodeProps
begin

text \<open>
  How cachedfs starts: \<open>cache_init\<close> of \<open>cachedfs/memcache.c\<close>, and \<open>main\<close>, \<open>show_help\<close> and the table
  of options of \<open>cachedfs/main.c\<close>.  The socket calls and libfuse are parameters.
\<close>

section \<open>The connection\<close>

text \<open>
  \<open>fd\<close> is what \<open>socket\<close> returns and \<open>connected\<close> whether \<open>connect\<close> succeeds.  The result is \<open>sockfd\<close>
  and what a \<open>send\<close> on it reaches: without a connection every \<open>send\<close> fails (libfuse
  ignores SIGPIPE).  Nothing is reported to the caller.
\<close>

definition cache_init :: "int \<Rightarrow> bool \<Rightarrow> 'm server \<Rightarrow> int \<times> 'm server" where
  "cache_init fd connected serve =
     (let sockfd = fd in
      if sockfd = - 1 then (sockfd, \<lambda>_ _. None)
      else if \<not> connected then (sockfd, \<lambda>_ _. None)
      else (sockfd, serve))"

text \<open>\<open>hello_init\<close> with the call it begins with.\<close>

definition start_fs :: "int \<Rightarrow> bool \<Rightarrow> 'm server \<Rightarrow> junk \<Rightarrow> 'm sock \<Rightarrow> ('m server \<times> 'm sock) result" where
  "start_fs fd connected serve J s =
     (let (sockfd, serve) = cache_init fd connected serve in
      andthen (hello_init serve J s) (\<lambda>s. Inr (serve, s)))"

definition cache_close_sock :: "int \<times> 'm server \<Rightarrow> int \<times> 'm server" where
  "cache_close_sock c = (fst c, \<lambda>_ _. None)"

abbreviation no_server :: "'m server" where "no_server \<equiv> \<lambda>_ _. None"

lemma cache_get_no_server:
  "valid_key k \<Longrightarrow> cache_get no_server J k buf s = Inr (- 1, buf, s)"
  by (simp add: cache_get_def sock_send_def fits_def valid_key_def)

lemma cache_set_no_server:
  assumes "valid_key k" "n \<le> length v" "n \<le> 65000"
  shows "cache_set no_server J k v (int n) s = Inr (- 1, s)"
proof -
  have "length (dec_int (int n)) \<le> 11" using assms(3) by (intro length_dec_int32) simp_all
  then show ?thesis using assms by (simp add: cache_set_def sock_send_def fits_def valid_key_def)
qed

lemma cache_msg_no_server: "cache_msg no_server d buf s = Inr (- 1, buf, s)"
  by (simp add: cache_msg_def sock_send_def)

lemma init_no_server: "hello_init no_server J s = Inr s"
proof -
  have set: "cache_set no_server J' k v 12 s = Inr (- 1, s)" if "length v = 12" "valid_key k" for J' k v
    using cache_set_no_server [of k 12 v] that by simp
  have set2: "cache_set no_server J' k v 24 s = Inr (- 1, s)" if "length v = 24" "valid_key k" for J' k v
    using cache_set_no_server [of k 24 v] that by simp
  show ?thesis
    by (simp add: hello_init_def init_check_def cache_get_no_server cache_msg_no_server Let_def set set2
        hello_mkdir_def addToParent_def sizeof_bucket_def sizeof_stats_def sizeof_header_def)
qed

lemma addToParent_no_server:
  assumes "valid_path d" "valid_name n" "valid_path (join d n)"
  shows "addToParent no_server J (join d n) s = Inr (- 1, s)"
proof -
  have l: "length (join d n) \<le> 230" using assms(3) by (simp add: valid_path_def)
  have "cache_set no_server J' (child_key (- 1) d) (bucket_value (join d n) @ r) (4 + int (length (join d n))) s
      = Inr (- 1, s)" for J' r
    using cache_set_no_server [of "child_key (- 1) d" "4 + length (join d n)" "bucket_value (join d n) @ r"] assms l
    by simp
  then show ?thesis using assms l
    by (simp add: addToParent_def increaseChildrensNum_def cache_get_no_server ref.child_buffer Let_def sizeof_bucket_def)
qed


section \<open>Options\<close>

record options =
  filename :: "string option"
  contents :: "string option"
  show_help_opt :: int

datatype opt_field = Filename | Contents | Show_help

definition option_spec :: "(string \<times> opt_field \<times> int) list" where
  "option_spec =
     [(''--name=%s'', Filename, 1),
      (''--contents=%s'', Contents, 1),
      (''-h'', Show_help, 1),
      (''--help'', Show_help, 1)]"

definition show_help :: "string \<Rightarrow> string" where
  "show_help progname =
     ''usage: '' @ progname @ '' [options] <mountpoint>'' @ [NEWLINE, NEWLINE] @
     ''File-system specific options:'' @ [NEWLINE] @
     ''    --name=<s>          Name of the '' @ [CHR 0x22] @ ''hello'' @ [CHR 0x22] @ '' file'' @ [NEWLINE] @
     ''                        (default: '' @ [CHR 0x22] @ ''hello'' @ [CHR 0x22] @ '')'' @ [NEWLINE] @
     ''    --contents=<s>      Contents '' @ [CHR 0x22] @ ''hello'' @ [CHR 0x22] @ '' file'' @ [NEWLINE] @
     ''                        (default '' @ [CHR 0x22] @ ''Hello, World!'' @ [CHR 0x5C] @ ''n'' @ [CHR 0x22] @ '')'' @
     [NEWLINE, NEWLINE]"


section \<open>main\<close>

text \<open>
  \<open>fuse_opt_parse\<close> (None for -1), \<open>fuse_opt_add_arg\<close> (None for a result other than 0, which fails
  the assertion) and \<open>fuse_main\<close> are libfuse's.  The result is what \<open>main\<close> returns, the arguments
  \<open>fuse_main\<close> was called with, if it was, and the text printed before and after.
\<close>

definition fs_main ::
    "(string list \<Rightarrow> options \<Rightarrow> (string \<times> opt_field \<times> int) list \<Rightarrow> (string list \<times> options) option) \<Rightarrow>
     (string list \<Rightarrow> string \<Rightarrow> string list option) \<Rightarrow> (string list \<Rightarrow> int) \<Rightarrow> string list \<Rightarrow>
     (int \<times> string list option \<times> string) result" where
  "fs_main fuse_opt_parse fuse_opt_add_arg fuse_main argv =
     (let out = ''started main'' @ [NEWLINE];
          options = \<lparr>filename = None, contents = None, show_help_opt = 0\<rparr> in
      case fuse_opt_parse argv options option_spec of
        None \<Rightarrow> Inr (1, None, out)
      | Some (args, options) \<Rightarrow>
          andthen
            (if show_help_opt options \<noteq> 0 then
               andthen (guard (argv \<noteq> []) NullDeref) (\<lambda>_.
               let out = out @ show_help (hd argv) in
               case fuse_opt_add_arg args ''--help'' of
                 None \<Rightarrow> Inl Aborted
               | Some args \<Rightarrow> andthen (guard (args \<noteq> []) NullDeref) (\<lambda>_. Inr ([] # tl args, out)))
             else Inr (args, out)) (\<lambda>(args, out).
          Inr (fuse_main args, Some args,
            out @ ''midel'' @ [NEWLINE] @ ''finish'' @ [NEWLINE])))"


section \<open>Properties\<close>

text \<open>C40. Without a connection, which cache_init tells nobody about, the file system still mounts:
  hello_init returns as if it had succeeded, getattr, access and readdir answer -ENOENT for
  every path, the root included, mkdir answers -EFAULT, and create runs off its end.\<close>

theorem no_server_answers:
  assumes "fd = - 1 \<or> \<not> connected"
  shows "start_fs fd connected serve J s = Inr (no_server, s) \<and>
    (valid_path p \<longrightarrow>
       (\<exists>b. hello_getattr no_server J p s = Inr (- ENOENT, b, s)) \<and>
       hello_access no_server J p s = Inr (- ENOENT, s) \<and>
       hello_readdir no_server J p s = Inr (- ENOENT, [], s)) \<and>
    (valid_path d \<and> valid_name n \<and> valid_path (join d n) \<longrightarrow>
       hello_mkdir no_server J (join d n) s = Inr (- EFAULT, s) \<and>
       hello_create no_server J (join d n) s = Inl NoReturn)"
proof (intro conjI impI)
  have "cache_init fd connected serve = (fd, no_server)" using assms by (auto simp: cache_init_def)
  then show "start_fs fd connected serve J s = Inr (no_server, s)" by (simp add: start_fs_def init_no_server)
next
  assume "valid_path p"
  then have g: "cache_get no_server J' p b s = Inr (- 1, b, s)" for J' b by (intro cache_get_no_server) simp
  show "\<exists>b. hello_getattr no_server J p s = Inr (- ENOENT, b, s)" by (simp add: hello_getattr_def g Let_def)
  show "hello_access no_server J p s = Inr (- ENOENT, s)" by (simp add: hello_access_def g)
  show "hello_readdir no_server J p s = Inr (- ENOENT, [], s)" by (simp add: hello_readdir_def g)
next
  assume "valid_path d \<and> valid_name n \<and> valid_path (join d n)"
  then have a: "addToParent no_server J' (join d n) s = Inr (- 1, s)" for J' by (intro addToParent_no_server) simp_all
  show "hello_mkdir no_server J (join d n) s = Inr (- EFAULT, s)" by (simp add: hello_mkdir_def a)
  show "hello_create no_server J (join d n) s = Inl NoReturn" by (simp add: hello_create_def a)
qed

theorem no_server_answers_witness:
  "start_fs 3 False ref_serve zero_junk sample_sock = Inr (no_server, sample_sock) \<and>
   hello_access no_server zero_junk ''/'' sample_sock = Inr (- ENOENT, sample_sock)"
  using no_server_answers [of 3 False ref_serve zero_junk sample_sock] by simp

text \<open>What \<open>main\<close> does with what libfuse makes of the arguments.\<close>

lemma fs_main_runs:
  assumes "parse argv \<lparr>filename = None, contents = None, show_help_opt = 0\<rparr> option_spec = Some (args, opts)"
  shows "show_help_opt opts = 0 \<Longrightarrow> fs_main parse add_arg fuse_main argv =
      Inr (fuse_main args, Some args, ''started main'' @ [NEWLINE] @ ''midel'' @ [NEWLINE] @ ''finish'' @ [NEWLINE])"
    "show_help_opt opts \<noteq> 0 \<Longrightarrow> argv \<noteq> [] \<Longrightarrow> add_arg args ''--help'' = Some (a # args') \<Longrightarrow>
     fs_main parse add_arg fuse_main argv =
      Inr (fuse_main ([] # args'), Some ([] # args'),
        ''started main'' @ [NEWLINE] @ show_help (hd argv) @ ''midel'' @ [NEWLINE] @ ''finish'' @ [NEWLINE])"
  using assms by (simp_all add: fs_main_def Let_def)

end
