(* ===== verification/Tokenizer.thy ===== *)
theory Tokenizer
  imports Prelude
begin

text \<open>
  The word splitter of the shell, \<open>hw1/tokenizer.c\<close>: a scanner with three modes, quotes and
  backslashes, and the vector of words it fills.

  The line is a C string, so its characters are not NUL.  Of the static array \<open>token\<close> the
  model keeps the first \<open>n\<close> bytes, the only ones that are read; a store behind its 4096 bytes is
  a fault.
\<close>

section \<open>Words and the vector that holds them\<close>

record tokens =
  tokens_length :: nat
  toks :: "string list"
  buffers_length :: nat
  buffers :: "string list"

definition no_tokens :: tokens where
  "no_tokens = \<lparr>tokens_length = 0, toks = [], buffers_length = 0, buffers = []\<rparr>"

text \<open>\<open>realloc\<close> to one more element, then a store at the old size.\<close>

definition vector_push :: "'a list \<Rightarrow> nat \<Rightarrow> 'a \<Rightarrow> 'a list \<times> nat" where
  "vector_push pointer sz elem = (take sz pointer @ [elem], sz + 1)"

text \<open>\<open>static char token[4096]\<close> and a store at \<open>token[n]\<close>, where \<open>n\<close> is the length of what is kept.\<close>

definition token_size :: nat where "token_size = 4096"

definition put_char :: "char \<Rightarrow> string \<Rightarrow> string result" where
  "put_char c token = andthen (guard (length token < token_size) Overrun) (\<lambda>_. Inr (token @ [c]))"

text \<open>\<open>source[n] = '\0'\<close>, which is a store into \<open>token\<close>, and the copy.\<close>

definition copy_word :: "string \<Rightarrow> string result" where
  "copy_word source = andthen (put_char NUL source) (\<lambda>source. Inr (cstr source))"

definition push_word :: "string \<Rightarrow> tokens \<Rightarrow> tokens result" where
  "push_word token ts =
     andthen (copy_word token) (\<lambda>word.
     let (v, l) = vector_push (toks ts) (tokens_length ts) word
      in Inr (ts\<lparr>toks := v, tokens_length := l\<rparr>))"


section \<open>The scanner\<close>

datatype mode = MODE_NORMAL | MODE_SQUOTE | MODE_DQUOTE

text \<open>\<open>isspace\<close> in the C locale.\<close>

definition isspace :: "char \<Rightarrow> bool" where
  "isspace c \<longleftrightarrow> c = CHR '' '' \<or> (9 \<le> (of_char c :: nat) \<and> (of_char c :: nat) \<le> 13)"

abbreviation backslash :: char where "backslash \<equiv> CHR 0x5C"
abbreviation squote :: char where "squote \<equiv> CHR 0x27"
abbreviation dquote :: char where "dquote \<equiv> CHR 0x22"

text \<open>\<open>if (i + 1 < line_length) token[n++] = line[++i];\<close>\<close>

definition take_escaped :: "string \<Rightarrow> string \<Rightarrow> (string \<times> string) result" where
  "take_escaped token rest =
     (case rest of
        [] \<Rightarrow> Inr (token, [])
      | d # rest \<Rightarrow> andthen (put_char d token) (\<lambda>token. Inr (token, rest)))"

text \<open>One iteration of the loop: the mode, the current token, the words and the rest of the line.\<close>

definition scan_char ::
    "mode \<Rightarrow> string \<Rightarrow> tokens \<Rightarrow> char \<Rightarrow> string \<Rightarrow> (mode \<times> string \<times> tokens \<times> string) result" where
  "scan_char mode token ts c rest =
     (case mode of
        MODE_NORMAL \<Rightarrow>
          if c = squote then Inr (MODE_SQUOTE, token, ts, rest)
          else if c = dquote then Inr (MODE_DQUOTE, token, ts, rest)
          else if c = backslash then
            andthen (take_escaped token rest) (\<lambda>(token, rest). Inr (MODE_NORMAL, token, ts, rest))
          else if isspace c then
            if length token > 0 then andthen (push_word token ts) (\<lambda>ts. Inr (MODE_NORMAL, [], ts, rest))
            else Inr (MODE_NORMAL, token, ts, rest)
          else andthen (put_char c token) (\<lambda>token. Inr (MODE_NORMAL, token, ts, rest))
      | MODE_SQUOTE \<Rightarrow>
          if c = squote then Inr (MODE_NORMAL, token, ts, rest)
          else if c = backslash then
            andthen (take_escaped token rest) (\<lambda>(token, rest). Inr (MODE_SQUOTE, token, ts, rest))
          else andthen (put_char c token) (\<lambda>token. Inr (MODE_SQUOTE, token, ts, rest))
      | MODE_DQUOTE \<Rightarrow>
          if c = dquote then Inr (MODE_NORMAL, token, ts, rest)
          else if c = backslash then
            andthen (take_escaped token rest) (\<lambda>(token, rest). Inr (MODE_DQUOTE, token, ts, rest))
          else andthen (put_char c token) (\<lambda>token. Inr (MODE_DQUOTE, token, ts, rest)))"

definition n_max :: nat where "n_max = 4096"

lemma scan_char_rest:
  "scan_char m t ts c rest = Inr (m', t', ts', rest') \<Longrightarrow> length rest' \<le> length rest"
  by (auto simp: scan_char_def take_escaped_def andthen_Inr_iff split: mode.splits if_splits list.splits)

function tokenize_loop ::
    "mode \<Rightarrow> string \<Rightarrow> tokens \<Rightarrow> string \<Rightarrow> (string \<times> tokens) result" where
  "tokenize_loop mode token ts [] = Inr (token, ts)"
| "tokenize_loop mode token ts (c # rest) =
     (case scan_char mode token ts c rest of
        Inl e \<Rightarrow> Inl e
      | Inr (mode, token, ts, rest) \<Rightarrow>
          if length token + 1 \<ge> n_max then Inl Aborted
          else tokenize_loop mode token ts rest)"
  by pat_completeness auto

termination
  by (relation "measure (\<lambda>(_, _, _, line). length line)")
     (auto dest: scan_char_rest split: prod.splits simp: le_imp_less_Suc)

definition tokenize :: "string option \<Rightarrow> tokens option result" where
  "tokenize line =
     (case line of
        None \<Rightarrow> Inr None
      | Some line \<Rightarrow>
          andthen (tokenize_loop MODE_NORMAL [] no_tokens line) (\<lambda>(token, ts).
          andthen (if length token > 0 then push_word token ts else Inr ts) (\<lambda>ts. Inr (Some ts))))"

definition tokens_get_length :: "tokens option \<Rightarrow> nat" where
  "tokens_get_length ts = (case ts of None \<Rightarrow> 0 | Some ts \<Rightarrow> tokens_length ts)"

text \<open>\<open>n\<close> is a \<open>size_t\<close>: an index of \<open>0 - 1\<close> is the largest one.\<close>

definition tokens_get_token :: "tokens option \<Rightarrow> 64 word \<Rightarrow> string option" where
  "tokens_get_token ts n =
     (case ts of
        None \<Rightarrow> None
      | Some ts \<Rightarrow> if unat n \<ge> tokens_length ts then None else Some (toks ts ! unat n))"


section \<open>The language of lines\<close>

text \<open>
  What a line is made of: blanks and pieces of words; a piece is a plain character, a
  backslashed one, or a quoted run, inside of which a backslash escapes too.
\<close>

datatype qchar = Bare char | Backslashed char

datatype item =
    Blank char
  | Plain char
  | Escaped char
  | Squoted "qchar list"
  | Dquoted "qchar list"

fun render_q :: "qchar \<Rightarrow> string" where
  "render_q (Bare c) = [c]"
| "render_q (Backslashed c) = [backslash, c]"

fun qvalue :: "qchar \<Rightarrow> char" where
  "qvalue (Bare c) = c"
| "qvalue (Backslashed c) = c"

fun render :: "item \<Rightarrow> string" where
  "render (Blank c) = [c]"
| "render (Plain c) = [c]"
| "render (Escaped c) = [backslash, c]"
| "render (Squoted qs) = squote # concat (map render_q qs) @ [squote]"
| "render (Dquoted qs) = dquote # concat (map render_q qs) @ [dquote]"

fun ok_q :: "char \<Rightarrow> qchar \<Rightarrow> bool" where
  "ok_q quote (Bare c) \<longleftrightarrow> c \<noteq> quote \<and> c \<noteq> backslash \<and> c \<noteq> NUL"
| "ok_q quote (Backslashed c) \<longleftrightarrow> c \<noteq> NUL"

fun ok_item :: "item \<Rightarrow> bool" where
  "ok_item (Blank c) \<longleftrightarrow> isspace c"
| "ok_item (Plain c) \<longleftrightarrow> c \<noteq> squote \<and> c \<noteq> dquote \<and> c \<noteq> backslash \<and> \<not> isspace c \<and> c \<noteq> NUL"
| "ok_item (Escaped c) \<longleftrightarrow> c \<noteq> NUL"
| "ok_item (Squoted qs) \<longleftrightarrow> list_all (ok_q squote) qs"
| "ok_item (Dquoted qs) \<longleftrightarrow> list_all (ok_q dquote) qs"

text \<open>The characters an item adds to the current word.\<close>

fun item_value :: "item \<Rightarrow> string" where
  "item_value (Blank c) = []"
| "item_value (Plain c) = [c]"
| "item_value (Escaped c) = [c]"
| "item_value (Squoted qs) = map qvalue qs"
| "item_value (Dquoted qs) = map qvalue qs"

text \<open>The words: the blanks separate, an empty word does not count.\<close>

fun words_of :: "string \<Rightarrow> item list \<Rightarrow> string list" where
  "words_of w [] = (if w = [] then [] else [w])"
| "words_of w (Blank c # is) = (if w = [] then [] else [w]) @ words_of [] is"
| "words_of w (i # is) = words_of (w @ item_value i) is"

end
