(* ===== verification/TokenizerProps.thy ===== *)
theory TokenizerProps
  imports Tokenizer
begin

text \<open>
  The scanner against the language of lines: what words a line has, when the program
  aborts, what holds of every line, and a way of quoting that survives the scanner.
\<close>

definition tokens_of :: "string list \<Rightarrow> tokens" where
  "tokens_of ws = \<lparr>tokens_length = length ws, toks = ws, buffers_length = 0, buffers = []\<rparr>"

lemma put_char_ok [simp]: "length w < 4096 \<Longrightarrow> put_char c w = Inr (w @ [c])"
  by (simp add: put_char_def token_size_def)

lemma below_n_max: "length w + 1 < n_max \<Longrightarrow> length w < 4096"
  by (simp add: n_max_def)

lemma cstr_stop: "NUL \<notin> set w \<Longrightarrow> cstr (w @ [NUL]) = w"
  by (induction w) (auto simp: cstr_def)

lemma push_word_tokens_of [simp]:
  "NUL \<notin> set w \<Longrightarrow> length w < 4096 \<Longrightarrow> push_word w (tokens_of ws) = Inr (tokens_of (ws @ [w]))"
  by (simp add: push_word_def vector_push_def copy_word_def cstr_stop tokens_of_def)

lemma no_tokens_of [simp]: "no_tokens = tokens_of []"
  by (simp add: no_tokens_def tokens_of_def)

lemma isspace_plain [simp]: "\<not> isspace squote" "\<not> isspace dquote" "\<not> isspace backslash" "\<not> isspace NUL"
  by (simp_all add: isspace_def)

text \<open>The two quote modes are one mode with a parameter.\<close>

definition quote_of :: "mode \<Rightarrow> char" where
  "quote_of m = (if m = MODE_DQUOTE then dquote else squote)"

lemma scan_quoted:
  assumes "m \<noteq> MODE_NORMAL"
  shows "scan_char m w ts c rest =
    (if c = quote_of m then Inr (MODE_NORMAL, w, ts, rest)
     else if c = backslash then andthen (take_escaped w rest) (\<lambda>(w, rest). Inr (m, w, ts, rest))
     else andthen (put_char c w) (\<lambda>w. Inr (m, w, ts, rest)))"
  using assms by (cases m) (simp_all add: scan_char_def quote_of_def)

lemma loop_quoted:
  assumes "m \<noteq> MODE_NORMAL"
  shows "list_all (ok_q (quote_of m)) qs \<Longrightarrow> length w + 1 < n_max \<Longrightarrow>
    tokenize_loop m w ts (concat (map render_q qs) @ quote_of m # r) =
      (if length w + length qs + 1 < n_max then tokenize_loop MODE_NORMAL (w @ map qvalue qs) ts r
       else Inl Aborted)"
proof (induction qs arbitrary: w)
  case Nil
  then show ?case by (simp add: scan_quoted [OF assms])
next
  case (Cons q qs)
  have "backslash \<noteq> quote_of m" by (simp add: quote_of_def)
  then have "tokenize_loop m w ts (concat (map render_q (q # qs)) @ quote_of m # r) =
      (if length w + 2 < n_max
       then tokenize_loop m (w @ [qvalue q]) ts (concat (map render_q qs) @ quote_of m # r)
       else Inl Aborted)"
    using Cons.prems below_n_max [OF Cons.prems(2)]
    by (cases q) (simp_all add: scan_quoted [OF assms] take_escaped_def)
  then show ?case using Cons.IH [of "w @ [qvalue q]"] Cons.prems by simp
qed

text \<open>One item of the line.\<close>

definition add_item :: "string \<Rightarrow> string list \<Rightarrow> item \<Rightarrow> string \<times> string list" where
  "add_item w ws i =
     (case i of Blank c \<Rightarrow> ([], if w = [] then ws else ws @ [w]) | _ \<Rightarrow> (w @ item_value i, ws))"

lemma loop_item:
  assumes "ok_item i" "NUL \<notin> set w" "length w + 1 < n_max"
  shows "tokenize_loop MODE_NORMAL w (tokens_of ws) (render i @ r) =
    (case add_item w ws i of (w', ws') \<Rightarrow>
       if length w' + 1 < n_max then tokenize_loop MODE_NORMAL w' (tokens_of ws') r
       else Inl Aborted)"
proof (cases i)
  case (Squoted qs)
  then show ?thesis
    using assms loop_quoted [of MODE_SQUOTE qs w "tokens_of ws" r]
    by (simp add: scan_char_def quote_of_def add_item_def)
next
  case (Dquoted qs)
  then show ?thesis
    using assms loop_quoted [of MODE_DQUOTE qs w "tokens_of ws" r]
    by (simp add: scan_char_def quote_of_def add_item_def)
qed (use assms below_n_max [OF assms(3)] in \<open>auto simp: scan_char_def add_item_def take_escaped_def\<close>)

lemma item_value_no_NUL: "ok_item i \<Longrightarrow> NUL \<notin> set (item_value i)"
proof (cases i)
  case (Squoted qs)
  assume "ok_item i"
  then have "qvalue q \<noteq> NUL" if "q \<in> set qs" for q
    using Squoted that by (cases q) (auto simp: list_all_iff)
  then show ?thesis unfolding Squoted by (simp add: image_iff) metis
next
  case (Dquoted qs)
  assume "ok_item i"
  then have "qvalue q \<noteq> NUL" if "q \<in> set qs" for q
    using Dquoted that by (cases q) (auto simp: list_all_iff)
  then show ?thesis unfolding Dquoted by (simp add: image_iff) metis
qed auto

lemma words_of_add_item:
  "ws @ words_of w (i # is) = (case add_item w ws i of (w', ws') \<Rightarrow> ws' @ words_of w' is)"
  by (cases i) (simp_all add: add_item_def)

text \<open>The word under construction is the beginning of one of the words to come.\<close>

lemma words_of_current: "w \<noteq> [] \<Longrightarrow> \<exists>x xs. words_of w is = (w @ x) # xs"
proof (induction "is" arbitrary: w)
  case Nil
  then show ?case by simp
next
  case (Cons i "is")
  show ?case
  proof (cases "\<exists>c. i = Blank c")
    case True
    then show ?thesis using Cons.prems by auto
  next
    case False
    then have "words_of w (i # is) = words_of (w @ item_value i) is" by (cases i) auto
    then show ?thesis using Cons.IH [of "w @ item_value i"] Cons.prems by auto
  qed
qed

lemma loop_items:
  "list_all ok_item is \<Longrightarrow> NUL \<notin> set w \<Longrightarrow> length w + 1 < n_max \<Longrightarrow>
   (\<forall>x \<in> set ws. length x + 1 < n_max) \<Longrightarrow>
   andthen (tokenize_loop MODE_NORMAL w (tokens_of ws) (concat (map render is)))
     (\<lambda>(token, ts). andthen (if length token > 0 then push_word token ts else Inr ts) (\<lambda>ts. Inr (Some ts)))
   = (if \<forall>x \<in> set (ws @ words_of w is). length x + 1 < n_max
      then Inr (Some (tokens_of (ws @ words_of w is))) else Inl Aborted)"
proof (induction "is" arbitrary: w ws)
  case Nil
  then show ?case using below_n_max [OF Nil.prems(3)] by simp
next
  case (Cons i "is")
  obtain w' ws' where a: "add_item w ws i = (w', ws')" by fastforce
  have ok: "ok_item i" "list_all ok_item is" using Cons.prems(1) by simp_all
  have w': "NUL \<notin> set w'" "\<forall>x \<in> set ws'. length x + 1 < n_max"
    using a Cons.prems(2-4) item_value_no_NUL [OF ok(1)]
    by (auto simp: add_item_def split: item.splits if_splits)
  have e: "ws @ words_of w (i # is) = ws' @ words_of w' is"
    using words_of_add_item [of ws w i "is"] a by simp
  show ?case
  proof (cases "length w' + 1 < n_max")
    case True
    then show ?thesis
      using Cons.IH [OF ok(2) w'(1) True w'(2)] loop_item [OF ok(1) Cons.prems(2,3)] a
      unfolding e by simp
  next
    case False
    then have "w' \<noteq> []" by (auto simp: n_max_def)
    then obtain x xs where "words_of w' is = (w' @ x) # xs" using words_of_current by blast
    then show ?thesis
      using loop_item [OF ok(1) Cons.prems(2,3)] a False unfolding e by auto
  qed
qed

text \<open>C11. On a line made of blanks, plain and backslashed characters and quoted runs, tokenize gives
  the words of the line, in order; it aborts exactly when one of them has 4095 characters or
  more.\<close>

theorem tokenize_correct:
  assumes "list_all ok_item is"
  shows "tokenize (Some (concat (map render is))) =
    (if \<forall>w \<in> set (words_of [] is). length w < 4095
     then Inr (Some (tokens_of (words_of [] is))) else Inl Aborted)"
proof -
  have "length w + 1 < n_max \<longleftrightarrow> length w < 4095" for w :: string by (auto simp: n_max_def)
  then show ?thesis
    using loop_items [OF assms, of "[]" "[]"] by (simp add: tokenize_def n_max_def)
qed

theorem tokenize_correct_witness:
  "tokenize (Some ''a' b'c  d'' ) = Inr (Some (tokens_of [''a bc'', ''d'']))"
  using tokenize_correct [of "[Plain CHR ''a'', Squoted [Bare CHR '' '', Bare CHR ''b''],
      Plain CHR ''c'', Blank CHR '' '', Blank CHR '' '', Plain CHR ''d'']"]
  by (simp add: isspace_def)


section \<open>Every line\<close>

text \<open>What the scanner keeps invariant; \<open>n\<close> bounds the characters collected.\<close>

definition scan_inv :: "nat \<Rightarrow> string \<Rightarrow> tokens \<Rightarrow> string \<Rightarrow> bool" where
  "scan_inv n w ts line \<longleftrightarrow>
     (\<exists>ws. ts = tokens_of ws \<and> (\<forall>x \<in> set ws. x \<noteq> [] \<and> length x < 4095) \<and> NUL \<notin> set w \<union> set line \<and>
           length w < 4095 \<and> sum_list (map length ws) + length w + length line \<le> n)"

lemma scan_char_shape:
  assumes "scan_char m w ts c rest = Inr (m', w', ts', rest')"
  shows "(w' = w \<and> ts' = ts \<and> rest' = rest) \<or> (w' = w @ [c] \<and> ts' = ts \<and> rest' = rest) \<or>
    (\<exists>d. w' = w @ [d] \<and> ts' = ts \<and> rest = d # rest') \<or>
    (w \<noteq> [] \<and> w' = [] \<and> push_word w ts = Inr ts' \<and> rest' = rest)"
  using assms
  by (cases m) (auto simp: scan_char_def take_escaped_def put_char_def guard_def andthen_Inr_iff split: if_splits list.splits)

text \<open>With room for one character and the terminator every store is inside of \<open>token\<close>.\<close>

lemma scan_char_no_fault:
  assumes "scan_inv n w ts line"
  shows "\<exists>y. scan_char m w ts c rest = Inr y"
proof -
  have "length w < 4096" "\<exists>y. push_word w ts = Inr y" using assms by (auto simp: scan_inv_def)
  then show ?thesis by (cases m) (auto simp: scan_char_def take_escaped_def split: list.splits)
qed

lemma scan_inv_step:
  assumes "scan_inv n w ts (c # rest)" "scan_char m w ts c rest = Inr (m', w', ts', rest')"
    "length w' < 4095"
  shows "scan_inv n w' ts' rest'"
proof -
  obtain ws where ws: "ts = tokens_of ws" "\<forall>x \<in> set ws. x \<noteq> [] \<and> length x < 4095"
    "NUL \<notin> set w \<union> set (c # rest)" "length w < 4095"
    "sum_list (map length ws) + length w + length (c # rest) \<le> n"
    using assms(1) by (auto simp: scan_inv_def)
  from scan_char_shape [OF assms(2)] show ?thesis
    using ws assms(3) unfolding scan_inv_def
    by (elim disjE exE conjE; intro exI [of _ "if w \<noteq> [] \<and> w' = [] then ws @ [w] else ws"]; simp)
qed

lemma loop_inv:
  "scan_inv n w ts line \<Longrightarrow>
   (case tokenize_loop m w ts line of
      Inl e \<Rightarrow> e = Aborted \<and> 4095 \<le> n
    | Inr (w', ts') \<Rightarrow> scan_inv n w' ts' [])"
proof (induction m w ts line rule: tokenize_loop.induct)
  case (1 m w ts)
  then show ?case by simp
next
  case (2 m w ts c rest)
  obtain y where y: "scan_char m w ts c rest = Inr y" using scan_char_no_fault [OF 2(2)] by blast
  obtain m' w' ts' rest' where t: "y = (m', w', ts', rest')" by (cases y) auto
  note s = y [unfolded t]
  have "length w' \<le> length w + 1" using scan_char_shape [OF s] by auto
  then have le: "length w' \<le> n" using 2(2) by (auto simp: scan_inv_def)
  show ?case
  proof (cases "length w' + 1 \<ge> n_max")
    case True
    then show ?thesis using s le by (simp add: n_max_def)
  next
    case False
    then have "scan_inv n w' ts' rest'" using scan_inv_step [OF 2(2) s] by (simp add: n_max_def)
    then show ?thesis using 2(1) [OF s refl refl refl] s False by simp
  qed
qed

text \<open>C31. On any line every store of tokenize, the terminators included, is inside of the 4096
  bytes of its token array (a store behind it would be the fault Overrun): tokenize either aborts,
  which takes a line of at least 4095 characters, or returns words that are not empty, shorter than 4095 characters and together no longer than
  the line, with a length field that counts them.\<close>

theorem tokenize_bounds:
  assumes "NUL \<notin> set line"
  shows "(tokenize (Some line) = Inl Aborted \<and> 4095 \<le> length line) \<or>
    (\<exists>ws. tokenize (Some line) = Inr (Some (tokens_of ws)) \<and>
      (\<forall>w \<in> set ws. w \<noteq> [] \<and> length w < 4095) \<and> sum_list (map length ws) \<le> length line)"
proof -
  have "scan_inv (length line) [] no_tokens line"
    using assms by (auto simp: scan_inv_def intro: exI [of _ "[]"])
  then have inv: "case tokenize_loop MODE_NORMAL [] no_tokens line of
      Inl e \<Rightarrow> e = Aborted \<and> 4095 \<le> length line
    | Inr (w', ts') \<Rightarrow> scan_inv (length line) w' ts' []" by (rule loop_inv)
  show ?thesis
  proof (cases "tokenize_loop MODE_NORMAL [] no_tokens line")
    case (Inl e)
    then show ?thesis using inv by (simp add: tokenize_def)
  next
    case (Inr r)
    obtain w ts where r: "r = (w, ts)" by fastforce
    obtain ws where ws: "ts = tokens_of ws" "\<forall>x \<in> set ws. x \<noteq> [] \<and> length x < 4095"
      "NUL \<notin> set w" "length w < 4095" "sum_list (map length ws) + length w \<le> length line"
      using inv Inr r by (auto simp: scan_inv_def)
    then show ?thesis
      using Inr r by (intro disjI2 exI [of _ "ws @ (if w = [] then [] else [w])"])
        (auto simp: tokenize_def)
  qed
qed

theorem tokenize_bounds_witness:
  "\<exists>ws. tokenize (Some ''ls  \"\" -l'') = Inr (Some (tokens_of ws)) \<and> sum_list (map length ws) \<le> 9"
  using tokenize_bounds [of "''ls  \"\" -l''"] by auto


section \<open>Quoting\<close>







end
