(* ===== verification/Shell.thy ===== *)
theory Shell
  imports TokenizerProps
begin

text \<open>
  The shell \<open>hw1/shell.c\<close>: the table of built-in commands, the search for a program along
  \<open>PATH\<close>, redirections, background commands, and the loop over the lines.

  The file system and the kernel are parameters: \<open>exists_file\<close> is \<open>access(name, F_OK) != -1\<close>,
  \<open>can_open\<close> says whether an \<open>open\<close> succeeds, \<open>env_path\<close> is \<open>getenv("PATH")\<close>.  What a line
  makes the shell do is an \<open>event\<close>; \<open>fork\<close> succeeds, and the child's part of the code yields
  what the child does.
\<close>

section \<open>Built-in commands\<close>

datatype cmd_fun = cmd_help | cmd_exit | cmd_pwd | cmd_cd | cmd_wait

record fun_desc =
  desc_fun :: cmd_fun
  desc_cmd :: string
  desc_doc :: string

definition cmd_table :: "fun_desc list" where
  "cmd_table =
     [\<lparr>desc_fun = cmd_help, desc_cmd = ''?'', desc_doc = ''show this help menu''\<rparr>,
      \<lparr>desc_fun = cmd_exit, desc_cmd = ''exit'', desc_doc = ''exit the command shell''\<rparr>,
      \<lparr>desc_fun = cmd_pwd, desc_cmd = ''pwd'', desc_doc = ''prints the current working directory''\<rparr>,
      \<lparr>desc_fun = cmd_cd, desc_cmd = ''cd'', desc_doc = ''changes the current working directory''\<rparr>,
      \<lparr>desc_fun = cmd_wait, desc_cmd = ''wait'', desc_doc = ''waits for all background processes''\<rparr>]"

text \<open>The loop of \<open>lookup\<close> from index \<open>i\<close> on.\<close>

fun lookup_from :: "int \<Rightarrow> fun_desc list \<Rightarrow> string option \<Rightarrow> int" where
  "lookup_from i [] cmd = - 1"
| "lookup_from i (d # ds) cmd =
     (if cmd \<noteq> None \<and> desc_cmd d = the cmd then i else lookup_from (i + 1) ds cmd)"

definition lookup :: "string option \<Rightarrow> int" where
  "lookup cmd = lookup_from 0 cmd_table cmd"

definition help_text :: string where
  "help_text = concat (map (\<lambda>d. desc_cmd d @ '' - '' @ desc_doc d @ [NEWLINE]) cmd_table)"

text \<open>
  \<open>cmd_wait\<close>: \<open>for (i = numBack - 1; i >= 0; i--)\<close>, from \<open>i = k - 1\<close> on; how often \<open>wait\<close> is
  called, and \<open>numBack\<close> afterwards.
\<close>

primrec wait_loop :: "nat \<Rightarrow> nat \<Rightarrow> int \<Rightarrow> nat \<times> int" where
  "wait_loop 0 waits numBack = (waits, numBack)"
| "wait_loop (Suc k) waits numBack = wait_loop k (waits + 1) (int k)"

definition cmd_wait_run :: "int \<Rightarrow> nat \<times> int" where
  "cmd_wait_run numBack = wait_loop (nat numBack) 0 numBack"

text \<open>\<open>cmd_cd\<close>: the directory it changes to, if it has an argument.\<close>

definition cmd_cd_run :: "tokens option \<Rightarrow> string option" where
  "cmd_cd_run ts = (if tokens_get_length ts > 1 then tokens_get_token ts 1 else None)"


section \<open>Finding the program\<close>

definition PATH_MAX :: nat where "PATH_MAX = 4096"

definition strcat :: "string \<Rightarrow> string \<Rightarrow> string result" where
  "strcat dst src =
     (let n = length (cstr dst) in
      if n + length src < length dst
      then Inr (take n dst @ src @ NUL # drop (n + length src + 1) dst) else Inl Overrun)"

text \<open>One call of \<open>strtok_r\<close>: the token, and what \<open>saveptr\<close> points to afterwards.\<close>

definition strtok_r :: "char \<Rightarrow> string \<Rightarrow> string option \<times> string" where
  "strtok_r delim s =
     (let s = dropWhile (\<lambda>c. c = delim) s in
      if s = [] then (None, [])
      else (Some (takeWhile (\<lambda>c. c \<noteq> delim) s), drop 1 (dropWhile (\<lambda>c. c \<noteq> delim) s)))"

lemma strtok_r_shorter: "strtok_r delim s = (Some t, r) \<Longrightarrow> length r < length s"
proof -
  assume a: "strtok_r delim s = (Some t, r)"
  define u where "u = dropWhile (\<lambda>c. c = delim) s"
  have "u \<noteq> []" "r = drop 1 (dropWhile (\<lambda>c. c \<noteq> delim) u)"
    using a by (auto simp: strtok_r_def u_def Let_def split: if_splits)
  moreover have "length u \<le> length s" "length (dropWhile (\<lambda>c. c \<noteq> delim) u) \<le> length u"
    by (simp_all add: u_def length_dropWhile_le)
  ultimately show ?thesis by (cases "dropWhile (\<lambda>c. c \<noteq> delim) u") (auto simp: Suc_le_eq)
qed

text \<open>The loop over the directories; \<open>k\<close> counts the blocks \<open>malloc\<close> has returned.\<close>

function directory_loop ::
    "(string \<Rightarrow> bool) \<Rightarrow> junk \<Rightarrow> nat \<Rightarrow> string \<Rightarrow> string \<Rightarrow> string option result" where
  "directory_loop exists_file J k path name =
     (case strtok_r (CHR '':'') path of
        (None, _) \<Rightarrow> Inr None
      | (Some token, saveptr) \<Rightarrow>
          andthen (strcat (uninit (at J (dec_nat k)) ''cur'' PATH_MAX) token) (\<lambda>cur.
          andthen (strcat cur ''/'') (\<lambda>cur.
          andthen (strcat cur name) (\<lambda>cur.
          if exists_file (cstr cur) then Inr (Some (cstr cur))
          else directory_loop exists_file J (k + 1) saveptr name))))"
  by pat_completeness auto
termination
  by (relation "measure (\<lambda>(_, _, _, path, _). length path)")
     (simp_all, metis strtok_r_shorter)

declare directory_loop.simps [simp del]

text \<open>Without a \<open>PATH\<close>, \<open>strtok_r(NULL, ...)\<close> reads through a \<open>saveptr\<close> that was never set.\<close>

definition getDirectory ::
    "(string \<Rightarrow> bool) \<Rightarrow> string option \<Rightarrow> junk \<Rightarrow> string \<Rightarrow> string option result" where
  "getDirectory exists_file env_path J name =
     (if exists_file name then Inr (Some name)
      else case env_path of
        None \<Rightarrow> Inl Overrun
      | Some path \<Rightarrow> directory_loop exists_file J 0 path name)"


section \<open>Redirections and arguments\<close>

datatype redirection = Append "string option" | Input "string option"

text \<open>What standard output and standard input are: None as long as they are the shell's.\<close>

record fds =
  stdout_to :: "string option"
  stdin_from :: "string option"

definition redirect :: "(redirection \<Rightarrow> bool) \<Rightarrow> redirection \<Rightarrow> fds \<Rightarrow> fds" where
  "redirect can_open r f =
     (if can_open r
      then (case r of Append n \<Rightarrow> f\<lparr>stdout_to := n\<rparr> | Input n \<Rightarrow> f\<lparr>stdin_from := n\<rparr>) else f)"

function params_loop ::
    "(redirection \<Rightarrow> bool) \<Rightarrow> tokens option \<Rightarrow> nat \<Rightarrow> nat \<Rightarrow> string list \<Rightarrow> fds \<Rightarrow> (string list \<times> fds) result" where
  "params_loop can_open ts num_params i params f =
     (if i < num_params then
        (case tokens_get_token ts (of_nat i) of
           None \<Rightarrow> Inl NullDeref
         | Some curStr \<Rightarrow>
             if curStr \<noteq> [] \<and> hd curStr = CHR ''>'' then
               params_loop can_open ts num_params (i + 2) params
                 (redirect can_open (Append (tokens_get_token ts (of_nat (i + 1)))) f)
             else if curStr \<noteq> [] \<and> hd curStr = CHR ''<'' then
               params_loop can_open ts num_params (i + 2) params
                 (redirect can_open (Input (tokens_get_token ts (of_nat (i + 1)))) f)
             else
               andthen (guard (length params < num_params) Overrun) (\<lambda>_.
               params_loop can_open ts num_params (i + 1) (params @ [curStr]) f))
      else Inr (params, f))"
  by pat_completeness auto
termination by (relation "measure (\<lambda>(_, _, num_params, i, _). num_params - i)") auto

declare params_loop.simps [simp del]

text \<open>
  What the child does.  The array \<open>params\<close> has \<open>num_params\<close> elements, and the NULL that ends
  the arguments is one more store.
\<close>

datatype child = NotFound | Execv string "string list"

definition run_child ::
    "(string \<Rightarrow> bool) \<Rightarrow> string option \<Rightarrow> (redirection \<Rightarrow> bool) \<Rightarrow> junk \<Rightarrow> tokens option \<Rightarrow> nat \<Rightarrow>
     (child \<times> fds) result" where
  "run_child exists_file env_path can_open J ts num_params =
     andthen (params_loop can_open ts num_params 0 [] \<lparr>stdout_to = None, stdin_from = None\<rparr>) (\<lambda>(params, f).
     andthen (guard (length params < num_params) Overrun) (\<lambda>_.
     case tokens_get_token ts 0 of
       None \<Rightarrow> Inl NullDeref
     | Some cmd \<Rightarrow>
         andthen (getDirectory exists_file env_path J cmd) (\<lambda>name.
         case name of None \<Rightarrow> Inr (NotFound, f) | Some name \<Rightarrow> Inr (Execv name params, f))))"


section \<open>The loop over the lines\<close>

datatype event =
    Help string
  | Exit
  | Pwd
  | Cd "string option"
  | Waited nat
  | Foreground "(child \<times> fds) result"
  | Background "(child \<times> fds) result"
  | Prompted int

definition run_builtin :: "cmd_fun \<Rightarrow> tokens option \<Rightarrow> int \<Rightarrow> event \<times> int" where
  "run_builtin f ts numBack =
     (case f of
        cmd_help \<Rightarrow> (Help help_text, numBack)
      | cmd_exit \<Rightarrow> (Exit, numBack)
      | cmd_pwd \<Rightarrow> (Pwd, numBack)
      | cmd_cd \<Rightarrow> (Cd (cmd_cd_run ts), numBack)
      | cmd_wait \<Rightarrow> (let (n, numBack) = cmd_wait_run numBack in (Waited n, numBack)))"

text \<open>One line: what happens, and \<open>numBack\<close> afterwards (a 32-bit \<open>int\<close>).\<close>

definition shell_step ::
    "(string \<Rightarrow> bool) \<Rightarrow> string option \<Rightarrow> (redirection \<Rightarrow> bool) \<Rightarrow> junk \<Rightarrow> string \<Rightarrow> int \<Rightarrow>
     (event \<times> int) result" where
  "shell_step exists_file env_path can_open J line numBack =
     andthen (tokenize (Some (cstr line))) (\<lambda>ts.
     let fundex = lookup (tokens_get_token ts 0) in
     if fundex \<ge> 0 then Inr (run_builtin (desc_fun (cmd_table ! nat fundex)) ts numBack)
     else
       let num_params = tokens_get_length ts in
       case tokens_get_token ts (of_nat num_params - 1) of
         None \<Rightarrow> Inl NullDeref
       | Some lastw \<Rightarrow>
           if lastw \<noteq> [] \<and> hd lastw = CHR ''&'' then
             Inr (Background (run_child exists_file env_path can_open J ts (num_params - 1)), to_int (numBack + 1))
           else Inr (Foreground (run_child exists_file env_path can_open J ts num_params), numBack))"

text \<open>
  The lines \<open>fgets\<close> delivers, until the end of the input or \<open>exit\<close>, with the prompts of an
  interactive shell between them.
\<close>

fun shell_main ::
    "(string \<Rightarrow> bool) \<Rightarrow> string option \<Rightarrow> (redirection \<Rightarrow> bool) \<Rightarrow> bool \<Rightarrow> junk \<Rightarrow> nat \<Rightarrow> string list \<Rightarrow> int \<Rightarrow> int \<Rightarrow>
     event list \<Rightarrow> event list result" where
  "shell_main exists_file env_path can_open interactive J k [] line_num numBack es = Inr es"
| "shell_main exists_file env_path can_open interactive J k (line # ls) line_num numBack es =
     andthen (shell_step exists_file env_path can_open (at J (dec_nat k)) line numBack) (\<lambda>(e, numBack).
     if e = Exit then Inr (es @ [e])
     else if interactive then
       let line_num = to_int (line_num + 1) in
       shell_main exists_file env_path can_open interactive J (k + 1) ls line_num numBack
         (es @ [e, Prompted line_num])
     else shell_main exists_file env_path can_open interactive J (k + 1) ls line_num numBack (es @ [e]))"

definition shell ::
    "(string \<Rightarrow> bool) \<Rightarrow> string option \<Rightarrow> (redirection \<Rightarrow> bool) \<Rightarrow> bool \<Rightarrow> junk \<Rightarrow> string list \<Rightarrow> event list result" where
  "shell exists_file env_path can_open interactive J ls =
     shell_main exists_file env_path can_open interactive J 0 ls 0 0 (if interactive then [Prompted 0] else [])"

end
