(* ===== verification/ShellProps.thy ===== *)
theory ShellProps
  imports Shell
begin

text \<open>
  The properties of the shell: which program a command line runs, with which arguments and
  redirections; where it is looked for; and the lines that make the shell or its child go wrong.
\<close>

section \<open>Words and redirections\<close>

definition starts :: "char \<Rightarrow> string \<Rightarrow> bool" where
  "starts c w \<longleftrightarrow> w \<noteq> [] \<and> hd w = c"

definition is_redirection :: "string \<Rightarrow> bool" where
  "is_redirection w \<longleftrightarrow> starts (CHR ''>'') w \<or> starts (CHR ''<'') w"

definition redirection_of :: "string \<Rightarrow> string option \<Rightarrow> redirection" where
  "redirection_of w n = (if starts (CHR ''>'') w then Append n else Input n)"

text \<open>
  A word that starts with an angle bracket takes the next word as its file, and \<open>nx\<close> after the
  last one; all other words are arguments.
\<close>

fun split_line :: "(redirection \<Rightarrow> bool) \<Rightarrow> string option \<Rightarrow> string list \<Rightarrow> fds \<Rightarrow> string list \<times> fds" where
  "split_line can_open nx [] f = ([], f)"
| "split_line can_open nx [w] f =
     (if is_redirection w then ([], redirect can_open (redirection_of w nx) f) else ([w], f))"
| "split_line can_open nx (w # x # ws) f =
     (if is_redirection w
      then split_line can_open nx ws (redirect can_open (redirection_of w (Some x)) f)
      else (let (args, f) = split_line can_open nx (x # ws) f in (w # args, f)))"

abbreviation own_fds :: fds where
  "own_fds \<equiv> \<lparr>stdout_to = None, stdin_from = None\<rparr>"

lemma split_line_plain:
  "\<forall>w \<in> set ws. \<not> is_redirection w \<Longrightarrow> split_line can_open nx ws f = (ws, f)"
  by (induction can_open nx ws f rule: split_line.induct) auto

lemma split_line_le: "length (fst (split_line can_open nx ws f)) \<le> length ws"
  by (induction can_open nx ws f rule: split_line.induct) (auto split: prod.splits)

lemma split_line_less:
  "\<exists>w \<in> set ws. is_redirection w \<Longrightarrow> length (fst (split_line can_open nx ws f)) < length ws"
proof (induction can_open nx ws f rule: split_line.induct)
  case (3 can_open nx w x ws f)
  show ?case
  proof (cases "is_redirection w")
    case True
    then show ?thesis
      using split_line_le [of can_open nx ws "redirect can_open (redirection_of w (Some x)) f"] by simp
  next
    case False
    then show ?thesis using 3 by (auto split: prod.splits)
  qed
qed auto

lemma token_at:
  "length ws < 18446744073709551616 \<Longrightarrow> i < 18446744073709551616 \<Longrightarrow>
   tokens_get_token (Some (tokens_of ws)) (of_nat i) = (if i < length ws then Some (ws ! i) else None)"
  by (simp add: tokens_get_token_def tokens_of_def unsigned_of_nat take_bit_nat_eq_self)

lemma params_loop_end: "k \<le> i \<Longrightarrow> params_loop can_open ts k i params f = Inr (params, f)"
  by (simp add: params_loop.simps)

lemma params_loop_spec:
  assumes "length ws < 9223372036854775808" "k \<le> length ws"
  shows "i \<le> k \<Longrightarrow> length params \<le> i \<Longrightarrow>
    params_loop can_open (Some (tokens_of ws)) k i params f =
      (let (args, f) = split_line can_open (if k < length ws then Some (ws ! k) else None) (drop i (take k ws)) f
       in Inr (params @ args, f))"
proof (induction "k - i" arbitrary: i params f rule: less_induct)
  case less
  let ?nx = "if k < length ws then Some (ws ! k) else None"
  show ?case
  proof (cases "i < k")
    case False
    then show ?thesis using less.prems by (simp add: params_loop.simps)
  next
    case True
    have w: "tokens_get_token (Some (tokens_of ws)) (of_nat i) = Some (ws ! i)"
      using True assms by (simp add: token_at)
    have n: "tokens_get_token (Some (tokens_of ws)) (of_nat (i + 1)) =
        (if i + 1 < length ws then Some (ws ! (i + 1)) else None)"
      using True assms by (subst token_at) simp_all
    have d: "drop i (take k ws) = ws ! i # drop (i + 1) (take k ws)"
      using True assms by (simp add: Cons_nth_drop_Suc [symmetric])
    consider (redir) "is_redirection (ws ! i)" | (arg) "\<not> is_redirection (ws ! i)" by blast
    then show ?thesis
    proof cases
      case redir
      have step: "params_loop can_open (Some (tokens_of ws)) k i params f =
          params_loop can_open (Some (tokens_of ws)) k (i + 2) params
            (redirect can_open (redirection_of (ws ! i) (if i + 1 < length ws then Some (ws ! (i + 1)) else None)) f)"
        using True w n redir
        by (subst params_loop.simps) (auto simp: is_redirection_def starts_def redirection_of_def)
      show ?thesis
      proof (cases "i + 1 < k")
        case True
        then have "drop (i + 1) (take k ws) = ws ! (i + 1) # drop (i + 2) (take k ws)"
          using assms by (simp add: Cons_nth_drop_Suc [symmetric])
        then show ?thesis
          using True assms less.hyps [of "i + 2" params] less.prems redir by (simp add: step d)
      next
        case False
        then have k: "k = i + 1" and e: "drop (i + 1) (take k ws) = []" using \<open>i < k\<close> by simp_all
        show ?thesis unfolding step d e using redir k by (simp add: params_loop_end)
      qed
    next
      case arg
      have step: "params_loop can_open (Some (tokens_of ws)) k i params f =
          params_loop can_open (Some (tokens_of ws)) k (i + 1) (params @ [ws ! i]) f"
        using True w arg less.prems
        by (subst params_loop.simps) (auto simp: is_redirection_def starts_def)
      show ?thesis
        using less.hyps [of "i + 1" "params @ [ws ! i]" f] less.prems True arg
        by (cases "drop (i + 1) (take k ws)") (simp_all add: step d split: prod.splits)
    qed
  qed
qed

section \<open>The search along PATH\<close>

fun path_dirs :: "string \<Rightarrow> string \<Rightarrow> string list" where
  "path_dirs w [] = (if w = [] then [] else [w])"
| "path_dirs w (c # s) =
     (if c = CHR '':'' then (if w = [] then [] else [w]) @ path_dirs [] s else path_dirs (w @ [c]) s)"

lemma path_dirs_skip: "path_dirs [] (dropWhile (\<lambda>c. c = CHR '':'') s) = path_dirs [] s"
  by (induction s) simp_all

lemma path_dirs_word:
  "w \<noteq> [] \<Longrightarrow> path_dirs w s =
     (w @ takeWhile (\<lambda>c. c \<noteq> CHR '':'') s) # path_dirs [] (drop 1 (dropWhile (\<lambda>c. c \<noteq> CHR '':'') s))"
  by (induction s arbitrary: w) simp_all

lemma path_dirs_strtok:
  "path_dirs [] s = (case strtok_r (CHR '':'') s of (None, _) \<Rightarrow> [] | (Some d, r) \<Rightarrow> d # path_dirs [] r)"
proof (cases "dropWhile (\<lambda>c. c = CHR '':'') s")
  case Nil
  then show ?thesis using path_dirs_skip [of s] unfolding strtok_r_def Let_def Nil by simp
next
  case (Cons c u)
  then have "c \<noteq> CHR '':''" using hd_dropWhile [of "\<lambda>c. c = CHR '':''" s] by simp
  then show ?thesis
    using path_dirs_skip [of s] path_dirs_word [of "[c]" u] Cons by (simp add: strtok_r_def)
qed

text \<open>
  The names that are tried.  The block \<open>malloc\<close> returns is not cleared before the first
  \<open>strcat\<close>, so whatever text it holds comes first.
\<close>

fun candidates :: "junk \<Rightarrow> nat \<Rightarrow> string list \<Rightarrow> string \<Rightarrow> string list" where
  "candidates J k [] name = []"
| "candidates J k (d # ds) name =
     (cstr (uninit (at J (dec_nat k)) ''cur'' PATH_MAX) @ d @ ''/'' @ name) # candidates J (k + 1) ds name"

lemma cstr_prefix: "cstr (cstr b @ x) = cstr b @ cstr x"
  by (induction b) (simp_all add: cstr_def)

lemma strcat_ok:
  assumes "length (cstr b) + length src < length b" "NUL \<notin> set src"
  shows "\<exists>r. strcat b src = Inr r \<and> cstr r = cstr b @ src \<and> length r = length b"
proof -
  have t: "take (length (cstr b)) b = cstr b" by (simp add: cstr_def takeWhile_eq_take [symmetric])
  have "cstr (cstr b @ src @ NUL # r) = cstr b @ src" for r
    using assms(2) by (simp add: cstr_prefix)
  then show ?thesis using assms t by (simp add: strcat_def Let_def)
qed

lemma directory_loop_spec:
  "NUL \<notin> set name \<Longrightarrow> NUL \<notin> set path \<Longrightarrow> \<forall>c \<in> set (candidates J k (path_dirs [] path) name). length c < PATH_MAX \<Longrightarrow>
    directory_loop exists_file J k path name =
      Inr (find exists_file (candidates J k (path_dirs [] path) name))"
proof (induction exists_file J k path name rule: directory_loop.induct)
  case (1 exists_file J k path name)
  show ?case
  proof (cases "strtok_r (CHR '':'') path")
    case (Pair tok rest)
    show ?thesis
    proof (cases tok)
      case None
      then show ?thesis using Pair by (subst directory_loop.simps) (simp add: path_dirs_strtok [of path])
    next
      case (Some d)
      have p: "path_dirs [] path = d # path_dirs [] rest" using Pair Some by (subst path_dirs_strtok) simp
      have sub: "set d \<subseteq> set path" "set rest \<subseteq> set path"
        using Pair Some by (auto simp: strtok_r_def Let_def split: if_splits
            dest!: set_takeWhileD set_dropWhileD in_set_dropD)
      let ?b = "uninit (at J (dec_nat k)) ''cur'' PATH_MAX"
      have len: "length (cstr ?b) + length d + 1 + length name < PATH_MAX" using 1 p by simp
      obtain b1 where b1: "strcat ?b d = Inr b1" "cstr b1 = cstr ?b @ d" "length b1 = PATH_MAX"
        using strcat_ok [of ?b d] len sub 1 by auto
      obtain b2 where b2: "strcat b1 ''/'' = Inr b2" "cstr b2 = cstr ?b @ d @ ''/''" "length b2 = PATH_MAX"
        using strcat_ok [of b1 "''/''"] len b1 by auto
      have "length (cstr b2) + length name < length b2" using len b2 by simp
      from strcat_ok [OF this 1(2)] obtain b3 where b3: "strcat b2 name = Inr b3" "cstr b3 = cstr ?b @ d @ ''/'' @ name"
        using b2(2) by auto
      have rest: "\<not> exists_file (cstr b3) \<Longrightarrow> directory_loop exists_file J (k + 1) rest name =
          Inr (find exists_file (candidates J (k + 1) (path_dirs [] rest) name))"
        by (rule 1(1) [OF Pair [symmetric] Some, of b3]) (use 1(2-4) sub p in auto)
      show ?thesis
        using Pair Some b1 b2 b3 rest p by (subst directory_loop.simps) simp
    qed
  qed
qed

lemma uninit_empty: "J x 0 = NUL \<Longrightarrow> cstr (uninit J x n) = []"
  by (cases n) (simp_all add: uninit_def cstr_def upt_conv_Cons del: upt_Suc)


section \<open>Properties\<close>

text \<open>C36. Where no file has the command's own name, getDirectory tries the directories of PATH in
  order and returns the first name that exists, or NULL; the name is put together behind
  whatever text the fresh block held, so that it is the directory's and the command's when the
  blocks start with a NUL.\<close>

theorem getDirectory_correct:
  assumes "NUL \<notin> set name" "NUL \<notin> set path"
    "\<forall>c \<in> set (candidates J 0 (path_dirs [] path) name). length c < PATH_MAX"
  shows "getDirectory exists_file (Some path) J name =
      Inr (if exists_file name then Some name
           else find exists_file (candidates J 0 (path_dirs [] path) name)) \<and>
    ((\<forall>k. at J (dec_nat k) ''cur'' 0 = NUL) \<longrightarrow>
       candidates J 0 (path_dirs [] path) name = map (\<lambda>d. d @ ''/'' @ name) (path_dirs [] path))"
proof -
  have "candidates J k ds name = map (\<lambda>d. d @ ''/'' @ name) ds" if "\<forall>k. at J (dec_nat k) ''cur'' 0 = NUL" for k ds
  proof (induction ds arbitrary: k)
    case (Cons d ds)
    show ?case using Cons uninit_empty that by simp
  qed simp
  then show ?thesis using directory_loop_spec [OF assms] by (simp add: getDirectory_def)
qed

lemma getDirectory_correct_witness_hyps:
  "NUL \<notin> set ''ls''" "NUL \<notin> set '':/bin::/usr/bin''"
  "path_dirs [] '':/bin::/usr/bin'' = [''/bin'', ''/usr/bin'']"
  by simp_all

theorem getDirectory_correct_witness:
  "getDirectory (\<lambda>f. f = ''/usr/bin/ls'') (Some '':/bin::/usr/bin'') (\<lambda>_ _. NUL) ''ls'' = Inr (Some ''/usr/bin/ls'')"
proof -
  have c: "\<forall>c \<in> set (candidates (\<lambda>_ _. NUL) 0 (path_dirs [] '':/bin::/usr/bin'') ''ls''). length c < PATH_MAX"
    using uninit_empty [of "at (\<lambda>_ _. NUL) x" "''cur''" PATH_MAX for x]
    by (simp add: at_def) (simp add: PATH_MAX_def)
  show ?thesis
    using getDirectory_correct [OF getDirectory_correct_witness_hyps(1,2) c, of "\<lambda>f. f = ''/usr/bin/ls''"]
    by (simp add: at_def)
qed

text \<open>The words of a command: a last word that starts with an ampersand is left out.\<close>

definition in_background :: "string list \<Rightarrow> bool" where
  "in_background ws \<longleftrightarrow> starts (CHR ''&'') (last ws)"

definition command_words :: "string list \<Rightarrow> string list" where
  "command_words ws = (if in_background ws then butlast ws else ws)"

definition launched :: "string list \<Rightarrow> int \<Rightarrow> (child \<times> fds) result \<Rightarrow> event \<times> int" where
  "launched ws numBack c =
     (if in_background ws then (Background c, to_int (numBack + 1)) else (Foreground c, numBack))"

lemma command_step:
  assumes "tokenize (Some (cstr line)) = Inr (Some (tokens_of ws))" "length ws < 9223372036854775808"
    "lookup (Some (hd ws)) = - 1" "ws \<noteq> []"
  shows "shell_step exists_file env_path can_open J line numBack =
    Inr (launched ws numBack
      (let (args, f) = split_line can_open (if in_background ws then Some (last ws) else None) (command_words ws) own_fds
       in andthen (guard (length args < length (command_words ws)) Overrun) (\<lambda>_.
          andthen (getDirectory exists_file env_path J (hd ws)) (\<lambda>name.
          case name of None \<Rightarrow> Inr (NotFound, f) | Some name \<Rightarrow> Inr (Execv name args, f)))))"
proof -
  have t0: "tokens_get_token (Some (tokens_of ws)) 0 = Some (hd ws)"
    using token_at [of ws 0] assms(2,4) by (simp add: hd_conv_nth)
  have "(of_nat (length ws) :: 64 word) - 1 = of_nat (length ws - 1)"
    using assms(4) by (simp add: of_nat_diff Suc_le_eq)
  then have tl: "tokens_get_token (Some (tokens_of ws)) (of_nat (length ws) - 1) = Some (last ws)"
    using token_at [of ws "length ws - 1"] assms(2,4) by (simp add: last_conv_nth)
  define k where "k = length (command_words ws)"
  have k: "k \<le> length ws" "take k ws = command_words ws"
    "(if k < length ws then Some (ws ! k) else None) = (if in_background ws then Some (last ws) else None)"
    "k = (if in_background ws then length ws - 1 else length ws)"
    using assms(4) by (auto simp: k_def command_words_def butlast_conv_take last_conv_nth)
  have p: "params_loop can_open (Some (tokens_of ws)) k 0 [] own_fds =
      Inr (split_line can_open (if in_background ws then Some (last ws) else None) (command_words ws) own_fds)"
    using params_loop_spec [OF assms(2) k(1), of 0 "[]" can_open own_fds] k by (simp add: Let_def split: prod.splits)
  have child: "run_child exists_file env_path can_open J (Some (tokens_of ws)) k =
      (let (args, f) = split_line can_open (if in_background ws then Some (last ws) else None) (command_words ws) own_fds
       in andthen (guard (length args < length (command_words ws)) Overrun) (\<lambda>_.
          andthen (getDirectory exists_file env_path J (hd ws)) (\<lambda>name.
          case name of None \<Rightarrow> Inr (NotFound, f) | Some name \<Rightarrow> Inr (Execv name args, f))))"
    unfolding run_child_def p t0 by (simp add: k_def split: prod.splits)
  have "tokens_get_length (Some (tokens_of ws)) = length ws" by (simp add: tokens_get_length_def tokens_of_def)
  then show ?thesis
    unfolding child [symmetric] launched_def
    using assms(1,3) t0 tl k(4) by (simp add: shell_step_def Let_def in_background_def starts_def)
qed

text \<open>C17. A line with a redirection whose first word is no built-in command runs the program found
  for that word: its arguments are the words that are neither redirections nor their files, in
  order, its standard input and output are the files of the last redirections that open.  The
  shell waits for it, or counts it when the last word starts with an ampersand.\<close>

theorem shell_command:
  assumes "tokenize (Some (cstr line)) = Inr (Some (tokens_of ws))" "length ws < 9223372036854775808"
    "lookup (Some (hd ws)) = - 1" "\<exists>w \<in> set (command_words ws). is_redirection w"
    "getDirectory exists_file env_path J (hd ws) = Inr (Some name)"
  shows "shell_step exists_file env_path can_open J line numBack =
    (let (args, f) = split_line can_open (if in_background ws then Some (last ws) else None) (command_words ws) own_fds
     in Inr (launched ws numBack (Inr (Execv name args, f))))"
proof -
  have ne: "ws \<noteq> []" using assms(4) by (auto simp: command_words_def split: if_splits)
  obtain args f where s: "split_line can_open (if in_background ws then Some (last ws) else None)
      (command_words ws) own_fds = (args, f)" by fastforce
  then have "length args < length (command_words ws)"
    using split_line_less [OF assms(4), of can_open "if in_background ws then Some (last ws) else None" own_fds] by simp
  then show ?thesis unfolding command_step [OF assms(1-3) ne] assms(5) s by simp
qed

text \<open>C37. Every command without a redirection makes its child store the final NULL of the arguments
  behind the end of the array params, and a blank line makes the shell itself read through a
  NULL pointer.\<close>

theorem shell_overruns:
  assumes "tokenize (Some (cstr line)) = Inr (Some (tokens_of ws))" "length ws < 9223372036854775808"
  shows "(ws = [] \<longrightarrow> shell_step exists_file env_path can_open J line numBack = Inl NullDeref) \<and>
    (ws \<noteq> [] \<and> lookup (Some (hd ws)) = - 1 \<and> (\<forall>w \<in> set (command_words ws). \<not> is_redirection w) \<longrightarrow>
       shell_step exists_file env_path can_open J line numBack = Inr (launched ws numBack (Inl Overrun)))"
proof (intro conjI impI)
  assume "ws = []"
  moreover have "lookup None = - 1" by (simp add: lookup_def cmd_table_def)
  ultimately show "shell_step exists_file env_path can_open J line numBack = Inl NullDeref"
    using assms(1) by (simp add: shell_step_def tokens_get_token_def tokens_get_length_def tokens_of_def)
next
  assume a: "ws \<noteq> [] \<and> lookup (Some (hd ws)) = - 1 \<and> (\<forall>w \<in> set (command_words ws). \<not> is_redirection w)"
  then show "shell_step exists_file env_path can_open J line numBack = Inr (launched ws numBack (Inl Overrun))"
    using command_step [OF assms, of exists_file env_path can_open J numBack]
    by (simp add: split_line_plain)
qed


section \<open>Sessions\<close>

text \<open>
  What a session must look like: every \<open>wait\<close> waits for as many processes as were put in the
  background since the last one, \<open>n\<close> before the session.
\<close>

fun waits_ok :: "nat \<Rightarrow> event list \<Rightarrow> bool" where
  "waits_ok n [] \<longleftrightarrow> True"
| "waits_ok n (Background c # es) \<longleftrightarrow> waits_ok (n + 1) es"
| "waits_ok n (Waited k # es) \<longleftrightarrow> k = n \<and> waits_ok 0 es"
| "waits_ok n (e # es) \<longleftrightarrow> waits_ok n es"

fun prompts :: "event list \<Rightarrow> int list" where
  "prompts [] = []"
| "prompts (Prompted i # es) = i # prompts es"
| "prompts (e # es) = prompts es"

lemma prompts_append [simp]: "prompts (es @ es') = prompts es @ prompts es'"
  by (induction es rule: prompts.induct) simp_all

lemma wait_loop_spec: "wait_loop k w n = (w + k, if k = 0 then n else 0)"
  by (induction k arbitrary: w n) simp_all

text \<open>The events of one line.\<close>

lemma shell_step_event:
  assumes "shell_step exists_file env_path can_open J line numBack = Inr (e, numBack')"
    "0 \<le> numBack" "numBack < 2147483647"
  shows "waits_ok (nat numBack) (e # es) = waits_ok (nat numBack') es \<and> prompts [e] = [] \<and>
    0 \<le> numBack' \<and> numBack' \<le> numBack + 1"
  using assms
  by (auto simp: shell_step_def andthen_Inr_iff Let_def run_builtin_def cmd_wait_run_def wait_loop_spec
      nat_add_distrib split: if_splits option.splits cmd_fun.splits)

text \<open>The events of the rest of a session.\<close>

lemma shell_main_events:
  assumes "shell_main exists_file env_path can_open interactive J k ls line_num numBack es = Inr es'"
    "0 \<le> numBack" "numBack + int (length ls) < 2147483648"
    "0 \<le> line_num" "line_num + int (length ls) < 2147483648"
  shows "\<exists>new. es' = es @ new \<and> waits_ok (nat numBack) new \<and>
    prompts new = (if interactive then [line_num + 1 .. line_num + int (length (prompts new))] else [])"
  using assms
proof (induction ls arbitrary: k line_num numBack es)
  case Nil
  then show ?case by simp
next
  case (Cons line ls)
  obtain e n where step: "shell_step exists_file env_path can_open (at J (dec_nat k)) line numBack = Inr (e, n)"
    using Cons.prems(1) by (auto simp: andthen_Inr_iff)
  have ev: "waits_ok (nat numBack) (e # new) = waits_ok (nat n) new" "prompts [e] = []" "0 \<le> n" "n \<le> numBack + 1" for new
    using shell_step_event [OF step] Cons.prems(2,3) by simp_all
  have pe: "prompts (e # new) = prompts new" for new using ev(2) prompts_append [of "[e]" new] by simp
  show ?case
  proof (cases "e = Exit")
    case True
    then have "es' = es @ [Exit]" using Cons.prems(1) step by simp
    then show ?thesis by (intro exI [of _ "[Exit]"]) simp
  next
    case False
    define l where "l = (if interactive then line_num + 1 else line_num)"
    define pr where "pr = (if interactive then [Prompted l] else [])"
    have "shell_main exists_file env_path can_open interactive J (k + 1) ls l n (es @ e # pr) = Inr es'"
      using Cons.prems False step by (simp add: l_def pr_def Let_def split: if_splits)
    moreover have "0 \<le> l" "l + int (length ls) < 2147483648" using Cons.prems(4,5) by (auto simp: l_def)
    ultimately obtain new where new: "es' = (es @ e # pr) @ new" "waits_ok (nat n) new"
      "prompts new = (if interactive then [l + 1 .. l + int (length (prompts new))] else [])"
      using Cons.IH [of "k + 1" l n "es @ e # pr"] Cons.prems(2,3) ev(3,4) by auto
    have "waits_ok (nat numBack) (e # pr @ new)" using new(2) by (simp add: ev(1) pr_def)
    moreover have "prompts (e # pr @ new) =
        (if interactive then [line_num + 1 .. line_num + int (length (prompts (e # pr @ new)))] else [])"
    proof (cases interactive)
      case True
      have "[line_num + 1 .. line_num + 1 + int (length (prompts new))] =
          (line_num + 1) # [line_num + 1 + 1 .. line_num + 1 + int (length (prompts new))]"
        by (rule upto_rec1) simp
      then show ?thesis using new(3) True by (simp add: pe pr_def l_def ac_simps)
    qed (use new(3) in \<open>simp add: pe pr_def\<close>)
    ultimately show ?thesis using new(1) by (intro exI [of _ "e # pr @ new"]) simp
  qed
qed

text \<open>C20. In every session of fewer than 2^31 lines that does not crash the shell and in which every
  fork succeeds, the number of calls of wait each built-in wait makes is the number of processes
  put in the background since the one before it (which child each call reaps, and failing forks,
  are the subject of JobControl); and an interactive shell numbers its prompts from 0 on, one for
  every line.\<close>

theorem shell_session:
  assumes "shell exists_file env_path can_open interactive J ls = Inr es" "length ls < 2147483648"
  shows "waits_ok 0 es \<and>
    prompts es = (if interactive then [0 .. int (length (prompts es)) - 1] else [])"
proof -
  obtain new where new: "es = (if interactive then [Prompted 0] else []) @ new" "waits_ok 0 new"
    "prompts new = (if interactive then [1 .. int (length (prompts new))] else [])"
    using shell_main_events [OF assms(1) [unfolded shell_def]] assms(2) unfolding add_0 nat_0 by auto
  show ?thesis
  proof (cases interactive)
    case True
    then show ?thesis using new upto_rec1 [of 0 "int (length (prompts new))"] by simp
  qed (use new in simp)
qed


section \<open>Instances\<close>

lemma sample_tokens:
  "tokenize (Some (cstr ''ls -l > f'')) = Inr (Some (tokens_of [''ls'', ''-l'', ''>'', ''f'']))"
  "tokenize (Some (cstr ''ls &'')) = Inr (Some (tokens_of [''ls'', ''&'']))"
  by (simp_all add: cstr_def tokenize_def scan_char_def isspace_def n_max_def)

theorem shell_command_witness:
  "shell_step (\<lambda>f. f = ''ls'') None (\<lambda>_. True) (\<lambda>_ _. NUL) ''ls -l > f'' 0 =
     Inr (Foreground (Inr (Execv ''ls'' [''ls'', ''-l''], \<lparr>stdout_to = Some ''f'', stdin_from = None\<rparr>)), 0)"
  using shell_command [OF sample_tokens(1), of "\<lambda>f. f = ''ls''" None "\<lambda>_ _. NUL" "''ls''" "\<lambda>_. True" 0]
  by (simp add: lookup_def cmd_table_def command_words_def in_background_def is_redirection_def starts_def
      getDirectory_def redirection_of_def redirect_def launched_def)

theorem shell_overruns_witness:
  "shell_step (\<lambda>f. f = ''ls'') None (\<lambda>_. True) (\<lambda>_ _. NUL) ''ls &'' 0 = Inr (Background (Inl Overrun), 1)"
  using shell_overruns [OF sample_tokens(2), of "\<lambda>f. f = ''ls''" None "\<lambda>_. True" "\<lambda>_ _. NUL" 0]
  by (simp add: lookup_def cmd_table_def command_words_def in_background_def is_redirection_def starts_def
      launched_def)

text \<open>Two commands in the background, and \<open>wait\<close>.\<close>

lemma sample_lines:
  "tokenize (Some (cstr ''ls > f &'')) = Inr (Some (tokens_of [''ls'', ''>'', ''f'', ''&'']))"
  "tokenize (Some (cstr ''wait'')) = Inr (Some (tokens_of [''wait'']))"
  by (simp_all add: cstr_def tokenize_def scan_char_def isspace_def n_max_def)

theorem shell_session_witness:
  "\<exists>es. shell (\<lambda>f. f = ''ls'') None (\<lambda>_. True) True (\<lambda>_ _. NUL) [''ls > f &'', ''ls > f &'', ''wait''] = Inr es \<and>
     Waited 2 \<in> set es \<and> prompts es = [0, 1, 2, 3] \<and> waits_ok 0 es"
proof -
  note step = shell_command [OF sample_lines(1), of "\<lambda>f. f = ''ls''" None _ "''ls''" "\<lambda>_. True"]
  have bg: "shell_step (\<lambda>f. f = ''ls'') None (\<lambda>_. True) J ''ls > f &'' n =
      Inr (Background (Inr (Execv ''ls'' [''ls''], \<lparr>stdout_to = Some ''f'', stdin_from = None\<rparr>)), to_int (n + 1))" for J n
    using step [of J n]
    by (simp add: lookup_def cmd_table_def command_words_def in_background_def is_redirection_def starts_def
        getDirectory_def redirection_of_def redirect_def launched_def)
  have wt: "shell_step (\<lambda>f. f = ''ls'') None (\<lambda>_. True) J ''wait'' 2 = Inr (Waited 2, 0)" for J
    by (simp add: shell_step_def sample_lines(2) tokens_of_def tokens_get_token_def lookup_def cmd_table_def
        run_builtin_def cmd_wait_run_def wait_loop_spec)
  define es where "es = [Prompted 0, Background (Inr (Execv ''ls'' [''ls''], \<lparr>stdout_to = Some ''f'', stdin_from = None\<rparr>)),
    Prompted 1, Background (Inr (Execv ''ls'' [''ls''], \<lparr>stdout_to = Some ''f'', stdin_from = None\<rparr>)),
    Prompted 2, Waited 2, Prompted 3]"
  have r: "shell (\<lambda>f. f = ''ls'') None (\<lambda>_. True) True (\<lambda>_ _. NUL) [''ls > f &'', ''ls > f &'', ''wait''] = Inr es"
    by (simp add: shell_def bg wt es_def)
  have "waits_ok 0 es" using shell_session [OF r] by simp
  then show ?thesis using r by (auto simp: es_def)
qed

end
