(* ===== verification/TokenMemory.thy ===== *)
theory TokenMemory
  imports TokenizerProps
begin

text \<open>
  Who owns the memory of \<open>hw1/tokenizer.c\<close>: the blocks \<open>tokenize\<close> allocates for the struct, the
  copies of the words and the vector that points to them, and \<open>tokens_destroy\<close>, which frees them.

  A block is a number, \<open>malloc\<close> returns one that is not in use, and freeing a block that is not in
  use is a fault.
\<close>

section \<open>Blocks\<close>

record blocks =
  owned :: "nat set"
  next_block :: nat

definition blocks_ok :: "blocks \<Rightarrow> bool" where
  "blocks_ok s \<longleftrightarrow> 0 < next_block s \<and> 0 \<notin> owned s \<and> (\<forall>a \<in> owned s. a < next_block s)"

definition malloc_block :: "blocks \<Rightarrow> nat \<times> blocks" where
  "malloc_block s = (next_block s, s\<lparr>owned := insert (next_block s) (owned s), next_block := next_block s + 1\<rparr>)"

definition free_block :: "nat \<Rightarrow> blocks \<Rightarrow> blocks result" where
  "free_block a s =
     (if a = 0 then Inr s
      else if a \<in> owned s then Inr (s\<lparr>owned := owned s - {a}\<rparr>) else Inl Overrun)"

text \<open>\<open>realloc\<close> that moves the block.\<close>

definition realloc_block :: "nat \<Rightarrow> blocks \<Rightarrow> (nat \<times> blocks) result" where
  "realloc_block a s =
     (let (b, s) = malloc_block s in andthen (free_block a s) (\<lambda>s. Inr (b, s)))"


section \<open>The struct with its pointers\<close>

text \<open>The struct itself, the two vectors (NULL is 0) and what they point to.\<close>

record token_ptrs =
  p_struct :: nat
  p_tokens :: nat
  p_words :: "nat list"
  p_buffers :: nat
  p_buffer_ptrs :: "nat list"

text \<open>\<open>vector_push(&tokens->tokens, &tokens->tokens_length, copy_word(token))\<close>\<close>

definition push_ptr :: "token_ptrs \<Rightarrow> blocks \<Rightarrow> (token_ptrs \<times> blocks) result" where
  "push_ptr t s =
     (let (w, s) = malloc_block s in
      andthen (realloc_block (p_tokens t) s) (\<lambda>(v, s).
      Inr (t\<lparr>p_tokens := v, p_words := p_words t @ [w]\<rparr>, s)))"

primrec push_ptrs :: "string list \<Rightarrow> token_ptrs \<Rightarrow> blocks \<Rightarrow> (token_ptrs \<times> blocks) result" where
  "push_ptrs [] t s = Inr (t, s)"
| "push_ptrs (w # ws) t s = andthen (push_ptr t s) (\<lambda>(t, s). push_ptrs ws t s)"

text \<open>
  \<open>tokenize\<close> with its allocations: the struct, then a copy and a longer vector for each word it
  finds.  In the code every call of \<open>copy_word\<close> is followed by its \<open>vector_push\<close> and nothing between
  two words allocates, so the calls made for the words in order are those of the scanner.
\<close>

definition tokenize_ptrs :: "string option \<Rightarrow> blocks \<Rightarrow> ((tokens \<times> token_ptrs) option \<times> blocks) result" where
  "tokenize_ptrs line s =
     andthen (tokenize line) (\<lambda>r.
     case r of
       None \<Rightarrow> Inr (None, s)
     | Some ts \<Rightarrow>
         let (a, s) = malloc_block s in
         andthen (push_ptrs (toks ts) \<lparr>p_struct = a, p_tokens = 0, p_words = [], p_buffers = 0, p_buffer_ptrs = []\<rparr> s)
           (\<lambda>(t, s). Inr (Some (ts, t), s)))"

primrec free_all :: "nat list \<Rightarrow> blocks \<Rightarrow> blocks result" where
  "free_all [] s = Inr s"
| "free_all (a # as) s = andthen (free_block a s) (free_all as)"

definition tokens_destroy :: "(tokens \<times> token_ptrs) option \<Rightarrow> blocks \<Rightarrow> blocks result" where
  "tokens_destroy r s =
     (case r of
        None \<Rightarrow> Inr s
      | Some (ts, t) \<Rightarrow>
          andthen (free_all (take (tokens_length ts) (p_words t)) s) (\<lambda>s.
          andthen (free_all (take (buffers_length ts) (p_buffer_ptrs t)) s) (\<lambda>s.
          andthen (if p_tokens t \<noteq> 0 then free_block (p_tokens t) s else Inr s) (\<lambda>s.
          free_block (p_struct t) s))))"


section \<open>Ownership\<close>

text \<open>The blocks a struct owns, on top of what was allocated before.\<close>

definition owns :: "nat set \<Rightarrow> token_ptrs \<Rightarrow> blocks \<Rightarrow> bool" where
  "owns A t s \<longleftrightarrow> blocks_ok s \<and> distinct (p_struct t # p_words t) \<and> p_struct t \<noteq> 0 \<and> 0 \<notin> set (p_words t) \<and>
     p_tokens t \<notin> set (p_struct t # p_words t) \<and>
     owned s = A \<union> set (p_struct t # p_words t) \<union> ({p_tokens t} - {0}) \<and>
     A \<inter> (set (p_struct t # p_words t) \<union> {p_tokens t}) = {}"

lemma malloc_block_ok:
  assumes "blocks_ok s" "malloc_block s = (a, s')"
  shows "a \<noteq> 0" "a \<notin> owned s" "owned s' = insert a (owned s)" "blocks_ok s'"
  using assms by (auto simp: malloc_block_def blocks_ok_def less_SucI)

lemma free_block_ok:
  "a \<in> owned s \<Longrightarrow> blocks_ok s \<Longrightarrow>
   \<exists>s'. free_block a s = Inr s' \<and> owned s' = owned s - {a} \<and> blocks_ok s'"
  by (auto simp: free_block_def blocks_ok_def)

lemma realloc_block_ok:
  assumes "blocks_ok s" "a = 0 \<or> a \<in> owned s"
  shows "\<exists>b s'. realloc_block a s = Inr (b, s') \<and> b \<noteq> 0 \<and> b \<notin> owned s \<and>
    owned s' = insert b (owned s - {a}) \<and> blocks_ok s'"
proof -
  obtain b s1 where b: "malloc_block s = (b, s1)" by fastforce
  note m = malloc_block_ok [OF assms(1) b]
  have z: "0 \<notin> owned s" using assms(1) by (simp add: blocks_ok_def)
  show ?thesis
  proof (cases "a = 0")
    case True
    then show ?thesis using m z by (simp add: realloc_block_def b free_block_def)
  next
    case False
    then have "a \<in> owned s1" "a \<noteq> b" using assms(2) m by auto
    then obtain s' where "free_block a s1 = Inr s'" "owned s' = owned s1 - {a}" "blocks_ok s'"
      using free_block_ok m(4) by blast
    then show ?thesis using m \<open>a \<noteq> b\<close> by (auto simp: realloc_block_def b)
  qed
qed

lemma push_ptr_owns:
  assumes "owns A t s"
  shows "\<exists>t' s'. push_ptr t s = Inr (t', s') \<and> owns A t' s' \<and> length (p_words t') = length (p_words t) + 1 \<and>
    p_buffer_ptrs t' = p_buffer_ptrs t"
proof -
  obtain w s1 where w: "malloc_block s = (w, s1)" by fastforce
  have ok: "blocks_ok s" using assms by (simp add: owns_def)
  note m = malloc_block_ok [OF ok w]
  have "p_tokens t = 0 \<or> p_tokens t \<in> owned s1" using assms m(3) by (auto simp: owns_def)
  then obtain b s2 where r: "realloc_block (p_tokens t) s1 = Inr (b, s2)" "b \<noteq> 0" "b \<notin> owned s1"
    "owned s2 = insert b (owned s1 - {p_tokens t})" "blocks_ok s2"
    using realloc_block_ok m(4) by blast
  have "owned s2 = A \<union> set (p_struct t # p_words t @ [w]) \<union> ({b} - {0})"
    using assms m r unfolding owns_def by auto
  moreover have "w \<notin> A \<union> set (p_struct t # p_words t)" "b \<notin> A \<union> set (p_struct t # p_words t @ [w])"
    using assms m r unfolding owns_def by auto
  ultimately have "owns A (t\<lparr>p_tokens := b, p_words := p_words t @ [w]\<rparr>) s2"
    using assms m(1) r(2,5) unfolding owns_def by auto
  then show ?thesis using r(1) w by (simp add: push_ptr_def)
qed

lemma push_ptrs_own:
  "owns A t s \<Longrightarrow> \<exists>t' s'. push_ptrs ws t s = Inr (t', s') \<and> owns A t' s' \<and>
     length (p_words t') = length (p_words t) + length ws \<and> p_buffer_ptrs t' = p_buffer_ptrs t"
proof (induction ws arbitrary: t s)
  case Nil
  then show ?case by simp
next
  case (Cons w ws)
  obtain t1 s1 where "push_ptr t s = Inr (t1, s1)" "owns A t1 s1" "length (p_words t1) = length (p_words t) + 1"
    "p_buffer_ptrs t1 = p_buffer_ptrs t"
    using push_ptr_owns [OF Cons.prems] by blast
  then show ?case using Cons.IH [of t1 s1] by auto
qed

lemma free_all_ok:
  "blocks_ok s \<Longrightarrow> distinct as \<Longrightarrow> set as \<subseteq> owned s \<Longrightarrow>
   \<exists>s'. free_all as s = Inr s' \<and> owned s' = owned s - set as \<and> blocks_ok s'"
proof (induction as arbitrary: s)
  case (Cons a as)
  obtain s1 where s1: "free_block a s = Inr s1" "owned s1 = owned s - {a}" "blocks_ok s1"
    using free_block_ok [of a s] Cons.prems by auto
  then obtain s' where "free_all as s1 = Inr s'" "owned s' = owned s1 - set as" "blocks_ok s'"
    using Cons.IH [of s1] Cons.prems by auto
  then show ?case using s1 by auto
qed simp

text \<open>What \<open>tokenize\<close> returns has the lengths of its vectors.\<close>

definition tokens_wf :: "tokens \<Rightarrow> bool" where
  "tokens_wf ts \<longleftrightarrow> tokens_length ts = length (toks ts) \<and> buffers_length ts = 0 \<and> buffers ts = []"

lemma push_word_wf: "push_word w ts = Inr ts' \<Longrightarrow> tokens_wf ts \<Longrightarrow> tokens_wf ts'"
  by (auto simp: tokens_wf_def push_word_def vector_push_def andthen_Inr_iff)

lemma scan_char_wf: "scan_char m t ts c rest = Inr (m', t', ts', rest') \<Longrightarrow> tokens_wf ts \<Longrightarrow> tokens_wf ts'"
  by (auto simp: scan_char_def andthen_Inr_iff dest: push_word_wf split: mode.splits if_splits prod.splits)

lemma tokenize_loop_wf: "tokenize_loop m t ts line = Inr (t', ts') \<Longrightarrow> tokens_wf ts \<Longrightarrow> tokens_wf ts'"
proof (induction m t ts line rule: tokenize_loop.induct)
  case (2 m t ts c rest)
  from 2(2) obtain m1 t1 ts1 rest1 where s: "scan_char m t ts c rest = Inr (m1, t1, ts1, rest1)"
    "tokenize_loop m1 t1 ts1 rest1 = Inr (t', ts')" "\<not> n_max \<le> length t1 + 1"
    by (auto split: sum.splits prod.splits if_splits)
  show ?case by (rule 2(1) [OF s(1) refl refl refl s(3,2) scan_char_wf [OF s(1) 2(3)]])
qed simp

lemma tokenize_wf:
  assumes "tokenize line = Inr (Some ts)"
  shows "tokens_wf ts"
proof -
  obtain l t ts1 where l: "tokenize_loop MODE_NORMAL [] no_tokens l = Inr (t, ts1)"
    "(if length t > 0 then push_word t ts1 else Inr ts1) = Inr ts"
    using assms by (auto simp: tokenize_def andthen_Inr_iff split: option.splits)
  have "tokens_wf no_tokens" by (simp add: tokens_wf_def tokens_of_def)
  then have "tokens_wf ts1" by (rule tokenize_loop_wf [OF l(1)])
  then show ?thesis using l(2) push_word_wf by (auto split: if_splits)
qed

lemma destroy_owned:
  assumes "tokens_wf ts" "owns A t s" "length (p_words t) = tokens_length ts"
  shows "\<exists>s'. tokens_destroy (Some (ts, t)) s = Inr s' \<and> owned s' = A \<and> blocks_ok s'"
proof -
  obtain s1 where s1: "free_all (p_words t) s = Inr s1" "owned s1 = owned s - set (p_words t)" "blocks_ok s1"
    using free_all_ok [of s "p_words t"] assms(2) by (auto simp: owns_def)
  define u where "u = (if p_tokens t \<noteq> 0 then free_block (p_tokens t) s1 else Inr s1)"
  obtain s2 where s2: "u = Inr s2" "owned s2 = owned s1 - {p_tokens t}" "blocks_ok s2"
  proof (cases "p_tokens t = 0")
    case True
    then show thesis using that s1(3) by (simp add: u_def blocks_ok_def)
  next
    case False
    then have "p_tokens t \<in> owned s1" using assms(2) s1(2) by (auto simp: owns_def)
    then show thesis using that free_block_ok [of _ s1] s1(3) False by (auto simp: u_def)
  qed
  have "p_struct t \<in> owned s2" using assms(2) s1(2) s2(2) by (auto simp: owns_def)
  then obtain s3 where s3: "free_block (p_struct t) s2 = Inr s3" "owned s3 = owned s2 - {p_struct t}" "blocks_ok s3"
    using free_block_ok s2(3) by blast
  have "tokens_destroy (Some (ts, t)) s = Inr s3"
    using s1(1) s2(1) s3(1) assms(1,3) by (simp add: tokens_destroy_def tokens_wf_def u_def)
  moreover have "owned s3 = owned s - set (p_struct t # p_words t) - {p_tokens t}"
    unfolding s3(2) s2(2) s1(2) by auto
  moreover have "owned s = A \<union> set (p_struct t # p_words t) \<union> ({p_tokens t} - {0})"
    "A \<inter> (set (p_struct t # p_words t) \<union> {p_tokens t}) = {}"
    using assms(2) by (simp_all add: owns_def)
  ultimately have "owned s3 = A" by blast
  moreover note \<open>tokens_destroy (Some (ts, t)) s = Inr s3\<close>
  ultimately show ?thesis using s3(3) by blast
qed

text \<open>C22. Whatever the line, the allocations of tokenize add no fault to it, and tokens_destroy then frees
  every block tokenize allocated, each exactly once, and no other: what is allocated afterwards is
  what was allocated before.\<close>

theorem tokens_freed:
  assumes "blocks_ok s"
  shows "case tokenize line of
      Inl e \<Rightarrow> tokenize_ptrs line s = Inl e
    | Inr r \<Rightarrow> \<exists>r' s' s''. tokenize_ptrs line s = Inr (r', s') \<and> map_option fst r' = r \<and> owned s \<subseteq> owned s' \<and>
        tokens_destroy r' s' = Inr s'' \<and> owned s'' = owned s"
proof (cases "tokenize line")
  case (Inl e)
  then show ?thesis by (simp add: tokenize_ptrs_def)
next
  case (Inr r)
  show ?thesis
  proof (cases r)
    case None
    then show ?thesis using Inr by (simp add: tokenize_ptrs_def tokens_destroy_def)
  next
    case (Some ts)
    have w: "tokens_wf ts" using tokenize_wf [of line ts] Inr Some by simp
    obtain a s1 where a: "malloc_block s = (a, s1)" by fastforce
    let ?t = "\<lparr>p_struct = a, p_tokens = 0, p_words = [], p_buffers = 0, p_buffer_ptrs = []\<rparr>"
    have "owns (owned s) ?t s1"
      using malloc_block_ok [OF assms a] assms by (auto simp: owns_def blocks_ok_def)
    then obtain t s2 where t: "push_ptrs (toks ts) ?t s1 = Inr (t, s2)" "owns (owned s) t s2"
      "length (p_words t) = length (toks ts)"
      using push_ptrs_own [of "owned s" ?t s1 "toks ts"] by auto
    then obtain s'' where "tokens_destroy (Some (ts, t)) s2 = Inr s''" "owned s'' = owned s"
      using destroy_owned [OF w t(2)] w by (auto simp: tokens_wf_def)
    moreover have "owned s \<subseteq> owned s2" using t(2) by (auto simp: owns_def)
    ultimately show ?thesis using Inr Some a t(1) by (auto simp: tokenize_ptrs_def)
  qed
qed

theorem tokens_freed_witness:
  "\<exists>r s' s''. tokenize_ptrs (Some ''a b'') \<lparr>owned = {3}, next_block = 4\<rparr> = Inr (Some r, s') \<and>
     tokens_destroy (Some r) s' = Inr s'' \<and> owned s'' = {3}"
proof -
  have "blocks_ok \<lparr>owned = {3}, next_block = 4\<rparr>" by (simp add: blocks_ok_def)
  from tokens_freed [OF this, of "Some ''a b''"] show ?thesis
    by (auto simp: tokenize_def scan_char_def isspace_def n_max_def)
qed

end
