(* ===== verification/JobControl.thy ===== *)
theory JobControl
  imports Prelude
begin

text \<open>
  The shell and its children as processes (\<open>hw1/shell.c\<close>): who is in which process group, which
  group the terminal belongs to, and what \<open>fork\<close>, \<open>setpgid\<close>, \<open>tcsetpgrp\<close>, \<open>waitpid\<close> and
  \<open>wait\<close> do to that, under every interleaving of the shell with the children it has made.

  The kernel side is the documented behaviour of these calls: \<open>fork\<close> fails or gives a process id
  that is in use neither for a process nor for a group; \<open>tcsetpgrp\<close> gives the terminal to a process
  group that exists and fails otherwise, and when standard input is not a terminal; \<open>waitpid\<close> with
  \<open>WUNTRACED\<close> reports a child that has stopped or ended, any child if it is called with -1, \<open>wait\<close>
  one that has ended, and both fail at once without a child.  A child can be stopped, continued
  and killed at every point of its life.  Programs keep the process group they were started in.
\<close>

section \<open>Processes\<close>

text \<open>
  How far a child is: before \<open>setpgid\<close>, between \<open>setpgid\<close> and \<open>execv\<close>, in its program; and whether it
  runs, is stopped, or has ended and was not waited for.
\<close>

datatype stage = Forked | Grouped | Running
datatype activity = Active | Stopped | Zombie

text \<open>
  Where the shell is: at the next line; before the first \<open>tcsetpgrp\<close>, in \<open>waitpid\<close> and before the
  second \<open>tcsetpgrp\<close> of a command in the foreground, where \<open>pid\<close> is the result of \<open>fork\<close>, None for -1;
  in the loop of \<open>cmd_wait\<close> with this many calls of \<open>wait\<close> left.
\<close>

datatype shell_pc = AtLine | GiveTerminal "nat option" | WaitFor "nat option" | TakeTerminal | WaitAny nat

text \<open>\<open>failed\<close> counts the calls of \<open>fork\<close> that have failed; the code does not keep it.\<close>

record jobs =
  kids :: "nat \<Rightarrow> (stage \<times> activity) option"
  fg :: nat
  shell_pc :: shell_pc
  numBack :: nat
  failed :: nat

text \<open>A child leaves the shell's group by its \<open>setpgid\<close>.\<close>

definition group_exists :: "nat \<Rightarrow> jobs \<Rightarrow> nat \<Rightarrow> bool" where
  "group_exists grp s g \<longleftrightarrow> g = grp \<or> (\<exists>st a. kids s g = Some (st, a) \<and> st \<noteq> Forked)"

definition tcsetpgrp :: "bool \<Rightarrow> nat \<Rightarrow> nat option \<Rightarrow> jobs \<Rightarrow> jobs" where
  "tcsetpgrp tty grp g s =
     (case g of
        None \<Rightarrow> s
      | Some g \<Rightarrow> if tty \<and> group_exists grp s g then s\<lparr>fg := g\<rparr> else s)"

definition set_kid :: "nat \<Rightarrow> (stage \<times> activity) option \<Rightarrow> jobs \<Rightarrow> jobs" where
  "set_kid c k s = s\<lparr>kids := (kids s)(c := k)\<rparr>"


section \<open>init\_shell\<close>

text \<open>
  The loop \<open>while(tcgetpgrp(shell_terminal) != getpgrp()) kill(-shell_pgid, SIGTTIN)\<close>: \<open>gs\<close> are the
  groups the terminal is found to belong to, one for each time the shell is continued; the result
  is how often it stopped itself, None as long as the loop goes on.
\<close>

fun pause_loop :: "nat \<Rightarrow> nat list \<Rightarrow> nat \<Rightarrow> nat option" where
  "pause_loop grp [] stops = None"
| "pause_loop grp (g # gs) stops = (if g = grp then Some stops else pause_loop grp gs (stops + 1))"

text \<open>
  Whether the shell is interactive, \<open>shell_pgid\<close> (None when it is not set), how often it stopped
  and the group the terminal then belongs to; \<open>pid\<close> and \<open>grp\<close> are the shell's.
\<close>

definition init_shell :: "bool \<Rightarrow> nat \<Rightarrow> nat \<Rightarrow> nat list \<Rightarrow> jobs \<Rightarrow> (nat option \<times> nat \<times> jobs) option" where
  "init_shell isatty pid grp gs s =
     (if isatty
      then (case pause_loop grp gs 0 of
              None \<Rightarrow> None
            | Some stops \<Rightarrow> Some (Some pid, stops, tcsetpgrp True grp (Some pid) (s\<lparr>fg := grp\<rparr>)))
      else Some (None, 0, s))"


section \<open>The steps\<close>

text \<open>
  \<open>pid\<close> and \<open>grp\<close> are the process id and the process group of the shell, \<open>tty\<close> says whether standard
  input is its terminal.  \<open>grabs\<close> are the children whose programs may call \<open>tcsetpgrp\<close> themselves:
  \<open>main\<close> ignores SIGTTOU, children inherit that, so such a call succeeds from every group.  \<open>numBack\<close>
  stays in the range of \<open>int\<close> for fewer than \<open>2 ^ 31\<close> lines.
\<close>

inductive job_step :: "bool \<Rightarrow> (nat \<Rightarrow> bool) \<Rightarrow> nat \<Rightarrow> nat \<Rightarrow> jobs \<Rightarrow> jobs \<Rightarrow> bool"
  for tty :: bool and grabs :: "nat \<Rightarrow> bool" and pid :: nat and grp :: nat where
  fork_foreground: "shell_pc s = AtLine \<Longrightarrow> kids s c = None \<Longrightarrow> c \<noteq> pid \<Longrightarrow> c \<noteq> grp \<Longrightarrow> c < 4194304 \<Longrightarrow>
    job_step tty grabs pid grp s (set_kid c (Some (Forked, Active)) s\<lparr>shell_pc := GiveTerminal (Some c)\<rparr>)"
| fork_background: "shell_pc s = AtLine \<Longrightarrow> kids s c = None \<Longrightarrow> c \<noteq> pid \<Longrightarrow> c \<noteq> grp \<Longrightarrow> c < 4194304 \<Longrightarrow>
    job_step tty grabs pid grp s (set_kid c (Some (Forked, Active)) s\<lparr>numBack := numBack s + 1\<rparr>)"
| fork_fails_foreground: "shell_pc s = AtLine \<Longrightarrow>
    job_step tty grabs pid grp s (s\<lparr>shell_pc := GiveTerminal None, failed := failed s + 1\<rparr>)"
| fork_fails_background: "shell_pc s = AtLine \<Longrightarrow>
    job_step tty grabs pid grp s (s\<lparr>numBack := numBack s + 1, failed := failed s + 1\<rparr>)"
| give_terminal: "shell_pc s = GiveTerminal p \<Longrightarrow>
    job_step tty grabs pid grp s ((tcsetpgrp tty grp p s)\<lparr>shell_pc := WaitFor p\<rparr>)"
| waitpid_ended: "shell_pc s = WaitFor p \<Longrightarrow> p = None \<or> p = Some c \<Longrightarrow> kids s c = Some (st, Zombie) \<Longrightarrow>
    job_step tty grabs pid grp s (set_kid c None s\<lparr>shell_pc := TakeTerminal\<rparr>)"
| waitpid_stopped: "shell_pc s = WaitFor p \<Longrightarrow> p = None \<or> p = Some c \<Longrightarrow> kids s c = Some (st, Stopped) \<Longrightarrow>
    job_step tty grabs pid grp s (s\<lparr>shell_pc := TakeTerminal\<rparr>)"
| waitpid_nobody: "shell_pc s = WaitFor None \<Longrightarrow> kids s = Map.empty \<Longrightarrow>
    job_step tty grabs pid grp s (s\<lparr>shell_pc := TakeTerminal\<rparr>)"
| take_terminal: "shell_pc s = TakeTerminal \<Longrightarrow>
    job_step tty grabs pid grp s ((tcsetpgrp tty grp (Some pid) s)\<lparr>shell_pc := AtLine\<rparr>)"
| wait_start: "shell_pc s = AtLine \<Longrightarrow>
    job_step tty grabs pid grp s (s\<lparr>shell_pc := (if numBack s = 0 then AtLine else WaitAny (numBack s))\<rparr>)"
| wait_ended: "shell_pc s = WaitAny (Suc k) \<Longrightarrow> kids s c = Some (st, Zombie) \<Longrightarrow>
    job_step tty grabs pid grp s
      (set_kid c None s\<lparr>numBack := k, shell_pc := (if k = 0 then AtLine else WaitAny k)\<rparr>)"
| wait_nobody: "shell_pc s = WaitAny (Suc k) \<Longrightarrow> kids s = Map.empty \<Longrightarrow>
    job_step tty grabs pid grp s (s\<lparr>numBack := k, shell_pc := (if k = 0 then AtLine else WaitAny k)\<rparr>)"
| kid_setpgid: "kids s c = Some (Forked, Active) \<Longrightarrow>
    job_step tty grabs pid grp s (set_kid c (Some (Grouped, Active)) s)"
| kid_exec: "kids s c = Some (Grouped, Active) \<Longrightarrow>
    job_step tty grabs pid grp s (set_kid c (Some (Running, Active)) s)"
| kid_stopped: "kids s c = Some (st, Active) \<Longrightarrow> job_step tty grabs pid grp s (set_kid c (Some (st, Stopped)) s)"
| kid_continued: "kids s c = Some (st, Stopped) \<Longrightarrow> job_step tty grabs pid grp s (set_kid c (Some (st, Active)) s)"
| kid_ends: "kids s c = Some (st, a) \<Longrightarrow> a \<noteq> Zombie \<Longrightarrow>
    job_step tty grabs pid grp s (set_kid c (Some (st, Zombie)) s)"
| kid_grabs: "kids s c = Some (Running, Active) \<Longrightarrow> grabs c \<Longrightarrow> tty \<Longrightarrow>
    job_step tty grabs pid grp s (s\<lparr>fg := g\<rparr>)"

inductive job_reach :: "bool \<Rightarrow> (nat \<Rightarrow> bool) \<Rightarrow> nat \<Rightarrow> nat \<Rightarrow> jobs \<Rightarrow> bool"
  for tty :: bool and grabs :: "nat \<Rightarrow> bool" and pid :: nat and grp :: nat where
  start: "job_reach tty grabs pid grp
    \<lparr>kids = Map.empty, fg = grp, shell_pc = AtLine, numBack = 0, failed = 0\<rparr>"
| step: "job_reach tty grabs pid grp s \<Longrightarrow> job_step tty grabs pid grp s s' \<Longrightarrow> job_reach tty grabs pid grp s'"

inductive_cases job_stepE: "job_step tty grabs pid grp s s'"

lemmas job_updates [simp] = set_kid_def

lemma tcsetpgrp_fields [simp]:
  "kids (tcsetpgrp tty grp g s) = kids s" "shell_pc (tcsetpgrp tty grp g s) = shell_pc s"
  "numBack (tcsetpgrp tty grp g s) = numBack s" "failed (tcsetpgrp tty grp g s) = failed s"
  by (simp_all add: tcsetpgrp_def split: option.splits)

lemma fg_tcsetpgrp [simp]:
  "fg (tcsetpgrp tty grp None s) = fg s"
  "fg (tcsetpgrp tty grp (Some g) s) = (if tty \<and> group_exists grp s g then g else fg s)"
  by (simp_all add: tcsetpgrp_def)


section \<open>Who has the terminal\<close>

definition terminal_inv :: "bool \<Rightarrow> nat \<Rightarrow> jobs \<Rightarrow> bool" where
  "terminal_inv tty grp s \<longleftrightarrow> (\<not> tty \<longrightarrow> fg s = grp) \<and>
     (case shell_pc s of
        AtLine \<Rightarrow> fg s = grp
      | GiveTerminal p \<Rightarrow> fg s = grp
      | WaitFor p \<Rightarrow> fg s = grp \<or> p = Some (fg s)
      | TakeTerminal \<Rightarrow> True
      | WaitAny k \<Rightarrow> fg s = grp)"

lemma terminal_step:
  "job_step tty (\<lambda>_. False) grp grp s s' \<Longrightarrow> terminal_inv tty grp s \<Longrightarrow> terminal_inv tty grp s'"
proof (induction rule: job_step.induct)
  case (give_terminal s p)
  then show ?case by (cases p) (auto simp: terminal_inv_def)
qed (auto simp: terminal_inv_def group_exists_def split: shell_pc.splits)

lemma terminal_reach: "job_reach tty (\<lambda>_. False) grp grp s \<Longrightarrow> terminal_inv tty grp s"
proof (induction rule: job_reach.induct)
  case start
  then show ?case by (simp add: terminal_inv_def)
qed (rule terminal_step)

text \<open>C21. As long as no child changes the terminal by a call of its own, and whatever else the children
  do, and whichever forks fail, a shell that leads its process group has the terminal whenever it
  reads a line, is about to start a command or waits for background processes; in waitpid the
  terminal is the shell's or that of the command waited for.  And even if children take the
  terminal, the shell has it again after every command in the foreground.\<close>

theorem terminal_returned:
  assumes "job_reach tty (\<lambda>_. False) grp grp s"
  shows "(shell_pc s = AtLine \<longrightarrow> fg s = grp) \<and> (shell_pc s = WaitAny k \<longrightarrow> fg s = grp) \<and>
    (shell_pc s = GiveTerminal p \<longrightarrow> fg s = grp) \<and> (shell_pc s = WaitFor p \<longrightarrow> fg s = grp \<or> p = Some (fg s)) \<and>
    (\<forall>grabs t t'. job_step True grabs grp grp t t' \<and> shell_pc t = TakeTerminal \<and> shell_pc t' = AtLine \<longrightarrow> fg t' = grp)"
proof -
  have "fg t' = grp"
    if "job_step True grabs grp grp t t'" "shell_pc t = TakeTerminal" "shell_pc t' = AtLine" for grabs t t'
    using that by (auto elim!: job_stepE simp: group_exists_def)
  then show ?thesis using terminal_reach [OF assms] by (auto simp: terminal_inv_def)
qed


section \<open>How many are waited for\<close>

text \<open>
  The children of the shell but for the one in the foreground; a failed \<open>fork\<close> in the foreground,
  during whose \<open>waitpid\<close> any child may be reaped, is not yet made up for.
\<close>

definition others :: "jobs \<Rightarrow> nat set" where
  "others s = {c. kids s c \<noteq> None \<and> shell_pc s \<noteq> GiveTerminal (Some c) \<and> shell_pc s \<noteq> WaitFor (Some c)}"

definition reserved :: "jobs \<Rightarrow> nat" where
  "reserved s = (if shell_pc s = GiveTerminal None \<or> shell_pc s = WaitFor None then 1 else 0)"

definition count_inv :: "jobs \<Rightarrow> bool" where
  "count_inv s \<longleftrightarrow>
     {c. kids s c \<noteq> None} \<subseteq> {..<4194304} \<and> numBack s + reserved s \<le> card (others s) + failed s \<and>
     (\<forall>c. shell_pc s = GiveTerminal (Some c) \<or> shell_pc s = WaitFor (Some c) \<longrightarrow> kids s c \<noteq> None) \<and>
     (\<forall>k. shell_pc s = WaitAny k \<longrightarrow> k = numBack s \<and> 0 < k)"

lemma others_finite: "count_inv s \<Longrightarrow> finite (others s)"
  unfolding count_inv_def others_def by (auto intro: finite_subset [of _ "{..<4194304::nat}"])

text \<open>A step of a child changes its state and nothing else.\<close>

lemma count_kid:
  assumes "count_inv s" "kids s c = Some y"
  shows "count_inv (s\<lparr>kids := (kids s)(c \<mapsto> k)\<rparr>)"
proof -
  have "others (s\<lparr>kids := (kids s)(c \<mapsto> k)\<rparr>) = others s" using assms(2) by (auto simp: others_def)
  moreover have "{x. ((kids s)(c \<mapsto> k)) x \<noteq> None} = {x. kids s x \<noteq> None}" using assms(2) by auto
  ultimately show ?thesis using assms by (auto simp: count_inv_def reserved_def)
qed

lemma count_reap:
  assumes "count_inv s" "kids s c = Some y" "p = AtLine \<or> p = TakeTerminal \<or> (\<exists>k. p = WaitAny k)"
  shows "card (others s) \<le> card (others (s\<lparr>kids := (kids s)(c := None), numBack := n, shell_pc := p\<rparr>)) + 1"
proof -
  let ?s = "s\<lparr>kids := (kids s)(c := None), numBack := n, shell_pc := p\<rparr>"
  have "finite {c. kids s c \<noteq> None}"
    using assms(1) by (auto simp: count_inv_def intro: finite_subset [of _ "{..<4194304::nat}"])
  moreover have "others ?s = {c. kids s c \<noteq> None} - {c}" using assms(3) by (auto simp: others_def)
  ultimately have "finite (others ?s)" "others s \<subseteq> insert c (others ?s)" by (auto simp: others_def)
  then have "card (others s) \<le> card (insert c (others ?s))" by (intro card_mono) simp_all
  also have "\<dots> \<le> card (others ?s) + 1" using \<open>finite (others ?s)\<close> by (simp add: card_insert_if)
  finally show ?thesis .
qed

lemma count_step:
  assumes "job_step tty grabs pid grp s s'" "count_inv s"
  shows "count_inv s'"
  using assms
proof (induction rule: job_step.induct)
  case (fork_foreground s c)
  have "others (s\<lparr>kids := (kids s)(c \<mapsto> (Forked, Active)), shell_pc := GiveTerminal (Some c)\<rparr>) = others s"
    using fork_foreground by (auto simp: others_def)
  then show ?case using fork_foreground by (auto simp: count_inv_def reserved_def)
next
  case (fork_background s c)
  have "others (s\<lparr>kids := (kids s)(c \<mapsto> (Forked, Active)), numBack := Suc (numBack s)\<rparr>) = insert c (others s)"
    "c \<notin> others s"
    using fork_background by (auto simp: others_def)
  then show ?case using fork_background others_finite [of s] by (auto simp: count_inv_def reserved_def)
next
  case (fork_fails_foreground s)
  then show ?case by (auto simp: count_inv_def reserved_def others_def)
next
  case (fork_fails_background s)
  then show ?case by (auto simp: count_inv_def reserved_def others_def)
next
  case (give_terminal s p)
  have "others ((tcsetpgrp tty grp p s)\<lparr>shell_pc := WaitFor p\<rparr>) = others s"
    using give_terminal by (cases p) (auto simp: others_def)
  then show ?case using give_terminal by (auto simp: count_inv_def reserved_def)
next
  case (waitpid_ended s p c st)
  let ?s = "s\<lparr>kids := (kids s)(c := None), shell_pc := TakeTerminal\<rparr>"
  have "card (others s) \<le> card (others ?s) + reserved s"
  proof (cases p)
    case None
    then show ?thesis using count_reap [OF waitpid_ended(4,3), of TakeTerminal "numBack s"] waitpid_ended(1)
      by (simp add: reserved_def others_def)
  next
    case (Some d)
    then have "others ?s = others s" using waitpid_ended(1,2) by (auto simp: others_def)
    then show ?thesis by simp
  qed
  then show ?case using waitpid_ended(4) by (auto simp: count_inv_def reserved_def)
next
  case (waitpid_stopped s p c st)
  have "finite {x. kids s x \<noteq> None}"
    using waitpid_stopped(4) by (auto simp: count_inv_def intro: finite_subset [of _ "{..<4194304::nat}"])
  then have "card (others s) \<le> card (others (s\<lparr>shell_pc := TakeTerminal\<rparr>))"
    by (intro card_mono) (auto simp: others_def)
  then show ?case using waitpid_stopped(4) by (auto simp: count_inv_def reserved_def)
next
  case (waitpid_nobody s)
  then show ?case by (auto simp: count_inv_def reserved_def others_def)
next
  case (take_terminal s)
  have "others ((tcsetpgrp tty grp (Some pid) s)\<lparr>shell_pc := AtLine\<rparr>) = others s"
    using take_terminal by (auto simp: others_def)
  then show ?case using take_terminal by (auto simp: count_inv_def reserved_def)
next
  case (wait_start s)
  have "others (s\<lparr>shell_pc := (if numBack s = 0 then AtLine else WaitAny (numBack s))\<rparr>) = others s"
    using wait_start by (auto simp: others_def)
  then show ?case using wait_start by (auto simp: count_inv_def reserved_def)
next
  case (wait_ended s k c st)
  let ?s = "s\<lparr>kids := (kids s)(c := None), numBack := k, shell_pc := (if k = 0 then AtLine else WaitAny k)\<rparr>"
  have "card (others s) \<le> card (others ?s) + 1" by (rule count_reap [OF wait_ended(3,2)]) simp
  moreover have "Suc k \<le> card (others s) + failed s" using wait_ended(1,3) by (auto simp: count_inv_def)
  ultimately show ?case using wait_ended(3) by (auto simp: count_inv_def reserved_def)
next
  case (wait_nobody s k)
  then have "others s = {}" by (auto simp: others_def)
  then show ?case using wait_nobody by (auto simp: count_inv_def reserved_def others_def)
next
  case (kid_grabs s c g)
  then show ?case by (auto simp: count_inv_def reserved_def others_def)
qed (auto intro!: count_kid)

lemma count_reach: "job_reach tty grabs pid grp s \<Longrightarrow> count_inv s"
proof (induction rule: job_reach.induct)
  case start
  then show ?case by (simp add: count_inv_def reserved_def)
qed (rule count_step)

text \<open>C38. numBack never exceeds the number of children that have not been waited for by more than the
  number of calls of fork that have failed; the loop of cmd_wait calls wait exactly numBack times,
  and as long as no fork has failed no call is made without a child to wait for.  The loop goes
  on as soon as some child has ended.  This holds for any shell, interactive or not, whatever its
  process group and whatever its children do.\<close>

theorem wait_has_children:
  assumes "job_reach tty grabs pid grp s"
  shows "numBack s \<le> card {c. kids s c \<noteq> None} + failed s \<and>
    (shell_pc s = WaitAny k \<longrightarrow> k = numBack s \<and> (failed s < k \<longrightarrow> (\<exists>c. kids s c \<noteq> None)) \<and>
       (\<forall>c st. kids s c = Some (st, Zombie) \<longrightarrow> (\<exists>s'. job_step tty grabs pid grp s s' \<and> numBack s' = k - 1 \<and>
          shell_pc s' = (if k = 1 then AtLine else WaitAny (k - 1)))))"
proof -
  have i: "count_inv s" by (rule count_reach [OF assms])
  have "finite {c. kids s c \<noteq> None}"
    using i by (auto simp: count_inv_def intro: finite_subset [of _ "{..<4194304::nat}"])
  then have "card (others s) \<le> card {c. kids s c \<noteq> None}" by (intro card_mono) (auto simp: others_def)
  then have n: "numBack s \<le> card {c. kids s c \<noteq> None} + failed s" using i by (simp add: count_inv_def)
  have w: "k = numBack s \<and> 0 < k" if "shell_pc s = WaitAny k" using that i by (simp add: count_inv_def)
  have c: "\<exists>c. kids s c \<noteq> None" if "failed s < numBack s"
  proof (rule ccontr)
    assume "\<not> (\<exists>c. kids s c \<noteq> None)"
    then have "{c. kids s c \<noteq> None} = {}" by blast
    then show False using n that by (simp only: card.empty)
  qed
  have "\<exists>s'. job_step tty grabs pid grp s s' \<and> numBack s' = k - 1 \<and>
      shell_pc s' = (if k = 1 then AtLine else WaitAny (k - 1))"
    if a: "shell_pc s = WaitAny k" "kids s c = Some (st, Zombie)" for c st
  proof -
    obtain j where j: "k = Suc j" using w [OF a(1)] gr0_conv_Suc by blast
    show ?thesis unfolding j by (intro exI conjI, rule wait_ended [OF a(1) [unfolded j] a(2)]) simp_all
  qed
  then show ?thesis using n w c by (intro conjI impI allI) (assumption | simp)+
qed


section \<open>What goes wrong\<close>

lemmas reach_start = job_reach.step [OF job_reach.start]

text \<open>
  A command in the foreground gets the terminal if its \<open>setpgid\<close> comes before the shell's
  \<open>tcsetpgrp\<close>.  If it comes after, \<open>tcsetpgrp\<close> fails unnoticed: the command runs in the background
  while the shell waits for it.
\<close>

lemma foreground_race:
  "(\<forall>s s' st a. shell_pc s = GiveTerminal (Some c) \<and> kids s c = Some (st, a) \<and> st \<noteq> Forked \<and>
      job_step True grabs pid grp s s' \<and> shell_pc s' = WaitFor (Some c) \<longrightarrow> fg s' = c) \<and>
   (\<exists>s. job_reach True (\<lambda>_. False) 1 1 s \<and> shell_pc s = WaitFor (Some 2) \<and> kids s 2 = Some (Running, Active) \<and> fg s = 1)"
proof
  show "\<forall>s s' st a. shell_pc s = GiveTerminal (Some c) \<and> kids s c = Some (st, a) \<and> st \<noteq> Forked \<and>
      job_step True grabs pid grp s s' \<and> shell_pc s' = WaitFor (Some c) \<longrightarrow> fg s' = c"
    by (auto elim!: job_stepE simp: group_exists_def)
next
  let ?s = "\<lambda>k p. \<lparr>kids = [2 \<mapsto> k], fg = 1, shell_pc = p, numBack = 0, failed = 0\<rparr>"
  let ?reach = "job_reach True (\<lambda>_. False) 1 1"
  have "?reach (?s (Forked, Active) (GiveTerminal (Some 2)))"
    using reach_start [OF fork_foreground [of _ 2]] by simp
  moreover have "tcsetpgrp True 1 (Some 2) (?s (Forked, Active) (GiveTerminal (Some 2))) = ?s (Forked, Active) (GiveTerminal (Some 2))"
    by (simp add: tcsetpgrp_def group_exists_def)
  ultimately have "?reach (?s (Forked, Active) (WaitFor (Some 2)))" using job_reach.step [OF _ give_terminal] by fastforce
  then have "?reach (?s (Grouped, Active) (WaitFor (Some 2)))" using job_reach.step [OF _ kid_setpgid [of _ 2]] by fastforce
  then have "?reach (?s (Running, Active) (WaitFor (Some 2)))" using job_reach.step [OF _ kid_exec [of _ 2]] by fastforce
  then show "\<exists>s. ?reach s \<and> shell_pc s = WaitFor (Some 2) \<and> kids s 2 = Some (Running, Active) \<and> fg s = 1"
    by (intro exI conjI, assumption) simp_all
qed

text \<open>A command in the background can take the terminal from a shell that reads a line.\<close>

lemma terminal_grabbed:
  "\<exists>s. job_reach True (\<lambda>_. True) 1 1 s \<and> shell_pc s = AtLine \<and> kids s 2 = Some (Running, Active) \<and> numBack s = 1 \<and> fg s = 2"
proof -
  let ?s = "\<lambda>k f. \<lparr>kids = [2 \<mapsto> k], fg = f, shell_pc = AtLine, numBack = 1, failed = 0\<rparr>"
  let ?reach = "job_reach True (\<lambda>_. True) 1 1"
  have "?reach (?s (Forked, Active) 1)" using reach_start [OF fork_background [of _ 2]] by simp
  then have "?reach (?s (Grouped, Active) 1)" using job_reach.step [OF _ kid_setpgid [of _ 2]] by fastforce
  then have "?reach (?s (Running, Active) 1)" using job_reach.step [OF _ kid_exec [of _ 2]] by fastforce
  then have "?reach (?s (Running, Active) 2)" using job_reach.step [OF _ kid_grabs [where c = 2 and g = 2]] by fastforce
  then show ?thesis by (intro exI conjI, assumption) simp_all
qed

text \<open>A failed \<open>fork\<close> is counted as a process in the background; \<open>wait\<close> is then called without a child.\<close>

lemma fork_failure_counted:
  "\<exists>s. job_reach tty grabs pid grp s \<and> shell_pc s = WaitAny 1 \<and> kids s = Map.empty"
proof -
  let ?s = "\<lambda>p. \<lparr>kids = Map.empty, fg = grp, shell_pc = p, numBack = 1, failed = 1\<rparr>"
  have "job_reach tty grabs pid grp (?s AtLine)" using reach_start [OF fork_fails_background] by simp
  then have "job_reach tty grabs pid grp (?s (WaitAny 1))" using job_reach.step [OF _ wait_start] by fastforce
  then show ?thesis by (intro exI conjI, assumption) simp_all
qed

text \<open>
  \<open>init_shell\<close> returns when the terminal belongs to the shell's group, after one stop for each
  time it did not.
\<close>

lemma pause_loop_spec:
  "pause_loop grp gs stops =
     (if grp \<in> set gs then Some (stops + length (takeWhile (\<lambda>g. g \<noteq> grp) gs)) else None)"
  by (induction gs arbitrary: stops) auto

lemma init_shell_foreground:
  assumes "kids s = Map.empty" "init_shell isatty pid grp gs s = Some (pgid, stops, s')"
  shows "isatty \<Longrightarrow> fg s' = grp \<and> pgid = Some pid \<and> stops = length (takeWhile (\<lambda>g. g \<noteq> grp) gs)"
    "\<not> isatty \<Longrightarrow> s' = s"
  using assms by (auto simp: init_shell_def pause_loop_spec group_exists_def split: if_splits option.splits)

text \<open>
  The shell does not make itself the leader of a group.  Started as a member of another one, it
  gives the terminal away with the first command and does not get it back.
\<close>

lemma terminal_lost:
  "\<exists>s. job_reach True (\<lambda>_. False) 3 1 s \<and> shell_pc s = AtLine \<and> kids s = Map.empty \<and> fg s = 2"
proof -
  let ?s = "\<lambda>k f p. \<lparr>kids = [2 \<mapsto> k], fg = f, shell_pc = p, numBack = 0, failed = 0\<rparr>"
  let ?e = "\<lambda>p. \<lparr>kids = Map.empty, fg = 2, shell_pc = p, numBack = 0, failed = 0\<rparr>"
  let ?reach = "job_reach True (\<lambda>_. False) 3 1"
  have "?reach (?s (Forked, Active) 1 (GiveTerminal (Some 2)))"
    using reach_start [OF fork_foreground [of _ 2]] by simp
  then have "?reach (?s (Grouped, Active) 1 (GiveTerminal (Some 2)))" using job_reach.step [OF _ kid_setpgid [of _ 2]] by fastforce
  moreover have "(tcsetpgrp True 1 (Some 2) (?s (Grouped, Active) 1 (GiveTerminal (Some 2))))\<lparr>shell_pc := WaitFor (Some 2)\<rparr> =
      ?s (Grouped, Active) 2 (WaitFor (Some 2))"
    by (simp add: tcsetpgrp_def group_exists_def)
  ultimately have "?reach (?s (Grouped, Active) 2 (WaitFor (Some 2)))" using job_reach.step [OF _ give_terminal] by fastforce
  then have "?reach (?s (Grouped, Zombie) 2 (WaitFor (Some 2)))" using job_reach.step [OF _ kid_ends [of _ 2]] by fastforce
  then have "?reach (?e TakeTerminal)" using job_reach.step [OF _ waitpid_ended [of _ _ 2]] by fastforce
  then have "?reach ((tcsetpgrp True 1 (Some 3) (?e TakeTerminal))\<lparr>shell_pc := AtLine\<rparr>)"
    by (rule job_reach.step [OF _ take_terminal]) simp
  then show ?thesis by (intro exI conjI, assumption) (simp_all add: group_exists_def)
qed


section \<open>Instances\<close>

lemma sample_waiting:
  "job_reach True (\<lambda>_. False) 1 1 \<lparr>kids = [2 \<mapsto> (Grouped, Zombie)], fg = 1, shell_pc = WaitAny 1, numBack = 1, failed = 0\<rparr>"
proof -
  let ?s = "\<lambda>k p. \<lparr>kids = [2 \<mapsto> k], fg = 1, shell_pc = p, numBack = 1, failed = 0\<rparr>"
  let ?reach = "job_reach True (\<lambda>_. False) 1 1"
  have "?reach (?s (Forked, Active) AtLine)" using reach_start [OF fork_background [of _ 2]] by simp
  then have "?reach (?s (Grouped, Active) AtLine)" using job_reach.step [OF _ kid_setpgid [of _ 2]] by fastforce
  then have "?reach (?s (Grouped, Zombie) AtLine)" using job_reach.step [OF _ kid_ends [of _ 2]] by fastforce
  then show ?thesis using job_reach.step [OF _ wait_start] by fastforce
qed

theorem terminal_returned_witness:
  "\<exists>s. job_reach True (\<lambda>_. False) 1 1 s \<and> shell_pc s = WaitAny 1 \<and> fg s = 1"
  using sample_waiting terminal_returned [OF sample_waiting, of 1] by auto

theorem wait_has_children_witness:
  "\<exists>s s'. job_reach True (\<lambda>_. False) 1 1 s \<and> shell_pc s = WaitAny 1 \<and> job_step True (\<lambda>_. False) 1 1 s s' \<and>
     numBack s' = 0 \<and> shell_pc s' = AtLine"
  using sample_waiting wait_has_children [OF sample_waiting, of 1] by fastforce

end
