(* ===== verification/Http.thy ===== *)
theory Http
  imports Prelude
begin

text \<open>
  The HTTP library of the web server, \<open>hw2/libhttp.c\<close>: parsing a request line out of the
  bytes one \<open>read\<close> delivers, the text of a response, sending data with partial writes, and
  the type of a file.

  What \<open>read\<close> and \<open>write\<close> do is a parameter: the bytes of the request (None for an error), and
  the list of results of the successive writes.  \<open>malloc\<close> succeeds.
\<close>

section \<open>Requests\<close>

definition LIBHTTP_REQUEST_MAX_SIZE :: nat where "LIBHTTP_REQUEST_MAX_SIZE = 8192"

record http_request =
  request_method :: string
  path :: string

text \<open>\<open>while (P(*read_end)) read_end++;\<close> over a buffer, from index \<open>i\<close>.\<close>

function scan_while :: "(char \<Rightarrow> bool) \<Rightarrow> string \<Rightarrow> nat \<Rightarrow> nat result" where
  "scan_while P b i =
     (if i < length b then (if P (b ! i) then scan_while P b (i + 1) else Inr i) else Inl Overrun)"
  by pat_completeness auto
termination by (relation "measure (\<lambda>(_, b, i). length b - i)") auto

declare scan_while.simps [simp del]

definition slice :: "string \<Rightarrow> nat \<Rightarrow> nat \<Rightarrow> string" where
  "slice b i j = take (j - i) (drop i b)"

definition is_method_char :: "char \<Rightarrow> bool" where
  "is_method_char c \<longleftrightarrow> 65 \<le> (of_char c :: nat) \<and> (of_char c :: nat) \<le> 90"

definition is_path_char :: "char \<Rightarrow> bool" where
  "is_path_char c \<longleftrightarrow> c \<noteq> NUL \<and> c \<noteq> CHR '' '' \<and> c \<noteq> NEWLINE"

definition is_line_char :: "char \<Rightarrow> bool" where
  "is_line_char c \<longleftrightarrow> c \<noteq> NUL \<and> c \<noteq> NEWLINE"

text \<open>The body of the \<open>do ... while (0)\<close>; None is \<open>break\<close>.\<close>

definition parse_request_line :: "string \<Rightarrow> http_request option result" where
  "parse_request_line b =
     andthen (scan_while is_method_char b 0) (\<lambda>read_end.
     if read_end = 0 then Inr None
     else if b ! read_end \<noteq> CHR '' '' then Inr None
     else
       let read_start = read_end + 1 in
       andthen (scan_while is_path_char b read_start) (\<lambda>path_end.
       if path_end - read_start = 0 then Inr None
       else
         andthen (scan_while is_line_char b path_end) (\<lambda>line_end.
         if b ! line_end \<noteq> NEWLINE then Inr None
         else Inr (Some \<lparr>request_method = slice b 0 read_end, path = slice b read_start path_end\<rparr>))))"

definition http_request_parse :: "string option \<Rightarrow> junk \<Rightarrow> http_request option result" where
  "http_request_parse bytes J =
     (case bytes of
        None \<Rightarrow> Inl Overrun   \<comment> \<open>the store to \<open>read_buffer[-1]\<close>\<close>
      | Some got \<Rightarrow>
          let n = length got;
              read_buffer = got @ drop n (uninit J ''read_buffer'' (LIBHTTP_REQUEST_MAX_SIZE + 1)) in
          andthen (guard (n < length read_buffer) Overrun) (\<lambda>_.
          parse_request_line (read_buffer[n := NUL])))"


section \<open>Responses\<close>

definition http_get_response_message :: "int \<Rightarrow> string" where
  "http_get_response_message status_code =
     (if status_code = 100 then ''Continue''
      else if status_code = 200 then ''OK''
      else if status_code = 301 then ''Moved Permanently''
      else if status_code = 302 then ''Found''
      else if status_code = 304 then ''Not Modified''
      else if status_code = 400 then ''Bad Request''
      else if status_code = 401 then ''Unauthorized''
      else if status_code = 403 then ''Forbidden''
      else if status_code = 404 then ''Not Found''
      else if status_code = 405 then ''Method Not Allowed''
      else ''Internal Server Error'')"

text \<open>The text each call writes.\<close>

definition http_start_response :: "int \<Rightarrow> string" where
  "http_start_response status_code =
     ''HTTP/1.0 '' @ dec_int status_code @ '' '' @ http_get_response_message status_code @ crlf"

definition http_send_header :: "string \<Rightarrow> string \<Rightarrow> string" where
  "http_send_header key val = key @ '': '' @ val @ crlf"

definition http_end_headers :: string where
  "http_end_headers = crlf"

text \<open>
  \<open>http_send_data\<close>: each \<open>write\<close> gets all that is left and its result, the next of \<open>results\<close>, says
  how much it took.  \<open>sent\<close> is what the peer has received.
\<close>

fun http_send_data :: "int list \<Rightarrow> string \<Rightarrow> string \<Rightarrow> string result" where
  "http_send_data results sent [] = Inr sent"
| "http_send_data [] sent (c # data) = Inl OutOfFuel"
| "http_send_data (bytes_sent # results) sent (c # data) =
     (if bytes_sent < 0 then Inr sent
      else http_send_data results (sent @ take (nat bytes_sent) (c # data))
             (drop (nat bytes_sent) (c # data)))"

definition http_send_string :: "int list \<Rightarrow> string \<Rightarrow> string \<Rightarrow> string result" where
  "http_send_string results sent data = http_send_data results sent (cstr data)"


section \<open>File types\<close>

text \<open>The suffix that starts at the last occurrence of a character.\<close>

fun strrchr :: "string \<Rightarrow> char \<Rightarrow> string option" where
  "strrchr [] c = None"
| "strrchr (x # xs) c =
     (case strrchr xs c of Some r \<Rightarrow> Some r | None \<Rightarrow> if x = c then Some (x # xs) else None)"

definition http_get_mime_type :: "string \<Rightarrow> string" where
  "http_get_mime_type file_name =
     (case strrchr file_name CHR ''.'' of
        None \<Rightarrow> ''text/plain''
      | Some file_extension \<Rightarrow>
          if file_extension = ''.html'' \<or> file_extension = ''.htm'' then ''text/html''
          else if file_extension = ''.jpg'' \<or> file_extension = ''.jpeg'' then ''image/jpeg''
          else if file_extension = ''.png'' then ''image/png''
          else if file_extension = ''.css'' then ''text/css''
          else if file_extension = ''.js'' then ''application/javascript''
          else if file_extension = ''.pdf'' then ''application/pdf''
          else ''text/plain'')"

end
