(* ===== verification/HttpProps.thy ===== *)
theory HttpProps
  imports Http
begin

text \<open>The properties of the HTTP library.\<close>

section \<open>Requests\<close>

lemma scan_while_append:
  assumes "\<forall>c \<in> set m. P c" "\<not> P d"
  shows "scan_while P (a @ m @ d # r) (length a) = Inr (length a + length m)"
  using assms
proof (induction m arbitrary: a)
  case Nil
  then show ?case by (simp add: scan_while.simps nth_append)
next
  case (Cons c m)
  have "scan_while P (a @ (c # m) @ d # r) (length a) =
      scan_while P ((a @ [c]) @ m @ d # r) (length (a @ [c]))"
    using Cons.prems by (subst scan_while.simps) (simp add: nth_append)
  also have "\<dots> = Inr (length a + length (c # m))"
    using Cons.IH [of "a @ [c]"] Cons.prems by simp
  finally show ?case .
qed

text \<open>Every buffer with a character that stops the scan splits there.\<close>

lemma scan_while_split:
  assumes "z \<in> set x" "\<not> P z"
  obtains m d r where "x = m @ d # r" "\<forall>c \<in> set m. P c" "\<not> P d"
proof
  have "\<exists>c \<in> set x. \<not> P c" using assms by blast
  then have ne: "dropWhile P x \<noteq> []" by (simp add: dropWhile_eq_Nil_conv)
  then show "x = takeWhile P x @ hd (dropWhile P x) # tl (dropWhile P x)" by simp
  show "\<forall>c \<in> set (takeWhile P x). P c" by (auto dest: set_takeWhileD)
  show "\<not> P (hd (dropWhile P x))" by (rule hd_dropWhile [OF ne])
qed

text \<open>A well-formed request line: a method, a space, a path, anything up to a newline.\<close>

definition request_line :: "string \<Rightarrow> string \<Rightarrow> string \<Rightarrow> bool" where
  "request_line got m p \<longleftrightarrow>
     (\<exists>v r. got = m @ '' '' @ p @ v @ NEWLINE # r \<and>
        m \<noteq> [] \<and> list_all is_method_char m \<and> p \<noteq> [] \<and> list_all is_path_char p \<and>
        list_all is_line_char v \<and> (v = [] \<or> hd v = CHR '' ''))"

lemma stop_chars [simp]:
  "\<not> is_method_char CHR '' ''" "\<not> is_path_char CHR '' ''" "\<not> is_path_char NEWLINE"
  "\<not> is_line_char NEWLINE" "\<not> is_method_char NUL" "\<not> is_path_char NUL" "\<not> is_line_char NUL"
  by (simp_all add: is_method_char_def is_path_char_def is_line_char_def)

lemma parse_request_line_some:
  assumes "request_line b m p"
  shows "parse_request_line b = Inr (Some \<lparr>request_method = m, path = p\<rparr>)"
proof -
  obtain v r where b: "b = m @ '' '' @ p @ v @ NEWLINE # r" and ne: "m \<noteq> []" "p \<noteq> []"
    and all: "\<forall>c \<in> set m. is_method_char c" "\<forall>c \<in> set p. is_path_char c" "\<forall>c \<in> set v. is_line_char c"
    and v: "v = [] \<or> hd v = CHR '' ''"
    using assms by (auto simp: request_line_def list_all_iff)
  let ?e = "length m" and ?s = "length m + 1"
  have 1: "scan_while is_method_char b 0 = Inr ?e" "b ! ?e = CHR '' ''"
    using scan_while_append [of m is_method_char "CHR '' ''" "[]" "p @ v @ NEWLINE # r"] all(1)
    by (simp_all add: b nth_append)
  obtain d x where d: "v @ NEWLINE # r = d # x" "\<not> is_path_char d"
    using v by (cases v) auto
  have 2: "scan_while is_path_char b ?s = Inr (?s + length p)"
    using scan_while_append [of p is_path_char d "m @ '' ''" x] all(2) d by (simp add: b)
  have 3: "scan_while is_line_char b (?s + length p) = Inr (?s + length p + length v)"
    using scan_while_append [of v is_line_char NEWLINE "m @ '' '' @ p" r] all(3) by (simp add: b)
  have 4: "b ! (?s + length p + length v) = NEWLINE"
    using nth_append_length [of "m @ '' '' @ p @ v" NEWLINE r] by (simp add: b add.assoc)
  have "slice b 0 ?e = m" "slice b ?s (?s + length p) = p" by (simp_all add: b slice_def)
  then show ?thesis using 1 2 3 4 ne by (simp add: parse_request_line_def Let_def)
qed

lemma parse_request_line_none:
  assumes "NUL \<in> set b" "\<And>m p. \<not> request_line b m p"
  shows "parse_request_line b = Inr None"
proof -
  obtain m d r where b: "b = m @ d # r" "\<forall>c \<in> set m. is_method_char c" "\<not> is_method_char d"
    by (rule scan_while_split [OF assms(1), of is_method_char]) simp
  have 1: "scan_while is_method_char b 0 = Inr (length m)" "b ! length m = d"
    using scan_while_append [of m is_method_char d "[]" r] b by simp_all
  show ?thesis
  proof (cases "m = [] \<or> d \<noteq> CHR '' ''")
    case True
    then show ?thesis using 1 by (auto simp: parse_request_line_def)
  next
    case False
    then have "NUL \<in> set r" using assms(1) b by auto
    then obtain p e x where r: "r = p @ e # x" "\<forall>c \<in> set p. is_path_char c" "\<not> is_path_char e"
      by (rule scan_while_split [of NUL r is_path_char]) simp
    have 2: "scan_while is_path_char b (length m + 1) = Inr (length m + 1 + length p)"
      using scan_while_append [of p is_path_char e "m @ [d]" x] r by (simp add: b(1))
    show ?thesis
    proof (cases "p = []")
      case True
      then show ?thesis using 1 2 by (simp add: parse_request_line_def Let_def)
    next
      case p: False
      have "NUL \<in> set (e # x)" using \<open>NUL \<in> set r\<close> r by auto
      then obtain v f y where e: "e # x = v @ f # y" "\<forall>c \<in> set v. is_line_char c" "\<not> is_line_char f"
        by (rule scan_while_split [of NUL "e # x" is_line_char]) simp
      have 3: "scan_while is_line_char b (length m + 1 + length p) = Inr (length m + 1 + length p + length v)"
        using scan_while_append [of v is_line_char f "m @ [d] @ p" y] e by (simp add: b(1) r(1))
      have 4: "b ! (length m + 1 + length p + length v) = f"
        using nth_append_length [of "m @ [d] @ p @ v" f y] by (simp add: b(1) r(1) e(1) add.assoc)
      have "v = [] \<or> hd v = CHR '' ''"
        using e r(3) by (cases v) (auto simp: is_line_char_def is_path_char_def)
      then have "f = NEWLINE \<Longrightarrow> request_line b m p"
        using False p b r e unfolding request_line_def list_all_iff
        by (intro exI [of _ v] exI [of _ y]) simp
      then have "f \<noteq> NEWLINE" using assms(2) by blast
      then show ?thesis using 1 2 3 4 False p by (simp add: parse_request_line_def Let_def)
    qed
  qed
qed

lemma request_line_prefix: "request_line (got @ NUL # z) m p \<longleftrightarrow> request_line got m p"
proof
  assume "request_line got m p"
  then show "request_line (got @ NUL # z) m p" unfolding request_line_def by force
next
  assume "request_line (got @ NUL # z) m p"
  then obtain v r where e: "got @ NUL # z = (m @ '' '' @ p @ v @ [NEWLINE]) @ r" and
    w: "m \<noteq> []" "list_all is_method_char m" "p \<noteq> []" "list_all is_path_char p"
      "list_all is_line_char v" "v = [] \<or> hd v = CHR '' ''"
    by (auto simp: request_line_def)
  define P where "P = m @ '' '' @ p @ v @ [NEWLINE]"
  have "NUL \<notin> set m" "NUL \<notin> set p" "NUL \<notin> set v"
    using w(2,4,5) stop_chars(5-7) unfolding list_all_iff by blast+
  then have "NUL \<notin> set P" by (simp add: P_def)
  moreover from append_eq_append_conv2 [of got "NUL # z" P r] e [folded P_def]
  obtain us where "got @ us = P \<and> NUL # z = us @ r \<or> got = P @ us" by blast
  ultimately obtain y where "got = P @ y"
    by (cases us) auto
  then have "got = m @ '' '' @ p @ v @ NEWLINE # y" by (simp add: P_def)
  then show "request_line got m p" using w unfolding request_line_def by blast
qed

text \<open>C16. http\_request\_parse accepts exactly the inputs that start with a well-formed request
  line, and returns its method and path; on everything else it returns NULL, and never reads
  outside its buffer.\<close>

theorem request_parse_correct:
  assumes "length got \<le> 8192"
  shows "(request_line got m p \<longleftrightarrow>
      http_request_parse (Some got) J = Inr (Some \<lparr>request_method = m, path = p\<rparr>)) \<and>
    ((\<forall>m p. \<not> request_line got m p) \<longleftrightarrow> http_request_parse (Some got) J = Inr None)"
proof -
  let ?j = "drop (length got) (uninit J ''read_buffer'' 8193)"
  obtain j z where j: "?j = j # z" using assms by (cases ?j) auto
  then have "http_request_parse (Some got) J = parse_request_line (got @ NUL # z)"
    using assms by (simp add: http_request_parse_def LIBHTTP_REQUEST_MAX_SIZE_def Let_def)
  moreover have "NUL \<in> set (got @ NUL # z)" by simp
  note parse_request_line_none [OF this, unfolded request_line_prefix]
  moreover note parse_request_line_some [of "got @ NUL # z", unfolded request_line_prefix]
  ultimately show ?thesis by force
qed

theorem request_parse_correct_witness:
  "http_request_parse (Some (''GET /a HTTP/1.0'' @ crlf)) (\<lambda>_ _. NUL) =
     Inr (Some \<lparr>request_method = ''GET'', path = ''/a''\<rparr>)"
proof -
  have "request_line (''GET /a HTTP/1.0'' @ crlf) ''GET'' ''/a''"
    unfolding request_line_def
    by (intro exI [of _ "'' HTTP/1.0'' @ [CHR 0x0D]"] exI [of _ "[]"])
       (simp add: is_method_char_def is_path_char_def is_line_char_def)
  then show ?thesis
    using request_parse_correct [of "''GET /a HTTP/1.0'' @ crlf" "''GET''" "''/a''"] by simp
qed

text \<open>When the read fails, the terminating NUL is written in front of the buffer.\<close>

theorem request_parse_read_error: "http_request_parse None J = Inl Overrun"
  by (simp add: http_request_parse_def)


section \<open>Sending\<close>

text \<open>Whatever the partial writes are, the peer receives the bytes of the data in order, none
  twice and none skipped; and all of them, if no write fails and every write takes something
  as long as there is something to take.\<close>

theorem send_data_prefix:
  assumes "http_send_data results sent data = Inr out"
  shows "\<exists>n. out = sent @ take n data"
  using assms
proof (induction results sent data rule: http_send_data.induct)
  case (1 results sent)
  then show ?case by simp
next
  case (2 sent c data)
  then show ?case by simp
next
  case (3 k results sent c data)
  show ?case
  proof (cases "k < 0")
    case True
    then show ?thesis using 3 by (auto intro: exI [of _ 0])
  next
    case False
    then obtain n where "out = (sent @ take (nat k) (c # data)) @ take n (drop (nat k) (c # data))"
      using 3 by auto
    then show ?thesis by (intro exI [of _ "nat k + n"]) (simp add: take_add)
  qed
qed

theorem send_data_prefix_witness:
  "\<exists>n. ''hel'' = [] @ take n ''hello''"
  using send_data_prefix [of "[2, 1, -1]" "[]" "''hello''" "''hel''"] by simp

text \<open>C33. If every write takes at least one byte, as many writes as there are bytes are enough to
  send everything.\<close>

theorem send_data_complete:
  assumes "length data \<le> length results" "\<forall>k \<in> set results. 0 < k"
  shows "http_send_data results sent data = Inr (sent @ data)"
  using assms
proof (induction results sent data rule: http_send_data.induct)
  case (3 k results sent c data)
  then have "0 < nat k" by simp
  then have "length (drop (nat k) (c # data)) \<le> length results" using 3(2) by simp
  then show ?case using 3 by simp
qed simp_all

theorem send_data_complete_witness:
  "http_send_data [2, 1, 7, 1, 1] [] ''hello'' = Inr ''hello''"
  using send_data_complete [of "''hello''" "[2, 1, 7, 1, 1]" "[]"] by simp


section \<open>File types\<close>

definition mime_table :: "(string \<times> string) list" where
  "mime_table = [(''html'', ''text/html''), (''htm'', ''text/html''), (''jpg'', ''image/jpeg''),
     (''jpeg'', ''image/jpeg''), (''png'', ''image/png''), (''css'', ''text/css''),
     (''js'', ''application/javascript''), (''pdf'', ''application/pdf'')]"

lemma strrchr_none: "c \<notin> set e \<Longrightarrow> strrchr e c = None"
  by (induction e) auto

lemma strrchr_last: "c \<notin> set e \<Longrightarrow> strrchr (s @ c # e) c = Some (c # e)"
  by (induction s) (simp_all add: strrchr_none)

text \<open>The type of a file depends only on what follows its last dot, by the table; a name without
  a dot, and an extension that is not in the table, mean plain text.\<close>

theorem mime_type_correct:
  assumes "CHR ''.'' \<notin> set ext"
  shows "http_get_mime_type (stem @ ''.'' @ ext) =
      (case map_of mime_table ext of None \<Rightarrow> ''text/plain'' | Some t \<Rightarrow> t) \<and>
    http_get_mime_type ext = ''text/plain''"
  using assms by (simp add: http_get_mime_type_def strrchr_none strrchr_last mime_table_def)

theorem mime_type_correct_witness:
  "http_get_mime_type ''a.tar.js'' = ''application/javascript'' \<and> http_get_mime_type ''js'' = ''text/plain''"
  using mime_type_correct [of "''js''" "''a.tar''"] by (simp add: mime_table_def)

end
