(* ===== verification/UtList.thy ===== *)
theory UtList
  imports Prelude
begin

text \<open>
  The list macros of \<open>hw2/utlist.h\<close>, over the items of the work queue: singly linked lists
  (\<open>LL_\<close>), doubly linked lists whose head points back to the tail (\<open>DL_\<close>), and circular doubly
  linked lists (\<open>CDL_\<close>).  Every macro is a function of the pointers it is given and the heap, and
  returns the head it assigns.  The variants that end in \<open>2\<close> only name the link fields.

  An address is a number and NULL is 0; the links of an item are read and written in the order of
  the code, so a NULL or stale pointer on the way is a fault.  The casts of the \<open>NO_DECLTYPE\<close>
  branch are for compilers without \<open>typeof\<close> and not compiled; the two macros that come with it
  are in \<open>UtForeach\<close>.
\<close>

section \<open>Items in a heap\<close>

record wq_item =
  client_socket_fd :: int
  nxt :: nat
  prv :: nat

type_synonym heap = "nat \<Rightarrow> wq_item option"

definition load :: "heap \<Rightarrow> nat \<Rightarrow> wq_item result" where
  "load h a = (if a = 0 then Inl NullDeref
               else case h a of None \<Rightarrow> Inl Overrun | Some i \<Rightarrow> Inr i)"

definition set_next :: "nat \<Rightarrow> nat \<Rightarrow> heap \<Rightarrow> heap result" where
  "set_next a v h = andthen (load h a) (\<lambda>i. Inr (h(a \<mapsto> i\<lparr>nxt := v\<rparr>)))"

definition set_prev :: "nat \<Rightarrow> nat \<Rightarrow> heap \<Rightarrow> heap result" where
  "set_prev a v h = andthen (load h a) (\<lambda>i. Inr (h(a \<mapsto> i\<lparr>prv := v\<rparr>)))"

definition get_next :: "heap \<Rightarrow> nat \<Rightarrow> nat result" where
  "get_next h a = andthen (load h a) (\<lambda>i. Inr (nxt i))"

definition get_prev :: "heap \<Rightarrow> nat \<Rightarrow> nat result" where
  "get_prev h a = andthen (load h a) (\<lambda>i. Inr (prv i))"


section \<open>Singly linked lists\<close>

definition LL_PREPEND :: "nat \<Rightarrow> nat \<Rightarrow> heap \<Rightarrow> (nat \<times> heap) result" where
  "LL_PREPEND head add h = andthen (set_next add head h) (\<lambda>h. Inr (add, h))"

text \<open>
  \<open>while (_tmp->next && _tmp->next != stop) _tmp = _tmp->next;\<close>  With a \<open>stop\<close> of NULL this is the
  loop to the last element.  A step per element is enough fuel.
\<close>

primrec LL_walk :: "nat \<Rightarrow> nat \<Rightarrow> nat \<Rightarrow> heap \<Rightarrow> nat result" where
  "LL_walk 0 stop tmp h = Inl OutOfFuel"
| "LL_walk (Suc fuel) stop tmp h =
     andthen (get_next h tmp) (\<lambda>n.
     if n \<noteq> 0 \<and> n \<noteq> stop then LL_walk fuel stop n h else Inr tmp)"

definition LL_CONCAT :: "nat \<Rightarrow> nat \<Rightarrow> nat \<Rightarrow> heap \<Rightarrow> (nat \<times> heap) result" where
  "LL_CONCAT fuel head1 head2 h =
     (if head1 \<noteq> 0 then
        andthen (LL_walk fuel 0 head1 h) (\<lambda>tmp.
        andthen (set_next tmp head2 h) (\<lambda>h. Inr (head1, h)))
      else Inr (head2, h))"

definition LL_APPEND :: "nat \<Rightarrow> nat \<Rightarrow> nat \<Rightarrow> heap \<Rightarrow> (nat \<times> heap) result" where
  "LL_APPEND fuel head add h =
     andthen (set_next add 0 h) (\<lambda>h.
     if head \<noteq> 0 then
       andthen (LL_walk fuel 0 head h) (\<lambda>tmp.
       andthen (set_next tmp add h) (\<lambda>h. Inr (head, h)))
     else Inr (add, h))"

definition LL_DELETE :: "nat \<Rightarrow> nat \<Rightarrow> nat \<Rightarrow> heap \<Rightarrow> (nat \<times> heap) result" where
  "LL_DELETE fuel head del h =
     (if head = del then andthen (get_next h head) (\<lambda>n. Inr (n, h))
      else
        andthen (LL_walk fuel del head h) (\<lambda>tmp.
        andthen (get_next h tmp) (\<lambda>n.
        if n \<noteq> 0 then
          andthen (get_next h del) (\<lambda>d.
          andthen (set_next tmp d h) (\<lambda>h. Inr (head, h)))
        else Inr (head, h))))"

definition LL_REPLACE_ELEM :: "nat \<Rightarrow> nat \<Rightarrow> nat \<Rightarrow> nat \<Rightarrow> heap \<Rightarrow> (nat \<times> heap) result" where
  "LL_REPLACE_ELEM fuel head el add h =
     andthen (guard (head \<noteq> 0 \<and> el \<noteq> 0 \<and> add \<noteq> 0) Aborted) (\<lambda>_.
     andthen (get_next h el) (\<lambda>n.
     andthen (set_next add n h) (\<lambda>h.
     if head = el then Inr (add, h)
     else
       andthen (LL_walk fuel el head h) (\<lambda>tmp.
       andthen (get_next h tmp) (\<lambda>n.
       if n \<noteq> 0 then andthen (set_next tmp add h) (\<lambda>h. Inr (head, h)) else Inr (head, h))))))"

definition LL_PREPEND_ELEM :: "nat \<Rightarrow> nat \<Rightarrow> nat \<Rightarrow> nat \<Rightarrow> heap \<Rightarrow> (nat \<times> heap) result" where
  "LL_PREPEND_ELEM fuel head el add h =
     andthen (guard (head \<noteq> 0 \<and> el \<noteq> 0 \<and> add \<noteq> 0) Aborted) (\<lambda>_.
     andthen (set_next add el h) (\<lambda>h.
     if head = el then Inr (add, h)
     else
       andthen (LL_walk fuel el head h) (\<lambda>tmp.
       andthen (get_next h tmp) (\<lambda>n.
       if n \<noteq> 0 then andthen (set_next tmp add h) (\<lambda>h. Inr (head, h)) else Inr (head, h)))))"

text \<open>
  The iterations: \<open>LL_FOREACH\<close> visits the elements in order, and the macros below it are its
  loop with a body.  \<open>DL_FOREACH\<close>, \<open>DL_COUNT\<close>, \<open>DL_SEARCH\<close> and \<open>DL_SEARCH_SCALAR\<close> have the same text.
\<close>

primrec LL_COUNT :: "nat \<Rightarrow> nat \<Rightarrow> nat \<Rightarrow> heap \<Rightarrow> nat result" where
  "LL_COUNT 0 el counter h = Inl OutOfFuel"
| "LL_COUNT (Suc fuel) el counter h =
     (if el \<noteq> 0 then andthen (get_next h el) (\<lambda>n. LL_COUNT fuel n (counter + 1) h) else Inr counter)"

primrec LL_SEARCH :: "(int \<Rightarrow> int \<Rightarrow> int) \<Rightarrow> int \<Rightarrow> nat \<Rightarrow> nat \<Rightarrow> heap \<Rightarrow> nat result" where
  "LL_SEARCH cmp elt 0 out h = Inl OutOfFuel"
| "LL_SEARCH cmp elt (Suc fuel) out h =
     (if out \<noteq> 0 then
        andthen (load h out) (\<lambda>i.
        if cmp (client_socket_fd i) elt = 0 then Inr out else LL_SEARCH cmp elt fuel (nxt i) h)
      else Inr 0)"

primrec LL_SEARCH_SCALAR :: "int \<Rightarrow> nat \<Rightarrow> nat \<Rightarrow> heap \<Rightarrow> nat result" where
  "LL_SEARCH_SCALAR val 0 out h = Inl OutOfFuel"
| "LL_SEARCH_SCALAR val (Suc fuel) out h =
     (if out \<noteq> 0 then
        andthen (load h out) (\<lambda>i.
        if client_socket_fd i = val then Inr out else LL_SEARCH_SCALAR val fuel (nxt i) h)
      else Inr 0)"


section \<open>Doubly linked lists\<close>

definition DL_PREPEND :: "nat \<Rightarrow> nat \<Rightarrow> heap \<Rightarrow> (nat \<times> heap) result" where
  "DL_PREPEND head add h =
     andthen (set_next add head h) (\<lambda>h.
     if head \<noteq> 0 then
       andthen (get_prev h head) (\<lambda>p.
       andthen (set_prev add p h) (\<lambda>h.
       andthen (set_prev head add h) (\<lambda>h. Inr (add, h))))
     else andthen (set_prev add add h) (\<lambda>h. Inr (add, h)))"

definition DL_APPEND :: "nat \<Rightarrow> nat \<Rightarrow> heap \<Rightarrow> (nat \<times> heap) result" where
  "DL_APPEND head add h =
     (if head \<noteq> 0 then
        andthen (get_prev h head) (\<lambda>p.
        andthen (set_prev add p h) (\<lambda>h.
        andthen (get_prev h head) (\<lambda>p.
        andthen (set_next p add h) (\<lambda>h.
        andthen (set_prev head add h) (\<lambda>h.
        andthen (set_next add 0 h) (\<lambda>h. Inr (head, h)))))))
      else
        let head = add in
        andthen (set_prev head head h) (\<lambda>h.
        andthen (set_next head 0 h) (\<lambda>h. Inr (head, h))))"

definition DL_CONCAT :: "nat \<Rightarrow> nat \<Rightarrow> heap \<Rightarrow> (nat \<times> heap) result" where
  "DL_CONCAT head1 head2 h =
     (if head2 \<noteq> 0 then
        if head1 \<noteq> 0 then
          andthen (get_prev h head2) (\<lambda>tmp.
          andthen (get_prev h head1) (\<lambda>p.
          andthen (set_prev head2 p h) (\<lambda>h.
          andthen (get_prev h head1) (\<lambda>p.
          andthen (set_next p head2 h) (\<lambda>h.
          andthen (set_prev head1 tmp h) (\<lambda>h. Inr (head1, h)))))))
        else Inr (head2, h)
      else Inr (head1, h))"

definition DL_DELETE :: "nat \<Rightarrow> nat \<Rightarrow> heap \<Rightarrow> (nat \<times> heap) result" where
  "DL_DELETE head del h =
     andthen (load h del) (\<lambda>d.
     andthen (guard (prv d \<noteq> 0) Aborted) (\<lambda>_.
     if prv d = del then Inr (0, h)
     else if del = head then
       andthen (set_prev (nxt d) (prv d) h) (\<lambda>h.
       andthen (get_next h del) (\<lambda>n. Inr (n, h)))
     else
       andthen (set_next (prv d) (nxt d) h) (\<lambda>h.
       andthen (load h del) (\<lambda>d.
       if nxt d \<noteq> 0 then
         andthen (set_prev (nxt d) (prv d) h) (\<lambda>h. Inr (head, h))
       else
         andthen (set_prev head (prv d) h) (\<lambda>h. Inr (head, h))))))"

definition DL_REPLACE_ELEM :: "nat \<Rightarrow> nat \<Rightarrow> nat \<Rightarrow> heap \<Rightarrow> (nat \<times> heap) result" where
  "DL_REPLACE_ELEM head el add h =
     andthen (guard (head \<noteq> 0 \<and> el \<noteq> 0 \<and> add \<noteq> 0) Aborted) (\<lambda>_.
     if head = el then
       andthen (get_next h el) (\<lambda>n.
       andthen (set_next add n h) (\<lambda>h.
       andthen (load h el) (\<lambda>e.
       if nxt e = 0 then andthen (set_prev add add h) (\<lambda>h. Inr (add, h))
       else
         andthen (set_prev add (prv e) h) (\<lambda>h.
         andthen (get_next h add) (\<lambda>n.
         andthen (set_prev n add h) (\<lambda>h. Inr (add, h)))))))
     else
       andthen (get_next h el) (\<lambda>n.
       andthen (set_next add n h) (\<lambda>h.
       andthen (get_prev h el) (\<lambda>p.
       andthen (set_prev add p h) (\<lambda>h.
       andthen (get_prev h add) (\<lambda>p.
       andthen (set_next p add h) (\<lambda>h.
       andthen (get_next h el) (\<lambda>n.
       if n = 0 then andthen (set_prev head add h) (\<lambda>h. Inr (head, h))
       else
         andthen (get_next h add) (\<lambda>n.
         andthen (set_prev n add h) (\<lambda>h. Inr (head, h)))))))))))"

definition DL_PREPEND_ELEM :: "nat \<Rightarrow> nat \<Rightarrow> nat \<Rightarrow> heap \<Rightarrow> (nat \<times> heap) result" where
  "DL_PREPEND_ELEM head el add h =
     andthen (guard (head \<noteq> 0 \<and> el \<noteq> 0 \<and> add \<noteq> 0) Aborted) (\<lambda>_.
     andthen (set_next add el h) (\<lambda>h.
     andthen (get_prev h el) (\<lambda>p.
     andthen (set_prev add p h) (\<lambda>h.
     andthen (set_prev el add h) (\<lambda>h.
     if head = el then Inr (add, h)
     else
       andthen (get_prev h add) (\<lambda>p.
       andthen (set_next p add h) (\<lambda>h. Inr (head, h))))))))"


section \<open>Circular doubly linked lists\<close>

definition CDL_PREPEND :: "nat \<Rightarrow> nat \<Rightarrow> heap \<Rightarrow> (nat \<times> heap) result" where
  "CDL_PREPEND head add h =
     andthen
       (if head \<noteq> 0 then
          andthen (get_prev h head) (\<lambda>p.
          andthen (set_prev add p h) (\<lambda>h.
          andthen (set_next add head h) (\<lambda>h.
          andthen (set_prev head add h) (\<lambda>h.
          andthen (get_prev h add) (\<lambda>p.
          set_next p add h)))))
        else andthen (set_prev add add h) (\<lambda>h. set_next add add h))
     (\<lambda>h. Inr (add, h))"

definition CDL_DELETE :: "nat \<Rightarrow> nat \<Rightarrow> heap \<Rightarrow> (nat \<times> heap) result" where
  "CDL_DELETE head del h =
     andthen (if head = del then andthen (get_next h head) (\<lambda>n. Inr (n = head)) else Inr False) (\<lambda>only.
     if only then Inr (0, h)
     else
       andthen (load h del) (\<lambda>d.
       andthen (set_prev (nxt d) (prv d) h) (\<lambda>h.
       andthen (load h del) (\<lambda>d.
       andthen (set_next (prv d) (nxt d) h) (\<lambda>h.
       if del = head then andthen (get_next h del) (\<lambda>n. Inr (n, h)) else Inr (head, h))))))"

text \<open>\<open>CDL_FOREACH\<close> stops when it comes back to the head.\<close>

primrec CDL_COUNT :: "nat \<Rightarrow> nat \<Rightarrow> nat \<Rightarrow> nat \<Rightarrow> heap \<Rightarrow> nat result" where
  "CDL_COUNT 0 head el counter h = Inl OutOfFuel"
| "CDL_COUNT (Suc fuel) head el counter h =
     (if el \<noteq> 0 then
        andthen (get_next h el) (\<lambda>n. CDL_COUNT fuel head (if n = head then 0 else n) (counter + 1) h)
      else Inr counter)"

primrec CDL_SEARCH :: "(int \<Rightarrow> int \<Rightarrow> int) \<Rightarrow> int \<Rightarrow> nat \<Rightarrow> nat \<Rightarrow> nat \<Rightarrow> heap \<Rightarrow> nat result" where
  "CDL_SEARCH cmp elt 0 head out h = Inl OutOfFuel"
| "CDL_SEARCH cmp elt (Suc fuel) head out h =
     (if out \<noteq> 0 then
        andthen (load h out) (\<lambda>i.
        if cmp (client_socket_fd i) elt = 0 then Inr out
        else CDL_SEARCH cmp elt fuel head (if nxt i = head then 0 else nxt i) h)
      else Inr 0)"

primrec CDL_SEARCH_SCALAR :: "int \<Rightarrow> nat \<Rightarrow> nat \<Rightarrow> nat \<Rightarrow> heap \<Rightarrow> nat result" where
  "CDL_SEARCH_SCALAR val 0 head out h = Inl OutOfFuel"
| "CDL_SEARCH_SCALAR val (Suc fuel) head out h =
     (if out \<noteq> 0 then
        andthen (load h out) (\<lambda>i.
        if client_socket_fd i = val then Inr out
        else CDL_SEARCH_SCALAR val fuel head (if nxt i = head then 0 else nxt i) h)
      else Inr 0)"

definition CDL_REPLACE_ELEM :: "nat \<Rightarrow> nat \<Rightarrow> nat \<Rightarrow> heap \<Rightarrow> (nat \<times> heap) result" where
  "CDL_REPLACE_ELEM head el add h =
     andthen (guard (head \<noteq> 0 \<and> el \<noteq> 0 \<and> add \<noteq> 0) Aborted) (\<lambda>_.
     andthen (get_next h el) (\<lambda>n.
     if n = el then
       andthen (set_next add add h) (\<lambda>h.
       andthen (set_prev add add h) (\<lambda>h. Inr (add, h)))
     else
       andthen (set_next add n h) (\<lambda>h.
       andthen (get_prev h el) (\<lambda>p.
       andthen (set_prev add p h) (\<lambda>h.
       andthen (get_next h add) (\<lambda>n.
       andthen (set_prev n add h) (\<lambda>h.
       andthen (get_prev h add) (\<lambda>p.
       andthen (set_next p add h) (\<lambda>h.
       Inr (if head = el then add else head, h))))))))))"

definition CDL_PREPEND_ELEM :: "nat \<Rightarrow> nat \<Rightarrow> nat \<Rightarrow> heap \<Rightarrow> (nat \<times> heap) result" where
  "CDL_PREPEND_ELEM head el add h =
     andthen (guard (head \<noteq> 0 \<and> el \<noteq> 0 \<and> add \<noteq> 0) Aborted) (\<lambda>_.
     andthen (set_next add el h) (\<lambda>h.
     andthen (get_prev h el) (\<lambda>p.
     andthen (set_prev add p h) (\<lambda>h.
     andthen (set_prev el add h) (\<lambda>h.
     andthen (get_prev h add) (\<lambda>p.
     andthen (set_next p add h) (\<lambda>h.
     Inr (if head = el then add else head, h))))))))"

end
