(* ===== verification/UtHeap.thy ===== *)
theory UtHeap
  imports UtList
begin

text \<open>
  Lists in a heap: what a link store changes, segments that are joined at their ends, and the
  three kinds of list as segments.
\<close>

section \<open>Link stores\<close>

definition is_item :: "heap \<Rightarrow> nat \<Rightarrow> bool" where
  "is_item h a \<longleftrightarrow> a \<noteq> 0 \<and> h a \<noteq> None"

definition next_of :: "heap \<Rightarrow> nat \<Rightarrow> nat" where "next_of h a = nxt (the (h a))"
definition prev_of :: "heap \<Rightarrow> nat \<Rightarrow> nat" where "prev_of h a = prv (the (h a))"
definition data_of :: "heap \<Rightarrow> nat \<Rightarrow> int" where "data_of h a = client_socket_fd (the (h a))"

definition with_next :: "nat \<Rightarrow> nat \<Rightarrow> heap \<Rightarrow> heap" where
  "with_next a v h = h(a := map_option (\<lambda>i. i\<lparr>nxt := v\<rparr>) (h a))"
definition with_prev :: "nat \<Rightarrow> nat \<Rightarrow> heap \<Rightarrow> heap" where
  "with_prev a v h = h(a := map_option (\<lambda>i. i\<lparr>prv := v\<rparr>) (h a))"

named_theorems links "evaluation of link accesses"

lemma is_item_not_zero: "is_item h a \<Longrightarrow> a \<noteq> 0"
  by (simp add: is_item_def)

lemma is_item_pos [links]: "is_item h a \<Longrightarrow> 0 < a"
  by (simp add: is_item_def)

lemma is_item_zero [simp]: "\<not> is_item h 0"
  by (simp add: is_item_def)

lemma load_simps [simp]: "a \<noteq> 0 \<Longrightarrow> h a = Some i \<Longrightarrow> load h a = Inr i"
  by (simp add: load_def)

lemma link_access [links]:
  assumes "is_item h a"
  shows "load h a = Inr (the (h a))" "set_next a v h = Inr (with_next a v h)"
    "set_prev a v h = Inr (with_prev a v h)" "get_next h a = Inr (next_of h a)" "get_prev h a = Inr (prev_of h a)"
  using assms by (auto simp: is_item_def load_def set_next_def set_prev_def get_next_def get_prev_def
      with_next_def with_prev_def next_of_def prev_of_def)

lemma link_fields [links]:
  "nxt (the (h a)) = next_of h a" "prv (the (h a)) = prev_of h a" "client_socket_fd (the (h a)) = data_of h a"
  by (simp_all add: next_of_def prev_of_def data_of_def)

lemma is_item_with [simp]:
  "is_item (with_next a v h) b = is_item h b" "is_item (with_prev a v h) b = is_item h b"
  by (auto simp: is_item_def with_next_def with_prev_def)

lemma fields_with [simp]:
  "is_item h a \<Longrightarrow> next_of (with_next a v h) b = (if b = a then v else next_of h b)"
  "next_of (with_prev a v h) b = next_of h b"
  "is_item h a \<Longrightarrow> prev_of (with_prev a v h) b = (if b = a then v else prev_of h b)"
  "prev_of (with_next a v h) b = prev_of h b"
  "data_of (with_next a v h) b = data_of h b" "data_of (with_prev a v h) b = data_of h b"
  by (cases "h a"; auto simp: next_of_def prev_of_def data_of_def with_next_def with_prev_def is_item_def)+

lemma with_other [simp]:
  "b \<noteq> a \<Longrightarrow> with_next a v h b = h b" "b \<noteq> a \<Longrightarrow> with_prev a v h b = h b"
  by (simp_all add: with_next_def with_prev_def)

lemma fields_with_other [simp]:
  "b \<noteq> a \<Longrightarrow> next_of (with_next a v h) b = next_of h b" "b \<noteq> a \<Longrightarrow> prev_of (with_prev a v h) b = prev_of h b"
  by (simp_all add: next_of_def prev_of_def)

text \<open>What a macro leaves alone: the data of every item, and everything outside of the list.\<close>

definition only_links :: "nat set \<Rightarrow> heap \<Rightarrow> heap \<Rightarrow> bool" where
  "only_links A h h' \<longleftrightarrow>
     (\<forall>a. a \<notin> A \<longrightarrow> h' a = h a) \<and> (\<forall>a. is_item h' a = is_item h a \<and> data_of h' a = data_of h a)"

lemma only_links_refl [simp]: "only_links A h h"
  by (simp add: only_links_def)

lemma only_links_with [simp]:
  "only_links A h h' \<Longrightarrow> a \<in> A \<Longrightarrow> only_links A h (with_next a v h')"
  "only_links A h h' \<Longrightarrow> a \<in> A \<Longrightarrow> only_links A h (with_prev a v h')"
  unfolding only_links_def by (metis with_other is_item_with fields_with(5,6))+

lemma only_links_trans: "only_links A h h' \<Longrightarrow> only_links A h' h'' \<Longrightarrow> only_links A h h''"
  by (simp add: only_links_def)

lemma only_links_mono: "only_links A h h' \<Longrightarrow> A \<subseteq> B \<Longrightarrow> only_links B h h'"
  by (auto simp: only_links_def)

lemma only_links_data: "only_links A h h' \<Longrightarrow> data_of h' = data_of h"
  by (auto simp: only_links_def fun_eq_iff)

lemma only_links_item: "only_links A h h' \<Longrightarrow> is_item h' = is_item h"
  by (auto simp: only_links_def fun_eq_iff)


section \<open>Segments\<close>

text \<open>The first element, or what follows the empty segment; and the last, or what precedes it.\<close>

definition first :: "nat list \<Rightarrow> nat \<Rightarrow> nat" where "first as n = (if as = [] then n else hd as)"
definition final :: "nat \<Rightarrow> nat list \<Rightarrow> nat" where "final p as = (if as = [] then p else last as)"

lemma first_simps [simp]:
  "first [] n = n" "first (a # as) n = a" "first (as @ bs) n = first as (first bs n)"
  by (simp_all add: first_def)

lemma final_simps [simp]:
  "final p [] = p" "final p (a # as) = final a as" "final p (as @ bs) = final (final p as) bs"
  by (simp_all add: final_def)

lemma final_in: "final p as = p \<and> as = [] \<or> final p as \<in> set as"
  by (simp add: final_def)

lemma first_in: "first as n = n \<and> as = [] \<or> first as n \<in> set as"
  by (simp add: first_def)

lemma first_final_neq [simp]:
  "a \<notin> set as \<Longrightarrow> a \<noteq> n \<Longrightarrow> first as n \<noteq> a" "a \<notin> set as \<Longrightarrow> a \<noteq> n \<Longrightarrow> a \<noteq> first as n"
  "a \<notin> set as \<Longrightarrow> a \<noteq> p \<Longrightarrow> final p as \<noteq> a" "a \<notin> set as \<Longrightarrow> a \<noteq> p \<Longrightarrow> a \<noteq> final p as"
  using first_in [of as n] final_in [of p as] by auto

text \<open>A singly linked segment that leads to \<open>n\<close>; a doubly linked one that comes from \<open>p\<close>, too.\<close>

primrec lseg :: "heap \<Rightarrow> nat list \<Rightarrow> nat \<Rightarrow> bool" where
  "lseg h [] n \<longleftrightarrow> True"
| "lseg h (a # as) n \<longleftrightarrow> is_item h a \<and> next_of h a = first as n \<and> lseg h as n"

primrec dseg :: "heap \<Rightarrow> nat \<Rightarrow> nat list \<Rightarrow> nat \<Rightarrow> bool" where
  "dseg h p [] n \<longleftrightarrow> True"
| "dseg h p (a # as) n \<longleftrightarrow> is_item h a \<and> prev_of h a = p \<and> next_of h a = first as n \<and> dseg h a as n"

lemma lseg_append [simp]: "lseg h (as @ bs) n \<longleftrightarrow> lseg h as (first bs n) \<and> lseg h bs n"
  by (induction as) auto

lemma dseg_append [simp]:
  "dseg h p (as @ bs) n \<longleftrightarrow> dseg h p as (first bs n) \<and> dseg h (final p as) bs n"
  by (induction as arbitrary: p) auto

lemma lseg_items: "lseg h as n \<Longrightarrow> a \<in> set as \<Longrightarrow> is_item h a"
  by (induction as) auto

lemma dseg_items: "dseg h p as n \<Longrightarrow> a \<in> set as \<Longrightarrow> is_item h a"
  by (induction as arbitrary: p) auto

lemma first_final_items [simp]:
  "lseg h as m \<Longrightarrow> is_item h n \<Longrightarrow> is_item h (first as n)" "lseg h as m \<Longrightarrow> is_item h p \<Longrightarrow> is_item h (final p as)"
  "dseg h q as m \<Longrightarrow> is_item h n \<Longrightarrow> is_item h (first as n)"
  "dseg h q as m \<Longrightarrow> is_item h p \<Longrightarrow> is_item h (final p as)"
  using first_in [of as n] final_in [of p as] lseg_items dseg_items by metis+

lemma first_final_pos [simp]:
  "dseg h q as m \<Longrightarrow> is_item h p \<Longrightarrow> 0 < final p as" "dseg h q as m \<Longrightarrow> is_item h n \<Longrightarrow> 0 < first as n"
  "lseg h as m \<Longrightarrow> is_item h n \<Longrightarrow> 0 < first as n" "lseg h as m \<Longrightarrow> is_item h n \<Longrightarrow> first as n \<noteq> 0"
  "dseg h q as m \<Longrightarrow> is_item h n \<Longrightarrow> first as n \<noteq> 0"
  using first_final_items is_item_not_zero by (metis gr0I)+

lemma lseg_cong:
  "(\<And>a. a \<in> set as \<Longrightarrow> is_item h' a = is_item h a \<and> next_of h' a = next_of h a) \<Longrightarrow> lseg h' as n = lseg h as n"
  by (induction as) auto

lemma dseg_cong:
  "(\<And>a. a \<in> set as \<Longrightarrow> is_item h' a = is_item h a \<and> next_of h' a = next_of h a \<and> prev_of h' a = prev_of h a) \<Longrightarrow>
   dseg h' p as n = dseg h p as n"
  by (induction as arbitrary: p) auto

lemma lseg_with [simp]:
  "a \<notin> set as \<Longrightarrow> lseg (with_next a v h) as n = lseg h as n"
  "lseg (with_prev a v h) as n = lseg h as n"
  by (rule lseg_cong, metis is_item_with fields_with_other(1) fields_with(2))+

lemma dseg_with [simp]:
  "a \<notin> set as \<Longrightarrow> dseg (with_next a v h) p as n = dseg h p as n"
  "a \<notin> set as \<Longrightarrow> dseg (with_prev a v h) p as n = dseg h p as n"
  by (rule dseg_cong, metis is_item_with fields_with_other fields_with(2,4))+

lemma dseg_lseg: "dseg h p as n \<Longrightarrow> lseg h as n"
  by (induction as arbitrary: p) auto


section \<open>The three kinds of list\<close>

definition slist :: "heap \<Rightarrow> nat \<Rightarrow> nat list \<Rightarrow> bool" where
  "slist h head as \<longleftrightarrow> distinct as \<and> head = first as 0 \<and> lseg h as 0"

definition dlist :: "heap \<Rightarrow> nat \<Rightarrow> nat list \<Rightarrow> bool" where
  "dlist h head as \<longleftrightarrow> distinct as \<and> head = first as 0 \<and> dseg h (final 0 as) as 0"

definition cdlist :: "heap \<Rightarrow> nat \<Rightarrow> nat list \<Rightarrow> bool" where
  "cdlist h head as \<longleftrightarrow> distinct as \<and> head = first as 0 \<and> dseg h (final 0 as) as (first as 0)"

lemma dlist_items: "dlist h head as \<Longrightarrow> a \<in> set as \<Longrightarrow> is_item h a"
  by (auto simp: dlist_def dest: dseg_items)

end
