(* ===== verification/UtLists.thy ===== *)
theory UtLists
  imports UtHeap
begin

text \<open>
  What the macros do to lists: each is the list operation its name says.
\<close>

section \<open>Doubly linked lists\<close>

text \<open>The result of a macro: it succeeds, and the heap holds the list \<open>as\<close> at the head it assigns.\<close>

definition yields ::
    "(heap \<Rightarrow> nat \<Rightarrow> nat list \<Rightarrow> bool) \<Rightarrow> nat set \<Rightarrow> heap \<Rightarrow> (nat \<times> heap) result \<Rightarrow> nat list \<Rightarrow> bool" where
  "yields rep A h r as \<longleftrightarrow> (\<exists>head' h'. r = Inr (head', h') \<and> rep h' head' as \<and> only_links A h h')"

lemma DL_PREPEND_ok:
  assumes "dlist h head as" "is_item h a" "a \<notin> set as"
  shows "yields dlist (insert a (set as)) h (DL_PREPEND head a h) (a # as)"
proof (cases as)
  case Nil
  then show ?thesis using assms by (simp add: yields_def dlist_def DL_PREPEND_def links)
next
  case (Cons b bs)
  then show ?thesis using assms by (auto simp: yields_def dlist_def DL_PREPEND_def links)
qed

lemma DL_APPEND_ok:
  assumes "dlist h head as" "is_item h a" "a \<notin> set as"
  shows "yields dlist (insert a (set as)) h (DL_APPEND head a h) (as @ [a])"
proof (cases as rule: rev_cases)
  case Nil
  then show ?thesis using assms by (simp add: yields_def dlist_def DL_APPEND_def links)
next
  case (snoc bs b)
  then show ?thesis using assms
    by (cases bs) (auto simp: yields_def dlist_def DL_APPEND_def links)
qed

lemma DL_DELETE_ok:
  assumes "dlist h head (us @ a # vs)"
  shows "yields dlist (set us \<union> set vs) h (DL_DELETE head a h) (us @ vs)"
proof (cases us rule: rev_cases; cases vs)
  fix b bs
  assume "us = []" "vs = b # bs"
  then show ?thesis using assms
    by (auto simp: yields_def dlist_def DL_DELETE_def links)
next
  fix us' u
  assume "us = us' @ [u]" "vs = []"
  then show ?thesis using assms
    by (cases us') (auto simp: yields_def dlist_def DL_DELETE_def links)
next
  fix us' u b bs
  assume "us = us' @ [u]" "vs = b # bs"
  then show ?thesis using assms
    by (auto simp: yields_def dlist_def DL_DELETE_def links)
qed (use assms in \<open>auto simp: yields_def dlist_def DL_DELETE_def links\<close>)

lemma DL_CONCAT_ok:
  assumes "dlist h head1 as" "dlist h head2 bs" "set as \<inter> set bs = {}"
  shows "yields dlist (set as \<union> set bs) h (DL_CONCAT head1 head2 h) (as @ bs)"
proof (cases bs)
  case Nil
  then show ?thesis using assms by (simp add: yields_def dlist_def DL_CONCAT_def)
next
  case (Cons b bs')
  show ?thesis
  proof (cases as rule: rev_cases)
    case Nil
    then show ?thesis using Cons assms by (auto simp: yields_def dlist_def DL_CONCAT_def links)
  next
    case (snoc as' a)
    then show ?thesis using Cons assms
      by (cases as') (auto simp: yields_def dlist_def DL_CONCAT_def links)
  qed
qed

lemma DL_REPLACE_ELEM_ok:
  assumes "dlist h head (us @ a # vs)" "is_item h b" "b \<notin> set (us @ a # vs)"
  shows "yields dlist (insert b (set us \<union> set vs)) h (DL_REPLACE_ELEM head a b h) (us @ b # vs)"
proof (cases us rule: rev_cases; cases vs)
  fix v vs'
  assume "us = []" "vs = v # vs'"
  then show ?thesis using assms
    by (auto simp: yields_def dlist_def DL_REPLACE_ELEM_def links)
next
  fix us' u
  assume "us = us' @ [u]" "vs = []"
  then show ?thesis using assms
    by (cases us') (auto simp: yields_def dlist_def DL_REPLACE_ELEM_def links)
next
  fix us' u v vs'
  assume "us = us' @ [u]" "vs = v # vs'"
  then show ?thesis using assms
    by (cases us') (auto simp: yields_def dlist_def DL_REPLACE_ELEM_def links)
qed (use assms in \<open>auto simp: yields_def dlist_def DL_REPLACE_ELEM_def links\<close>)

lemma DL_PREPEND_ELEM_ok:
  assumes "dlist h head (us @ a # vs)" "is_item h b" "b \<notin> set (us @ a # vs)"
  shows "yields dlist (insert b (set us \<union> insert a (set vs))) h (DL_PREPEND_ELEM head a b h) (us @ b # a # vs)"
proof (cases us rule: rev_cases)
  case Nil
  then show ?thesis using assms
    by (cases vs) (auto simp: yields_def dlist_def DL_PREPEND_ELEM_def links)
next
  case (snoc us' u)
  then show ?thesis using assms
    by (cases us'; cases vs) (auto simp: yields_def dlist_def DL_PREPEND_ELEM_def links)
qed


section \<open>Circular lists\<close>

lemma CDL_PREPEND_ok:
  assumes "cdlist h head as" "is_item h a" "a \<notin> set as"
  shows "yields cdlist (insert a (set as)) h (CDL_PREPEND head a h) (a # as)"
proof (cases as rule: rev_cases)
  case Nil
  then show ?thesis using assms by (auto simp: yields_def cdlist_def CDL_PREPEND_def links)
next
  case (snoc bs b)
  then show ?thesis using assms
    by (cases bs) (auto simp: yields_def cdlist_def CDL_PREPEND_def links)
qed

lemma CDL_DELETE_ok:
  assumes "cdlist h head (us @ a # vs)"
  shows "yields cdlist (set us \<union> set vs) h (CDL_DELETE head a h) (us @ vs)"
proof (cases us rule: rev_cases; cases vs rule: rev_cases)
  fix v vs'
  assume "us = []" "vs = vs' @ [v]"
  then show ?thesis using assms
    by (cases vs') (auto simp: yields_def cdlist_def CDL_DELETE_def links)
next
  fix us' u
  assume "us = us' @ [u]" "vs = []"
  then show ?thesis using assms
    by (cases us') (auto simp: yields_def cdlist_def CDL_DELETE_def links)
next
  fix us' u v vs'
  assume "us = us' @ [u]" "vs = vs' @ [v]"
  then show ?thesis using assms
    by (cases us'; cases vs') (auto simp: yields_def cdlist_def CDL_DELETE_def links)
qed (use assms in \<open>auto simp: yields_def cdlist_def CDL_DELETE_def links\<close>)

lemma CDL_REPLACE_ELEM_ok:
  assumes "cdlist h head (us @ a # vs)" "is_item h b" "b \<notin> set (us @ a # vs)"
  shows "yields cdlist (insert b (set us \<union> set vs)) h (CDL_REPLACE_ELEM head a b h) (us @ b # vs)"
proof (cases us rule: rev_cases; cases vs rule: rev_cases)
  fix v vs'
  assume "us = []" "vs = vs' @ [v]"
  then show ?thesis using assms
    by (cases vs') (auto simp: yields_def cdlist_def CDL_REPLACE_ELEM_def links)
next
  fix us' u
  assume "us = us' @ [u]" "vs = []"
  then show ?thesis using assms
    by (cases us') (auto simp: yields_def cdlist_def CDL_REPLACE_ELEM_def links)
next
  fix us' u v vs'
  assume "us = us' @ [u]" "vs = vs' @ [v]"
  then show ?thesis using assms
    by (cases us'; cases vs') (auto simp: yields_def cdlist_def CDL_REPLACE_ELEM_def links)
qed (use assms in \<open>auto simp: yields_def cdlist_def CDL_REPLACE_ELEM_def links\<close>)

lemma CDL_PREPEND_ELEM_ok:
  assumes "cdlist h head (us @ a # vs)" "is_item h b" "b \<notin> set (us @ a # vs)"
  shows "yields cdlist (insert b (set us \<union> insert a (set vs))) h (CDL_PREPEND_ELEM head a b h) (us @ b # a # vs)"
proof (cases us rule: rev_cases; cases vs rule: rev_cases)
  fix v vs'
  assume "us = []" "vs = vs' @ [v]"
  then show ?thesis using assms
    by (cases vs') (auto simp: yields_def cdlist_def CDL_PREPEND_ELEM_def links)
next
  fix us' u
  assume "us = us' @ [u]" "vs = []"
  then show ?thesis using assms
    by (cases us') (auto simp: yields_def cdlist_def CDL_PREPEND_ELEM_def links)
next
  fix us' u v vs'
  assume "us = us' @ [u]" "vs = vs' @ [v]"
  then show ?thesis using assms
    by (cases us'; cases vs') (auto simp: yields_def cdlist_def CDL_PREPEND_ELEM_def links)
qed (use assms in \<open>auto simp: yields_def cdlist_def CDL_PREPEND_ELEM_def links\<close>)


section \<open>Singly linked lists\<close>

text \<open>The walk stops at the element before \<open>stop\<close>, or at the last one.\<close>

lemma LL_walk_ok:
  "lseg h (us @ [t]) n \<Longrightarrow> n = 0 \<or> n = stop \<Longrightarrow> stop \<notin> set us \<Longrightarrow> stop \<noteq> t \<Longrightarrow> length us < fuel \<Longrightarrow>
   LL_walk fuel stop (first us t) h = Inr t"
proof (induction us arbitrary: fuel)
  case Nil
  then obtain f where "fuel = Suc f" by (cases fuel) auto
  then show ?case using Nil by (auto simp: links)
next
  case (Cons u us)
  then obtain f where f: "fuel = Suc f" by (cases fuel) auto
  have i: "is_item h t" "lseg h us t" using Cons.prems(1) by simp_all
  then have "is_item h (first us t)" by simp
  then have "first us t \<noteq> 0" by (auto dest: is_item_not_zero)
  moreover have "first us t \<noteq> stop" using Cons.prems(3,4) by auto
  ultimately show ?case using Cons f by (simp add: links)
qed

lemma LL_walk_last:
  assumes "lseg h (us @ [t]) 0" "length us < fuel"
  shows "LL_walk fuel 0 (first us t) h = Inr t"
  using assms by (intro LL_walk_ok) (auto simp: links dest: lseg_items is_item_not_zero)

lemma LL_PREPEND_ok:
  assumes "slist h head as" "is_item h a" "a \<notin> set as"
  shows "yields slist {a} h (LL_PREPEND head a h) (a # as)"
  using assms by (auto simp: yields_def slist_def LL_PREPEND_def links)

lemma LL_CONCAT_ok:
  assumes "slist h head1 as" "slist h head2 bs" "set as \<inter> set bs = {}" "length as \<le> fuel"
  shows "yields slist (set as) h (LL_CONCAT fuel head1 head2 h) (as @ bs)"
proof (cases as rule: rev_cases)
  case Nil
  then show ?thesis using assms by (auto simp: yields_def slist_def LL_CONCAT_def)
next
  case (snoc as' a)
  then show ?thesis using assms LL_walk_last [of h as' a fuel]
    by (auto simp: yields_def slist_def LL_CONCAT_def links)
qed

lemma LL_APPEND_ok:
  assumes "slist h head as" "is_item h a" "a \<notin> set as" "length as \<le> fuel"
  shows "yields slist (insert a (set as)) h (LL_APPEND fuel head a h) (as @ [a])"
proof (cases as rule: rev_cases)
  case Nil
  then show ?thesis using assms by (auto simp: yields_def slist_def LL_APPEND_def links)
next
  case (snoc as' b)
  then show ?thesis using assms LL_walk_last [of "with_next a 0 h" as' b fuel]
    by (auto simp: yields_def slist_def LL_APPEND_def links)
qed

lemma LL_DELETE_ok:
  assumes "slist h head (us @ a # vs)" "length us \<le> fuel"
  shows "yields slist (set us) h (LL_DELETE fuel head a h) (us @ vs)"
proof (cases us rule: rev_cases)
  case Nil
  then show ?thesis using assms by (auto simp: yields_def slist_def LL_DELETE_def links)
next
  case (snoc us' u)
  then show ?thesis using assms LL_walk_ok [of h us' u a a fuel]
    by (auto simp: yields_def slist_def LL_DELETE_def links)
qed

lemma LL_REPLACE_ELEM_ok:
  assumes "slist h head (us @ a # vs)" "is_item h b" "b \<notin> set (us @ a # vs)" "length us \<le> fuel"
  shows "yields slist (insert b (set us)) h (LL_REPLACE_ELEM fuel head a b h) (us @ b # vs)"
proof (cases us rule: rev_cases)
  case Nil
  then show ?thesis using assms by (auto simp: yields_def slist_def LL_REPLACE_ELEM_def links)
next
  case (snoc us' u)
  then show ?thesis using assms LL_walk_ok [of "with_next b (first vs 0) h" us' u a a fuel]
    by (auto simp: yields_def slist_def LL_REPLACE_ELEM_def links)
qed

lemma LL_PREPEND_ELEM_ok:
  assumes "slist h head (us @ a # vs)" "is_item h b" "b \<notin> set (us @ a # vs)" "length us \<le> fuel"
  shows "yields slist (insert b (set us)) h (LL_PREPEND_ELEM fuel head a b h) (us @ b # a # vs)"
proof (cases us rule: rev_cases)
  case Nil
  then show ?thesis using assms by (auto simp: yields_def slist_def LL_PREPEND_ELEM_def links)
next
  case (snoc us' u)
  then show ?thesis using assms LL_walk_ok [of "with_next b a h" us' u a a fuel]
    by (auto simp: yields_def slist_def LL_PREPEND_ELEM_def links)
qed


section \<open>Iterations\<close>

text \<open>The first element with a property, or NULL.\<close>

definition find_first :: "(nat \<Rightarrow> bool) \<Rightarrow> nat list \<Rightarrow> nat" where
  "find_first P as = first (filter P as) 0"

lemma LL_COUNT_ok:
  "lseg h as 0 \<Longrightarrow> length as < fuel \<Longrightarrow> LL_COUNT fuel (first as 0) k h = Inr (k + length as)"
proof (induction as arbitrary: fuel k)
  case Nil
  then show ?case by (cases fuel) auto
next
  case (Cons a as)
  then show ?case by (cases fuel) (auto simp: links)
qed

lemma LL_SEARCH_ok:
  "lseg h as 0 \<Longrightarrow> length as < fuel \<Longrightarrow>
   LL_SEARCH cmp elt fuel (first as 0) h = Inr (find_first (\<lambda>a. cmp (data_of h a) elt = 0) as)"
proof (induction as arbitrary: fuel)
  case Nil
  then show ?case by (cases fuel) (auto simp: find_first_def)
next
  case (Cons a as)
  then show ?case by (cases fuel) (auto simp: links find_first_def)
qed

lemma LL_SEARCH_SCALAR_search:
  "LL_SEARCH_SCALAR val fuel out h = LL_SEARCH (\<lambda>x y. if x = y then 0 else 1) val fuel out h"
  by (induction fuel arbitrary: out) (auto simp: andthen_def split: sum.splits)

text \<open>From an element that is not the head, the circular loops run to the last one.\<close>

lemma CDL_COUNT_rest:
  "lseg h as head \<Longrightarrow> head \<notin> set as \<Longrightarrow> length as < fuel \<Longrightarrow>
   CDL_COUNT fuel head (first as 0) k h = Inr (k + length as)"
proof (induction as arbitrary: fuel k)
  case Nil
  then show ?case by (cases fuel) auto
next
  case (Cons a as)
  then show ?case by (cases fuel; cases as) (auto simp: links)
qed

lemma CDL_SEARCH_rest:
  "lseg h as head \<Longrightarrow> head \<notin> set as \<Longrightarrow> length as < fuel \<Longrightarrow>
   CDL_SEARCH cmp elt fuel head (first as 0) h = Inr (find_first (\<lambda>a. cmp (data_of h a) elt = 0) as)"
proof (induction as arbitrary: fuel)
  case Nil
  then show ?case by (cases fuel) (auto simp: find_first_def)
next
  case (Cons a as)
  then show ?case by (cases fuel; cases as) (auto simp: links find_first_def)
qed

lemma CDL_COUNT_ok:
  assumes "cdlist h head as" "length as < fuel"
  shows "CDL_COUNT fuel head head 0 h = Inr (length as)"
proof (cases as)
  case Nil
  then show ?thesis using assms by (cases fuel) (auto simp: cdlist_def)
next
  case (Cons a bs)
  then have "CDL_COUNT (fuel - 1) a (first bs 0) 1 h = Inr (1 + length bs)"
    using assms by (intro CDL_COUNT_rest) (auto simp: cdlist_def dest: dseg_lseg)
  moreover have "(if first bs a = a then 0 else first bs a) = first bs 0"
    using assms(1) Cons by (cases bs) (auto simp: cdlist_def)
  ultimately show ?thesis using assms Cons by (cases fuel) (auto simp: cdlist_def links)
qed

lemma CDL_SEARCH_ok:
  assumes "cdlist h head as" "length as < fuel"
  shows "CDL_SEARCH cmp elt fuel head head h = Inr (find_first (\<lambda>a. cmp (data_of h a) elt = 0) as)"
proof (cases as)
  case Nil
  then show ?thesis using assms by (cases fuel) (auto simp: cdlist_def find_first_def)
next
  case (Cons a bs)
  then have "CDL_SEARCH cmp elt (fuel - 1) a (first bs 0) h = Inr (find_first (\<lambda>a. cmp (data_of h a) elt = 0) bs)"
    using assms by (intro CDL_SEARCH_rest) (auto simp: cdlist_def dest: dseg_lseg)
  moreover have "(if first bs a = a then 0 else first bs a) = first bs 0"
    using assms(1) Cons by (cases bs) (auto simp: cdlist_def)
  ultimately show ?thesis using assms Cons by (cases fuel) (auto simp: cdlist_def links find_first_def)
qed

lemma CDL_SEARCH_SCALAR_search:
  "CDL_SEARCH_SCALAR val fuel head out h = CDL_SEARCH (\<lambda>x y. if x = y then 0 else 1) val fuel head out h"
  by (induction fuel arbitrary: out) (auto simp: andthen_def split: sum.splits)

end
