(* ===== verification/UtSort.thy ===== *)
theory UtSort
  imports UtHeap "HOL-Library.Sorting_Algorithms"
begin

text \<open>
  The sort macros of \<open>hw2/utlist.h\<close>, a bottom-up merge sort that relinks the items: \<open>LL_SORT\<close>,
  \<open>DL_SORT\<close> and \<open>CDL_SORT\<close> have one text up to the lines a \<open>flavour\<close> selects here: the circular one
  takes the old head for the end, the doubly linked ones set \<open>prev\<close>, and each closes the list in its
  own way.  Then what a merge and a pass do to the heap.

  \<open>_SV\<close> and \<open>_RS\<close> expand to nothing.  The run lengths are \<open>int\<close>; a negative one counts as none, as
  in the loops of the code.  Passes and merges are counted down from a fuel; one unit more than
  the list has elements is enough for both.
\<close>

section \<open>The macros\<close>

datatype flavour = LL | DL | CDL

definition follow :: "flavour \<Rightarrow> nat \<Rightarrow> nat \<Rightarrow> nat" where
  "follow fl oldhead n = (if fl = CDL \<and> n = oldhead then 0 else n)"

text \<open>Stepping over at most \<open>insize\<close> items: where the second run starts, and the length of the first.\<close>

primrec run_end :: "flavour \<Rightarrow> nat \<Rightarrow> nat \<Rightarrow> nat \<Rightarrow> nat \<Rightarrow> heap \<Rightarrow> (nat \<times> nat) result" where
  "run_end fl oldhead 0 q psize h = Inr (q, psize)"
| "run_end fl oldhead (Suc n) q psize h =
     andthen (get_next h q) (\<lambda>m.
     let q = follow fl oldhead m in
     if q = 0 then Inr (q, psize + 1) else run_end fl oldhead n q (psize + 1) h)"

definition add_tail :: "flavour \<Rightarrow> nat \<Rightarrow> nat \<Rightarrow> nat \<Rightarrow> heap \<Rightarrow> (nat \<times> heap) result" where
  "add_tail fl e list tail h =
     andthen (if tail \<noteq> 0 then andthen (set_next tail e h) (\<lambda>h. Inr (list, h)) else Inr (e, h)) (\<lambda>(list, h).
     if fl = LL then Inr (list, h) else andthen (set_prev e tail h) (\<lambda>h. Inr (list, h)))"

declare andthen_cong [fundef_cong]

text \<open>The merge of two runs; the four branches take the next item from \<open>p\<close> or from \<open>q\<close>.\<close>

function merge_runs ::
    "flavour \<Rightarrow> (int \<Rightarrow> int \<Rightarrow> int) \<Rightarrow> nat \<Rightarrow> nat \<Rightarrow> nat \<Rightarrow> nat \<Rightarrow> nat \<Rightarrow> nat \<Rightarrow> nat \<Rightarrow> heap \<Rightarrow>
     (nat \<times> nat \<times> nat \<times> heap) result" where
  "merge_runs fl cmp oldhead p psize q qsize list tail h =
     (if psize > 0 \<or> qsize > 0 \<and> q \<noteq> 0 then
        andthen
          (if psize = 0 then Inr False
           else if qsize = 0 \<or> q = 0 then Inr True
           else andthen (load h p) (\<lambda>i. andthen (load h q) (\<lambda>j.
                Inr (cmp (client_socket_fd i) (client_socket_fd j) \<le> 0)))) (\<lambda>from_p.
        let e = (if from_p then p else q) in
        andthen (get_next h e) (\<lambda>n.
        let n = follow fl oldhead n in
        andthen (add_tail fl e list tail h) (\<lambda>(list, h).
        if from_p then merge_runs fl cmp oldhead n (psize - 1) q qsize list e h
        else merge_runs fl cmp oldhead p psize n (qsize - 1) list e h)))
      else Inr (q, list, tail, h))"
  by pat_completeness auto
termination
  by (relation "measure (\<lambda>(_, _, _, _, psize, _, qsize, _). psize + qsize)")
     (auto split: if_splits simp: andthen_Inr_iff)

declare merge_runs.simps [simp del]

primrec merge_pass ::
    "flavour \<Rightarrow> (int \<Rightarrow> int \<Rightarrow> int) \<Rightarrow> nat \<Rightarrow> int \<Rightarrow> nat \<Rightarrow> nat \<Rightarrow> nat \<Rightarrow> nat \<Rightarrow> nat \<Rightarrow> heap \<Rightarrow>
     (nat \<times> nat \<times> nat \<times> heap) result" where
  "merge_pass fl cmp oldhead insize 0 p list tail nmerges h = Inl OutOfFuel"
| "merge_pass fl cmp oldhead insize (Suc fuel) p list tail nmerges h =
     (if p \<noteq> 0 then
        andthen (run_end fl oldhead (nat insize) p 0 h) (\<lambda>(q, psize).
        andthen (merge_runs fl cmp oldhead p psize q (nat insize) list tail h) (\<lambda>(q, list, tail, h).
        merge_pass fl cmp oldhead insize fuel q list tail (nmerges + 1) h))
      else Inr (list, tail, nmerges, h))"

definition close_list :: "flavour \<Rightarrow> nat \<Rightarrow> nat \<Rightarrow> heap \<Rightarrow> heap result" where
  "close_list fl list tail h =
     (case fl of
        LL \<Rightarrow> if tail \<noteq> 0 then set_next tail 0 h else Inr h
      | DL \<Rightarrow> andthen (set_prev list tail h) (\<lambda>h. set_next tail 0 h)
      | CDL \<Rightarrow> andthen (set_prev list tail h) (\<lambda>h. set_next tail list h))"

primrec sort_passes ::
    "flavour \<Rightarrow> (int \<Rightarrow> int \<Rightarrow> int) \<Rightarrow> nat \<Rightarrow> nat \<Rightarrow> int \<Rightarrow> nat \<Rightarrow> heap \<Rightarrow> (nat \<times> heap) result" where
  "sort_passes fl cmp fuel 0 insize list h = Inl OutOfFuel"
| "sort_passes fl cmp fuel (Suc n) insize list h =
     andthen (merge_pass fl cmp list insize fuel list 0 0 0 h) (\<lambda>(list, tail, nmerges, h).
     andthen (close_list fl list tail h) (\<lambda>h.
     if nmerges \<le> 1 then Inr (list, h) else sort_passes fl cmp fuel n (to_int (insize * 2)) list h))"

definition LL_SORT :: "nat \<Rightarrow> (int \<Rightarrow> int \<Rightarrow> int) \<Rightarrow> nat \<Rightarrow> heap \<Rightarrow> (nat \<times> heap) result" where
  "LL_SORT fuel cmp list h = (if list \<noteq> 0 then sort_passes LL cmp fuel fuel 1 list h else Inr (list, h))"

definition DL_SORT :: "nat \<Rightarrow> (int \<Rightarrow> int \<Rightarrow> int) \<Rightarrow> nat \<Rightarrow> heap \<Rightarrow> (nat \<times> heap) result" where
  "DL_SORT fuel cmp list h = (if list \<noteq> 0 then sort_passes DL cmp fuel fuel 1 list h else Inr (list, h))"

definition CDL_SORT :: "nat \<Rightarrow> (int \<Rightarrow> int \<Rightarrow> int) \<Rightarrow> nat \<Rightarrow> heap \<Rightarrow> (nat \<times> heap) result" where
  "CDL_SORT fuel cmp list h = (if list \<noteq> 0 then sort_passes CDL cmp fuel fuel 1 list h else Inr (list, h))"


section \<open>Runs\<close>

text \<open>Where the links of the list that is taken apart end.\<close>

definition fin :: "flavour \<Rightarrow> nat \<Rightarrow> nat" where
  "fin fl oldhead = (if fl = CDL then oldhead else 0)"

lemma follow_first [simp]:
  "(fl = CDL \<longrightarrow> oldhead \<notin> set as) \<Longrightarrow> follow fl oldhead (first as (fin fl oldhead)) = first as 0"
  by (auto simp: follow_def fin_def first_def)

lemma run_end_ok:
  "lseg h as (fin fl oldhead) \<Longrightarrow> as \<noteq> [] \<Longrightarrow> (fl = CDL \<longrightarrow> oldhead \<notin> set (tl as)) \<Longrightarrow>
   run_end fl oldhead n (first as 0) k h = Inr (first (drop n as) 0, k + length (take n as))"
proof (induction n arbitrary: as k)
  case 0
  then show ?case by simp
next
  case (Suc n)
  then obtain a bs where as: "as = a # bs" by (cases as) auto
  show ?case
  proof (cases bs)
    case Nil
    then show ?thesis using Suc as by (simp add: links follow_def fin_def)
  next
    case (Cons b cs)
    have "follow fl oldhead b = b" using Suc(4) as Cons by (auto simp: follow_def)
    moreover have "b \<noteq> 0" using Suc(2) as Cons by (auto dest: is_item_not_zero)
    ultimately show ?thesis using Suc(1) [of bs "k + 1"] Suc(2,4) as Cons by (simp add: links)
  qed
qed


section \<open>Merging\<close>

text \<open>The part of the result that is linked so far: a segment whose last \<open>next\<close> is of no interest.\<close>

definition linked :: "flavour \<Rightarrow> heap \<Rightarrow> nat list \<Rightarrow> nat \<Rightarrow> bool" where
  "linked fl h as n \<longleftrightarrow> (if fl = LL then lseg h as n else dseg h 0 as n)"

lemma linked_Nil [simp]: "linked fl h [] n"
  by (simp add: linked_def)

lemma add_tail_ok:
  assumes "linked fl h acc m" "distinct acc" "is_item h e" "e \<notin> set acc"
  shows "\<exists>h'. add_tail fl e (first acc 0) (final 0 acc) h = Inr (first (acc @ [e]) 0, h') \<and>
    linked fl h' (acc @ [e]) (next_of h e) \<and> only_links (insert e (set acc)) h h' \<and>
    (\<forall>a. a \<notin> set acc \<longrightarrow> next_of h' a = next_of h a)"
proof (cases acc rule: rev_cases)
  case Nil
  then show ?thesis using assms by (auto simp: add_tail_def linked_def links)
next
  case (snoc bs b)
  then show ?thesis using assms by (auto simp: add_tail_def linked_def links split: if_splits)
qed

definition merging ::
    "flavour \<Rightarrow> heap \<Rightarrow> nat \<Rightarrow> nat list \<Rightarrow> nat list \<Rightarrow> nat list \<Rightarrow> nat \<Rightarrow> bool" where
  "merging fl h oldhead acc ps qs p \<longleftrightarrow>
     distinct (acc @ ps @ qs) \<and> (\<exists>m. linked fl h acc m) \<and> (\<exists>z. lseg h ps z) \<and> lseg h qs (fin fl oldhead) \<and>
     (ps \<noteq> [] \<longrightarrow> p = hd ps) \<and> (fl = CDL \<longrightarrow> oldhead \<notin> set (tl ps) \<and> oldhead \<notin> set qs)"

lemma merging_take_p:
  assumes "merging fl h oldhead acc (a # ps) qs p"
  shows "\<exists>h'. add_tail fl a (first acc 0) (final 0 acc) h = Inr (first (acc @ [a]) 0, h') \<and>
    merging fl h' oldhead (acc @ [a]) ps qs (follow fl oldhead (next_of h a)) \<and>
    only_links (insert a (set acc)) h h'"
proof -
  have i: "distinct (acc @ (a # ps) @ qs)" "is_item h a" "lseg h qs (fin fl oldhead)"
    using assms by (auto simp: merging_def)
  obtain m z where m: "linked fl h acc m" "lseg h (a # ps) z" using assms by (auto simp: merging_def)
  obtain h' where h': "add_tail fl a (first acc 0) (final 0 acc) h = Inr (first (acc @ [a]) 0, h')"
    "linked fl h' (acc @ [a]) (next_of h a)" "only_links (insert a (set acc)) h h'"
    "\<forall>b. b \<notin> set acc \<longrightarrow> next_of h' b = next_of h b"
    using add_tail_ok [OF m(1) _ i(2)] i(1) by auto
  have s: "lseg h' bs n = lseg h bs n" if "set bs \<inter> set acc = {}" for bs n
    using that h'(4) only_links_item [OF h'(3)] by (intro lseg_cong) auto
  have "lseg h' ps z" "lseg h' qs (fin fl oldhead)" using s [of ps z] s [of qs] i m(2) by auto
  moreover have "ps \<noteq> [] \<Longrightarrow> follow fl oldhead (next_of h a) = hd ps"
    using m(2) assms by (cases ps) (auto simp: follow_def merging_def)
  moreover have "fl = CDL \<Longrightarrow> oldhead \<notin> set (tl ps) \<and> oldhead \<notin> set qs"
    using assms by (cases ps) (auto simp: merging_def)
  ultimately have "merging fl h' oldhead (acc @ [a]) ps qs (follow fl oldhead (next_of h a))"
    using i(1) h'(2) unfolding merging_def by auto
  then show ?thesis using h'(1,3) by blast
qed

lemma merging_take_q:
  assumes "merging fl h oldhead acc ps (b # qs) p"
  shows "\<exists>h'. add_tail fl b (first acc 0) (final 0 acc) h = Inr (first (acc @ [b]) 0, h') \<and>
    merging fl h' oldhead (acc @ [b]) ps qs p \<and> follow fl oldhead (next_of h b) = first qs 0 \<and>
    only_links (insert b (set acc)) h h'"
proof -
  have i: "distinct (acc @ ps @ b # qs)" "is_item h b" "lseg h (b # qs) (fin fl oldhead)"
    using assms by (auto simp: merging_def)
  obtain m z where m: "linked fl h acc m" "lseg h ps z" using assms by (auto simp: merging_def)
  obtain h' where h': "add_tail fl b (first acc 0) (final 0 acc) h = Inr (first (acc @ [b]) 0, h')"
    "linked fl h' (acc @ [b]) (next_of h b)" "only_links (insert b (set acc)) h h'"
    "\<forall>a. a \<notin> set acc \<longrightarrow> next_of h' a = next_of h a"
    using add_tail_ok [OF m(1) _ i(2)] i(1) by auto
  have s: "lseg h' bs n = lseg h bs n" if "set bs \<inter> set acc = {}" for bs n
    using that h'(4) only_links_item [OF h'(3)] by (intro lseg_cong) auto
  have "lseg h' ps z" "lseg h' qs (fin fl oldhead)" using s [of ps z] s [of qs] i m(2) by auto
  moreover have "follow fl oldhead (next_of h b) = first qs 0"
    using i(3) assms by (simp add: merging_def)
  ultimately show ?thesis using assms i(1) h' unfolding merging_def by auto
qed

text \<open>One iteration.\<close>

lemma merge_runs_p:
  assumes "is_item h p" "0 < psize"
    and "qsize = 0 \<or> q = 0 \<or> is_item h q \<and> cmp (data_of h p) (data_of h q) \<le> 0"
    and "add_tail fl p list tail h = Inr (list', h')"
  shows "merge_runs fl cmp oldhead p psize q qsize list tail h =
    merge_runs fl cmp oldhead (follow fl oldhead (next_of h p)) (psize - 1) q qsize list' p h'"
  using assms by (subst merge_runs.simps) (auto simp: links Let_def)

lemma merge_runs_q:
  assumes "is_item h q" "0 < qsize"
    and "psize = 0 \<or> is_item h p \<and> \<not> cmp (data_of h p) (data_of h q) \<le> 0"
    and "add_tail fl q list tail h = Inr (list', h')"
  shows "merge_runs fl cmp oldhead p psize q qsize list tail h =
    merge_runs fl cmp oldhead p psize (follow fl oldhead (next_of h q)) (qsize - 1) list' q h'"
  using assms by (subst merge_runs.simps) (auto simp: links Let_def)

lemma merge_runs_end:
  "qsize = 0 \<or> q = 0 \<Longrightarrow> merge_runs fl cmp oldhead p 0 q qsize list tail h = Inr (q, list, tail, h)"
  by (subst merge_runs.simps) auto

text \<open>The items of both runs end up behind \<open>acc\<close>, in the order of the library's merge.\<close>

definition merged ::
    "flavour \<Rightarrow> nat \<Rightarrow> heap \<Rightarrow> nat list \<Rightarrow> nat list \<Rightarrow> (nat \<times> nat \<times> nat \<times> heap) result \<Rightarrow> bool" where
  "merged fl oldhead h acc qs r \<longleftrightarrow>
     (\<exists>h'. r = Inr (first qs 0, first acc 0, final 0 acc, h') \<and> merging fl h' oldhead acc [] qs 0 \<and>
           only_links (set acc) h h')"

lemma merged_trans:
  "merged fl oldhead h' acc qs r \<Longrightarrow> only_links A h h' \<Longrightarrow> A \<subseteq> set acc \<Longrightarrow> merged fl oldhead h acc qs r"
  unfolding merged_def by (blast intro: only_links_mono only_links_trans)

lemma merge_runs_ok:
  assumes le: "\<And>a b. cmp (f a) (f b) \<le> 0 \<longleftrightarrow> compare c a b \<noteq> Greater"
  shows "merging fl h oldhead acc ps qs p \<Longrightarrow> data_of h = f \<Longrightarrow> n = length ps + m \<Longrightarrow>
    merged fl oldhead h (acc @ Sorting_Algorithms.merge c ps (take m qs)) (drop m qs)
      (merge_runs fl cmp oldhead p (length ps) (first qs 0) m (first acc 0) (final 0 acc) h)"
proof (induction n arbitrary: acc ps qs p m h)
  case 0
  then show ?case by (auto simp: merged_def merge_runs_end merging_def)
next
  case (Suc n)
  have take_p: ?case
    if ps: "ps = a # ps'" and c: "m = 0 \<or> qs = [] \<or> compare c a (hd qs) \<noteq> Greater" for a ps'
  proof -
    obtain h' where h': "add_tail fl a (first acc 0) (final 0 acc) h = Inr (first (acc @ [a]) 0, h')"
      "merging fl h' oldhead (acc @ [a]) ps' qs (follow fl oldhead (next_of h a))"
      "only_links (insert a (set acc)) h h'"
      using merging_take_p Suc.prems(1) ps by blast
    have a: "p = a" "is_item h a" "qs \<noteq> [] \<Longrightarrow> is_item h (hd qs)" "data_of h' = data_of h"
      using Suc.prems(1) ps only_links_data [OF h'(3)] by (cases qs; auto simp: merging_def)+
    have "merge_runs fl cmp oldhead p (length ps) (first qs 0) m (first acc 0) (final 0 acc) h =
      merge_runs fl cmp oldhead (follow fl oldhead (next_of h a)) (length ps') (first qs 0) m
        (first (acc @ [a]) 0) (final 0 (acc @ [a])) h'"
      using merge_runs_p [where qsize = m and q = "first qs 0" and cmp = cmp, OF a(2) _ _ h'(1), of "length ps"]
        c le a(1,3) Suc.prems(2) ps by (cases qs) auto
    moreover have "Sorting_Algorithms.merge c ps (take m qs) = a # Sorting_Algorithms.merge c ps' (take m qs)"
      using c ps by (cases m; cases qs; cases ps') auto
    ultimately show ?thesis
      using merged_trans [OF Suc.IH [OF h'(2)] h'(3), of m] Suc.prems(2,3) a(4) ps by auto
  qed
  have take_q: ?case
    if qs: "qs = b # qs'" and m: "m = Suc m'" and c: "ps = [] \<or> compare c (hd ps) b = Greater" for b qs' m'
  proof -
    obtain h' where h': "add_tail fl b (first acc 0) (final 0 acc) h = Inr (first (acc @ [b]) 0, h')"
      "merging fl h' oldhead (acc @ [b]) ps qs' p" "follow fl oldhead (next_of h b) = first qs' 0"
      "only_links (insert b (set acc)) h h'"
      using merging_take_q Suc.prems(1) qs by blast
    have b: "is_item h b" "ps \<noteq> [] \<Longrightarrow> p = hd ps \<and> is_item h (hd ps)" "data_of h' = data_of h"
      using Suc.prems(1) qs only_links_data [OF h'(4)] by (cases ps; auto simp: merging_def)+
    have "merge_runs fl cmp oldhead p (length ps) (first qs 0) m (first acc 0) (final 0 acc) h =
      merge_runs fl cmp oldhead p (length ps) (first qs' 0) m' (first (acc @ [b]) 0) (final 0 (acc @ [b])) h'"
      using merge_runs_q [where psize = "length ps" and p = p and cmp = cmp, OF b(1) _ _ h'(1), of m]
        c le b(2) Suc.prems(2) qs m h'(3) by (cases ps) auto
    moreover have "Sorting_Algorithms.merge c ps (take m qs) = b # Sorting_Algorithms.merge c ps (take m' qs')"
      using c qs m by (cases ps) auto
    ultimately show ?thesis
      using merged_trans [OF Suc.IH [OF h'(2)] h'(4), of m'] Suc.prems(2,3) b(3) qs m by auto
  qed
  show ?case
  proof (cases "ps = [] \<and> (m = 0 \<or> qs = [])")
    case True
    then show ?thesis using Suc.prems by (auto simp: merged_def merge_runs_end merging_def)
  next
    case False
    then show ?thesis
      using take_p [of "hd ps" "tl ps"] take_q [of "hd qs" "tl qs" "m - 1"]
      by (cases ps; cases qs; cases m) auto
  qed
qed


section \<open>A pass, on lists\<close>

function pass :: "nat comparator \<Rightarrow> nat \<Rightarrow> nat list \<Rightarrow> nat list" where
  "pass c n as =
     (if as = [] \<or> n = 0 then []
      else Sorting_Algorithms.merge c (take n as) (take n (drop n as)) @ pass c n (drop (2 * n) as))"
  by pat_completeness auto
termination by (relation "measure (\<lambda>(_, _, as). length as)") auto

fun merges :: "nat \<Rightarrow> nat list \<Rightarrow> nat" where
  "merges n as = (if as = [] \<or> n = 0 then 0 else merges n (drop (2 * n) as) + 1)"

declare pass.simps [simp del] merges.simps [simp del]

lemma length_merge [simp]: "length (Sorting_Algorithms.merge c as bs) = length as + length bs"
  by (metis mset_merge size_mset size_union)

lemma merges_one: "0 < n \<Longrightarrow> merges n as \<le> 1 \<longleftrightarrow> length as \<le> 2 * n"
  by (subst merges.simps, subst merges.simps) auto

lemma pass_Nil [simp]: "pass c n [] = []"
  by (simp add: pass.simps)

lemma pass_step:
  "0 < n \<Longrightarrow> pass c n as = Sorting_Algorithms.merge c (take n as) (take n (drop n as)) @ pass c n (drop (2 * n) as)"
  by (cases "as = []") (simp_all add: pass.simps [of c n as])

lemma mset_pass: "0 < n \<Longrightarrow> mset (pass c n as) = mset as"
proof (induction c n as rule: pass.induct)
  case (1 c n as)
  have "mset as = mset (take n as) + mset (take n (drop n as)) + mset (drop (2 * n) as)"
    by (metis append_take_drop_id drop_drop mset_append mult_2 union_assoc)
  then show ?case using 1 by (cases "as = []") (simp_all add: pass_step [of n c as] mset_merge)
qed

lemma pass_set: "0 < n \<Longrightarrow> set (pass c n as) = set as" "0 < n \<Longrightarrow> length (pass c n as) = length as"
  "0 < n \<Longrightarrow> distinct (pass c n as) = distinct as"
  using mset_pass mset_eq_setD mset_eq_length mset_eq_imp_distinct_iff by blast+

text \<open>All runs of length \<open>n\<close> are sorted.\<close>

definition runs_sorted :: "nat comparator \<Rightarrow> nat \<Rightarrow> nat list \<Rightarrow> bool" where
  "runs_sorted c n as \<longleftrightarrow> (\<forall>k. sorted c (take n (drop (k * n) as)))"

lemma runs_sorted_first: "runs_sorted c n as \<Longrightarrow> sorted c (take n as)"
  unfolding runs_sorted_def by (metis drop0 mult_0)

lemma runs_sorted_drop: "runs_sorted c n as \<Longrightarrow> runs_sorted c n (drop n as)"
  unfolding runs_sorted_def by (metis add.commute drop_drop mult_Suc)

lemma runs_sorted_one: "runs_sorted c 1 as"
proof -
  have "sorted c (take 1 bs)" for bs by (cases bs) auto
  then show ?thesis by (simp add: runs_sorted_def)
qed

lemma pass_parts:
  assumes "0 < n"
  shows "take (2 * n) (pass c n as) = Sorting_Algorithms.merge c (take n as) (take n (drop n as))"
    "drop (2 * n) (pass c n as) = pass c n (drop (2 * n) as)"
proof -
  define ms where "ms = Sorting_Algorithms.merge c (take n as) (take n (drop n as))"
  have p: "pass c n as = ms @ pass c n (drop (2 * n) as)" using pass_step [OF assms, of c as] by (simp add: ms_def)
  have "length ms = 2 * n \<or> length ms \<le> 2 * n \<and> drop (2 * n) as = []" by (auto simp: ms_def)
  then show "take (2 * n) (pass c n as) = ms" "drop (2 * n) (pass c n as) = pass c n (drop (2 * n) as)"
    unfolding p by auto
qed

lemma pass_runs:
  assumes "0 < n" "runs_sorted c n as"
  shows "runs_sorted c (2 * n) (pass c n as)"
proof -
  have "sorted c (take (2 * n) (drop (k * (2 * n)) (pass c n as)))" for k
    using assms(2)
  proof (induction k arbitrary: as)
    case 0
    then show ?case
      using assms(1) by (auto simp: pass_parts intro!: sorted_merge dest: runs_sorted_first runs_sorted_drop)
  next
    case (Suc k)
    have "runs_sorted c n (drop (2 * n) as)"
      using runs_sorted_drop [OF runs_sorted_drop [OF Suc.prems]] by (simp add: mult_2)
    then have "sorted c (take (2 * n) (drop (k * (2 * n)) (drop (2 * n) (pass c n as))))"
      using Suc.IH assms(1) by (simp add: pass_parts)
    then show ?case by (simp add: add.commute)
  qed
  then show ?thesis by (simp add: runs_sorted_def)
qed

lemma pass_stable:
  "0 < n \<Longrightarrow> runs_sorted c n as \<Longrightarrow> stable_segment c x (pass c n as) = stable_segment c x as"
proof (induction c n as rule: pass.induct)
  case (1 c n as)
  have r: "runs_sorted c n (drop n as)" "runs_sorted c n (drop (2 * n) as)"
    using runs_sorted_drop [OF 1(3)] runs_sorted_drop [OF runs_sorted_drop [OF 1(3)]] by (simp_all add: mult_2)
  have "as = take n as @ take n (drop n as) @ drop (2 * n) as"
    by (metis append_take_drop_id drop_drop mult_2)
  then have "stable_segment c x as = stable_segment c x (take n as) @ stable_segment c x (take n (drop n as)) @
      stable_segment c x (drop (2 * n) as)" by (metis filter_append)
  moreover have "stable_segment c x (Sorting_Algorithms.merge c (take n as) (take n (drop n as))) =
      stable_segment c x (take n as) @ stable_segment c x (take n (drop n as))"
    using runs_sorted_first 1(3) r(1) by (simp add: filter_merge merge_stable_segments)
  ultimately show ?case using 1 r(2) by (cases "as = []") (simp_all add: pass_step [of n c as])
qed

lemma pass_sorted:
  assumes "0 < n" "runs_sorted c n as" "length as \<le> 2 * n"
  shows "sorted c (pass c n as)"
  using runs_sorted_first [OF pass_runs [OF assms(1,2)]] assms by (simp add: pass_set)


section \<open>A pass, in the heap\<close>

definition passed ::
    "flavour \<Rightarrow> heap \<Rightarrow> nat list \<Rightarrow> nat \<Rightarrow> (nat \<times> nat \<times> nat \<times> heap) result \<Rightarrow> bool" where
  "passed fl h as k r \<longleftrightarrow>
     (\<exists>h' m. r = Inr (first as 0, final 0 as, k, h') \<and> linked fl h' as m \<and> only_links (set as) h h')"

lemma passed_trans:
  "passed fl h' as k r \<Longrightarrow> only_links A h h' \<Longrightarrow> A \<subseteq> set as \<Longrightarrow> passed fl h as k r"
  unfolding passed_def by (blast intro: only_links_mono only_links_trans)

text \<open>One turn of the loop: two runs are merged behind \<open>acc\<close>.\<close>

lemma merge_pass_step:
  assumes le: "\<And>a b. cmp (f a) (f b) \<le> 0 \<longleftrightarrow> compare c a b \<noteq> Greater" and n: "0 < nat insize"
    and acc: "distinct (acc @ qs)" "linked fl h acc m" and qs: "lseg h qs (fin fl oldhead)" "qs \<noteq> []"
    and old: "fl = CDL \<longrightarrow> oldhead \<notin> set (tl qs)" and f: "data_of h = f"
  defines "acc' \<equiv> acc @ Sorting_Algorithms.merge c (take (nat insize) qs) (take (nat insize) (drop (nat insize) qs))"
  defines "rs \<equiv> drop (2 * nat insize) qs"
  shows "\<exists>h' m'. merge_pass fl cmp oldhead insize (Suc fuel) (first qs 0) (first acc 0) (final 0 acc) k h =
      merge_pass fl cmp oldhead insize fuel (first rs 0) (first acc' 0) (final 0 acc') (k + 1) h' \<and>
    distinct (acc' @ rs) \<and> linked fl h' acc' m' \<and> lseg h' rs (fin fl oldhead) \<and>
    (fl = CDL \<longrightarrow> oldhead \<notin> set (tl rs)) \<and> only_links (set acc') h h'"
proof -
  let ?n = "nat insize"
  have rs: "drop ?n (drop ?n qs) = rs" by (simp add: rs_def mult_2)
  define ps ts where "ps = take ?n qs" and "ts = drop ?n qs"
  obtain b bs n' where "qs = b # bs" "?n = Suc n'" using qs(2) n by (cases qs; cases ?n) auto
  then have "qs = ps @ ts" "ps \<noteq> []" "hd ps = hd qs" "tl qs = tl ps @ ts" "first qs 0 = hd qs"
    by (simp_all add: ps_def ts_def)
  then have "merging fl h oldhead acc ps ts (first qs 0)"
    using acc qs(1) old unfolding merging_def by auto
  then have "merging fl h oldhead acc (take ?n qs) (drop ?n qs) (first qs 0)" by (simp add: ps_def ts_def)
  then have "merged fl oldhead h acc' rs (merge_runs fl cmp oldhead (first qs 0) (length (take ?n qs))
      (first (drop ?n qs) 0) ?n (first acc 0) (final 0 acc) h)"
    using merge_runs_ok [of cmp f c, OF le] f unfolding acc'_def rs [symmetric] by blast
  then obtain h' where h': "merge_runs fl cmp oldhead (first qs 0) (length (take ?n qs)) (first (drop ?n qs) 0) ?n
      (first acc 0) (final 0 acc) h = Inr (first rs 0, first acc' 0, final 0 acc', h')"
    "merging fl h' oldhead acc' [] rs 0" "only_links (set acc') h h'"
    unfolding merged_def by blast
  have "run_end fl oldhead ?n (first qs 0) 0 h = Inr (first (drop ?n qs) 0, length (take ?n qs))"
    using run_end_ok [OF qs old] by simp
  moreover have "first qs 0 \<noteq> 0" using qs by (cases qs) (auto dest: is_item_not_zero)
  ultimately have "merge_pass fl cmp oldhead insize (Suc fuel) (first qs 0) (first acc 0) (final 0 acc) k h =
      merge_pass fl cmp oldhead insize fuel (first rs 0) (first acc' 0) (final 0 acc') (k + 1) h'"
    using h'(1) by simp
  moreover have "fl = CDL \<longrightarrow> oldhead \<notin> set (tl rs)" using h'(2) by (cases rs) (auto simp: merging_def)
  ultimately show ?thesis using h'(2,3) unfolding merging_def by auto
qed

lemma merge_pass_ok:
  assumes le: "\<And>a b. cmp (f a) (f b) \<le> 0 \<longleftrightarrow> compare c a b \<noteq> Greater" and n: "0 < nat insize"
  shows "distinct (acc @ qs) \<Longrightarrow> linked fl h acc m \<Longrightarrow> lseg h qs (fin fl oldhead) \<Longrightarrow>
    (fl = CDL \<longrightarrow> oldhead \<notin> set (tl qs)) \<Longrightarrow> data_of h = f \<Longrightarrow> length qs < fuel \<Longrightarrow>
    passed fl h (acc @ pass c (nat insize) qs) (k + merges (nat insize) qs)
      (merge_pass fl cmp oldhead insize fuel (first qs 0) (first acc 0) (final 0 acc) k h)"
proof (induction fuel arbitrary: acc qs h m k)
  case 0
  then show ?case by simp
next
  case (Suc fuel)
  show ?case
  proof (cases "qs = []")
    case True
    then show ?thesis using Suc.prems(2) by (auto simp: passed_def merges.simps)
  next
    case False
    define acc' rs where "acc' = acc @ Sorting_Algorithms.merge c (take (nat insize) qs)
      (take (nat insize) (drop (nat insize) qs))" and "rs = drop (2 * nat insize) qs"
    obtain h' m' where h': "merge_pass fl cmp oldhead insize (Suc fuel) (first qs 0) (first acc 0) (final 0 acc) k h =
        merge_pass fl cmp oldhead insize fuel (first rs 0) (first acc' 0) (final 0 acc') (k + 1) h'"
      "distinct (acc' @ rs)" "linked fl h' acc' m'" "lseg h' rs (fin fl oldhead)"
      "fl = CDL \<longrightarrow> oldhead \<notin> set (tl rs)" "only_links (set acc') h h'"
      using merge_pass_step [of cmp f c insize, OF le n Suc.prems(1-3) False Suc.prems(4,5), where fuel = fuel and k = k]
      unfolding acc'_def rs_def by blast
    have "length rs < fuel" using Suc.prems(6) n False by (cases qs) (auto simp: rs_def)
    then have "passed fl h' (acc' @ pass c (nat insize) rs) (k + 1 + merges (nat insize) rs)
        (merge_pass fl cmp oldhead insize fuel (first rs 0) (first acc' 0) (final 0 acc') (k + 1) h')"
      using Suc.IH [OF h'(2-5), where k = "k + 1"] only_links_data [OF h'(6)] Suc.prems(5) by simp
    moreover have "acc' @ pass c (nat insize) rs = acc @ pass c (nat insize) qs"
      using pass_step [OF n, of c qs] by (simp add: acc'_def rs_def)
    moreover have "k + 1 + merges (nat insize) rs = k + merges (nat insize) qs"
      using False n by (subst merges.simps [of _ qs]) (simp add: rs_def)
    moreover have "set acc' \<subseteq> set (acc' @ pass c (nat insize) rs)" by simp
    ultimately show ?thesis unfolding h'(1) using passed_trans [OF _ h'(6)] by metis
  qed
qed


section \<open>Sorting\<close>

definition list_at :: "flavour \<Rightarrow> heap \<Rightarrow> nat \<Rightarrow> nat list \<Rightarrow> bool" where
  "list_at fl = (case fl of LL \<Rightarrow> slist | DL \<Rightarrow> dlist | CDL \<Rightarrow> cdlist)"

lemma list_at_lseg:
  "list_at fl h head as \<Longrightarrow> distinct as \<and> head = first as 0 \<and> lseg h as (fin fl (first as 0))"
  by (cases fl) (auto simp: list_at_def slist_def dlist_def cdlist_def fin_def dest: dseg_lseg)

lemma close_list_ok:
  assumes "linked fl h as m" "distinct as" "as \<noteq> []"
  shows "\<exists>h'. close_list fl (first as 0) (final 0 as) h = Inr h' \<and> list_at fl h' (first as 0) as \<and>
    only_links (set as) h h'"
proof -
  obtain bs b where as: "as = bs @ [b]" using assms(3) by (cases as rule: rev_cases) auto
  show ?thesis
    using assms as
    by (cases fl; cases bs)
       (auto simp: close_list_def list_at_def slist_def dlist_def cdlist_def linked_def links)
qed

lemma pass_sort:
  assumes "0 < n" "runs_sorted c n as"
  shows "length as \<le> 2 * n \<Longrightarrow> sort c as = pass c n as" "sort c (pass c n as) = sort c as"
  using assms by (auto intro!: sort_eqI simp: mset_pass pass_sorted pass_stable stable_sort)

lemma sort_passes_ok:
  assumes le: "\<And>a b. cmp (f a) (f b) \<le> 0 \<longleftrightarrow> compare c a b \<noteq> Greater"
  shows "list_at fl h head as \<Longrightarrow> as \<noteq> [] \<Longrightarrow> data_of h = f \<Longrightarrow> runs_sorted c (nat insize) as \<Longrightarrow>
    0 < insize \<Longrightarrow> length as \<le> 1073741824 \<Longrightarrow> length as < fuel \<Longrightarrow> length as \<le> nat insize * 2 ^ n \<Longrightarrow> 0 < n \<Longrightarrow>
    \<exists>head' h'. sort_passes fl cmp fuel n insize head h = Inr (head', h') \<and>
      list_at fl h' head' (sort c as) \<and> only_links (set as) h h'"
proof (induction n arbitrary: as insize head h)
  case 0
  then show ?case by simp
next
  case (Suc n)
  let ?bs = "pass c (nat insize) as"
  have n: "0 < nat insize" using Suc.prems(5) by simp
  have l: "distinct as" "head = first as 0" "lseg h as (fin fl head)" using list_at_lseg [OF Suc.prems(1)] by auto
  have "fl = CDL \<longrightarrow> head \<notin> set (tl as)" using l(1,2) by (cases as) auto
  then have "passed fl h ?bs (merges (nat insize) as) (merge_pass fl cmp head insize fuel head 0 0 0 h)"
    using merge_pass_ok [of cmp f c insize "[]" as fl h 0 head fuel 0, OF le n _ _ l(3) _ Suc.prems(3,7)] l(1,2)
    by simp
  then obtain h1 m where h1: "merge_pass fl cmp head insize fuel head 0 0 0 h =
      Inr (first ?bs 0, final 0 ?bs, merges (nat insize) as, h1)" "linked fl h1 ?bs m" "only_links (set as) h h1"
    unfolding passed_def pass_set(1) [OF n] by blast
  have "?bs \<noteq> []" using Suc.prems(2) pass_set(2) [OF n, of c as] by (metis length_0_conv)
  then obtain h2 where h2: "close_list fl (first ?bs 0) (final 0 ?bs) h1 = Inr h2"
    "list_at fl h2 (first ?bs 0) ?bs" "only_links (set as) h1 h2"
    using close_list_ok [OF h1(2)] l(1) by (auto simp: pass_set [OF n])
  have o: "only_links (set as) h h2" using only_links_trans [OF h1(3) h2(3)] .
  show ?case
  proof (cases "length as \<le> 2 * nat insize")
    case True
    then have "sort_passes fl cmp fuel (Suc n) insize head h = Inr (first ?bs 0, h2)"
      using h1(1) h2(1) merges_one [OF n, of as] by simp
    then show ?thesis using h2(2) o pass_sort(1) [OF n Suc.prems(4) True] by auto
  next
    case False
    have i: "to_int (insize * 2) = insize * 2" "nat (insize * 2) = 2 * nat insize"
      using False Suc.prems(5,6) by (simp_all add: nat_mult_distrib)
    have "n \<noteq> 0" using False Suc.prems(8) by (cases n) auto
    have "sort_passes fl cmp fuel (Suc n) insize head h = sort_passes fl cmp fuel n (insize * 2) (first ?bs 0) h2"
      using h1(1) h2(1) merges_one [OF n, of as] False i(1) by simp
    moreover have "\<exists>head' h'. sort_passes fl cmp fuel n (insize * 2) (first ?bs 0) h2 = Inr (head', h') \<and>
        list_at fl h' head' (sort c ?bs) \<and> only_links (set ?bs) h2 h'"
    proof (rule Suc.IH [OF h2(2) \<open>?bs \<noteq> []\<close>])
      show "data_of h2 = f" using only_links_data [OF o] Suc.prems(3) by simp
      show "runs_sorted c (nat (insize * 2)) ?bs" using pass_runs [OF n Suc.prems(4)] i(2) by simp
    qed (use Suc.prems n i \<open>n \<noteq> 0\<close> in \<open>simp_all add: pass_set ac_simps\<close>)
    ultimately show ?thesis
      using only_links_trans [OF o] pass_sort(2) [OF n Suc.prems(4)] pass_set(1) [OF n, of c as] by auto
  qed
qed

text \<open>The three macros.\<close>

lemma sort_ok:
  assumes "list_at fl h head as" "\<And>x y. cmp x y \<le> 0 \<longleftrightarrow> compare c x y \<noteq> Greater"
    "length as \<le> 1073741824" "length as < fuel"
  shows "\<exists>head' h'. (if head \<noteq> 0 then sort_passes fl cmp fuel fuel 1 head h else Inr (head, h)) = Inr (head', h') \<and>
    list_at fl h' head' (sort (key (data_of h) c) as) \<and> only_links (set as) h h'"
proof (cases "as = []")
  case True
  then show ?thesis using assms(1) list_at_lseg [OF assms(1)] by auto
next
  case False
  have "length as \<le> 2 ^ fuel"
    using assms(4) less_exp [of fuel] by (meson less_imp_le order.strict_trans)
  moreover have "head \<noteq> 0"
    using list_at_lseg [OF assms(1)] False by (cases as) (auto dest: is_item_not_zero)
  moreover have "runs_sorted (key (data_of h) c) (nat 1) as" using runs_sorted_one by simp
  ultimately show ?thesis
    using sort_passes_ok [of cmp "data_of h" "key (data_of h) c", OF _ assms(1) False, where insize = 1 and n = fuel]
      assms(2-4) by simp
qed

lemma SORT_ok:
  assumes "\<And>x y. cmp x y \<le> 0 \<longleftrightarrow> compare c x y \<noteq> Greater" "length as \<le> 1073741824" "length as < fuel"
  shows "slist h head as \<Longrightarrow> \<exists>head' h'. LL_SORT fuel cmp head h = Inr (head', h') \<and>
      slist h' head' (sort (key (data_of h) c) as) \<and> only_links (set as) h h'"
    "dlist h head as \<Longrightarrow> \<exists>head' h'. DL_SORT fuel cmp head h = Inr (head', h') \<and>
      dlist h' head' (sort (key (data_of h) c) as) \<and> only_links (set as) h h'"
    "cdlist h head as \<Longrightarrow> \<exists>head' h'. CDL_SORT fuel cmp head h = Inr (head', h') \<and>
      cdlist h' head' (sort (key (data_of h) c) as) \<and> only_links (set as) h h'"
  using sort_ok [of LL h head as cmp c fuel] sort_ok [of DL h head as cmp c fuel] sort_ok [of CDL h head as cmp c fuel] assms
  by (simp_all add: list_at_def LL_SORT_def DL_SORT_def CDL_SORT_def)

end
