(* ===== verification/UtListProps.thy ===== *)
theory UtListProps
  imports UtLists UtSort
begin

text \<open>
  The properties of the list macros: sequences of them do to every kind of list what the list
  operations say; the sort is the stable sort; the iterations see every element once.
\<close>

section \<open>Sequences of operations\<close>

datatype list_op =
    Prepend nat
  | Append nat
  | Delete nat
  | Replace nat nat
  | PrependBefore nat nat

text \<open>What the operations mean for a list of addresses.\<close>

fun apply_op :: "list_op \<Rightarrow> nat list \<Rightarrow> nat list" where
  "apply_op (Prepend a) as = a # as"
| "apply_op (Append a) as = as @ [a]"
| "apply_op (Delete a) as = remove1 a as"
| "apply_op (Replace a b) as = takeWhile (\<lambda>x. x \<noteq> a) as @ b # tl (dropWhile (\<lambda>x. x \<noteq> a) as)"
| "apply_op (PrependBefore a b) as = takeWhile (\<lambda>x. x \<noteq> a) as @ b # dropWhile (\<lambda>x. x \<noteq> a) as"

fun op_ok :: "(nat \<Rightarrow> bool) \<Rightarrow> nat list \<Rightarrow> list_op \<Rightarrow> bool" where
  "op_ok item as (Prepend a) \<longleftrightarrow> item a \<and> a \<notin> set as"
| "op_ok item as (Append a) \<longleftrightarrow> item a \<and> a \<notin> set as"
| "op_ok item as (Delete a) \<longleftrightarrow> a \<in> set as"
| "op_ok item as (Replace a b) \<longleftrightarrow> a \<in> set as \<and> item b \<and> b \<notin> set as"
| "op_ok item as (PrependBefore a b) \<longleftrightarrow> a \<in> set as \<and> item b \<and> b \<notin> set as"

primrec ops_ok :: "(nat \<Rightarrow> bool) \<Rightarrow> nat list \<Rightarrow> list_op list \<Rightarrow> bool" where
  "ops_ok item as [] \<longleftrightarrow> True"
| "ops_ok item as (op # ops) \<longleftrightarrow> op_ok item as op \<and> ops_ok item (apply_op op as) ops"

text \<open>The macro of each kind of list; \<open>CDL_APPEND\<close> does not exist.\<close>

fun run_op :: "flavour \<Rightarrow> nat \<Rightarrow> list_op \<Rightarrow> nat \<Rightarrow> heap \<Rightarrow> (nat \<times> heap) result" where
  "run_op LL fuel (Prepend a) head h = LL_PREPEND head a h"
| "run_op LL fuel (Append a) head h = LL_APPEND fuel head a h"
| "run_op LL fuel (Delete a) head h = LL_DELETE fuel head a h"
| "run_op LL fuel (Replace a b) head h = LL_REPLACE_ELEM fuel head a b h"
| "run_op LL fuel (PrependBefore a b) head h = LL_PREPEND_ELEM fuel head a b h"
| "run_op DL fuel (Prepend a) head h = DL_PREPEND head a h"
| "run_op DL fuel (Append a) head h = DL_APPEND head a h"
| "run_op DL fuel (Delete a) head h = DL_DELETE head a h"
| "run_op DL fuel (Replace a b) head h = DL_REPLACE_ELEM head a b h"
| "run_op DL fuel (PrependBefore a b) head h = DL_PREPEND_ELEM head a b h"
| "run_op CDL fuel (Prepend a) head h = CDL_PREPEND head a h"
| "run_op CDL fuel (Append a) head h = Inl NoReturn"
| "run_op CDL fuel (Delete a) head h = CDL_DELETE head a h"
| "run_op CDL fuel (Replace a b) head h = CDL_REPLACE_ELEM head a b h"
| "run_op CDL fuel (PrependBefore a b) head h = CDL_PREPEND_ELEM head a b h"

definition supported :: "flavour \<Rightarrow> list_op \<Rightarrow> bool" where
  "supported fl op \<longleftrightarrow> \<not> (fl = CDL \<and> (\<exists>a. op = Append a))"

primrec run_ops ::
    "(list_op \<Rightarrow> nat \<Rightarrow> heap \<Rightarrow> (nat \<times> heap) result) \<Rightarrow> list_op list \<Rightarrow> nat \<Rightarrow> heap \<Rightarrow> (nat \<times> heap) result" where
  "run_ops run [] head h = Inr (head, h)"
| "run_ops run (op # ops) head h = andthen (run op head h) (\<lambda>(head, h). run_ops run ops head h)"

text \<open>The contract of one kind of list: every macro does its operation and only changes links.\<close>

locale list_macros =
  fixes rep :: "heap \<Rightarrow> nat \<Rightarrow> nat list \<Rightarrow> bool"
    and run :: "list_op \<Rightarrow> nat \<Rightarrow> heap \<Rightarrow> (nat \<times> heap) result"
    and supports :: "list_op \<Rightarrow> bool" and cap :: nat
  assumes step: "rep h head as \<Longrightarrow> supports op \<Longrightarrow> op_ok (is_item h) as op \<Longrightarrow> length as \<le> cap \<Longrightarrow>
      yields rep UNIV h (run op head h) (apply_op op as)"
begin

lemma length_apply: "op_ok item as op \<Longrightarrow> length (apply_op op as) \<le> length as + 1"
proof (induction op)
  case (Replace a b)
  have "length (takeWhile (\<lambda>x. x \<noteq> a) as) + length (dropWhile (\<lambda>x. x \<noteq> a) as) = length as"
    by (metis length_append takeWhile_dropWhile_id)
  then show ?case by simp
next
  case (PrependBefore a b)
  have "length (takeWhile (\<lambda>x. x \<noteq> a) as) + length (dropWhile (\<lambda>x. x \<noteq> a) as) = length as"
    by (metis length_append takeWhile_dropWhile_id)
  then show ?case by simp
qed (auto simp: length_remove1)

lemma runs:
  "rep h head as \<Longrightarrow> list_all supports ops \<Longrightarrow> ops_ok (is_item h) as ops \<Longrightarrow> length as + length ops \<le> cap \<Longrightarrow>
   yields rep UNIV h (run_ops run ops head h) (foldl (\<lambda>as op. apply_op op as) as ops)"
proof (induction ops arbitrary: as head h)
  case Nil
  then show ?case by (simp add: yields_def)
next
  case (Cons op ops)
  then have "yields rep UNIV h (run op head h) (apply_op op as)" by (intro step) auto
  then obtain head' h' where h': "run op head h = Inr (head', h')" "rep h' head' (apply_op op as)"
    "only_links UNIV h h'" by (auto simp: yields_def)
  have "yields rep UNIV h' (run_ops run ops head' h') (foldl (\<lambda>as op. apply_op op as) (apply_op op as) ops)"
    using Cons.prems length_apply [of "is_item h" as op] only_links_item [OF h'(3)]
    by (intro Cons.IH [OF h'(2)]) auto
  then show ?case using h'(1) only_links_trans [OF h'(3)] by (auto simp: yields_def)
qed

end

lemma yields_UNIV: "yields rep A h r as \<Longrightarrow> yields rep UNIV h r as"
  unfolding yields_def using only_links_mono by blast

lemma split_at:
  assumes "a \<in> set as" "distinct as"
  obtains us vs where "as = us @ a # vs" "takeWhile (\<lambda>x. x \<noteq> a) as = us"
    "dropWhile (\<lambda>x. x \<noteq> a) as = a # vs" "remove1 a as = us @ vs"
proof -
  obtain us vs where as: "as = us @ a # vs" "a \<notin> set us" using assms(1) by (meson split_list_first)
  then have t: "takeWhile (\<lambda>x. x \<noteq> a) us = us" "dropWhile (\<lambda>x. x \<noteq> a) us = []"
    by (auto simp: takeWhile_eq_all_conv dropWhile_eq_Nil_conv)
  have "takeWhile (\<lambda>x. x \<noteq> a) as = us" "dropWhile (\<lambda>x. x \<noteq> a) as = a # vs"
    unfolding as(1) using as(2) by (simp_all add: takeWhile_append dropWhile_append t)
  then show thesis using that as by (auto simp: remove1_append)
qed

text \<open>The cases of an operation, with the list split at the element it names.\<close>

lemma op_split:
  assumes "op_ok item as op" "distinct as"
    and "\<And>a. op = Prepend a \<Longrightarrow> item a \<Longrightarrow> a \<notin> set as \<Longrightarrow> P (a # as)"
    and "\<And>a. op = Append a \<Longrightarrow> item a \<Longrightarrow> a \<notin> set as \<Longrightarrow> P (as @ [a])"
    and "\<And>a us vs. op = Delete a \<Longrightarrow> as = us @ a # vs \<Longrightarrow> P (us @ vs)"
    and "\<And>a b us vs. op = Replace a b \<Longrightarrow> as = us @ a # vs \<Longrightarrow> item b \<Longrightarrow> b \<notin> set as \<Longrightarrow> P (us @ b # vs)"
    and "\<And>a b us vs. op = PrependBefore a b \<Longrightarrow> as = us @ a # vs \<Longrightarrow> item b \<Longrightarrow> b \<notin> set as \<Longrightarrow> P (us @ b # a # vs)"
  shows "P (apply_op op as)"
proof (cases op)
  case (Delete a)
  then obtain us vs where "as = us @ a # vs" "remove1 a as = us @ vs"
    using assms(1) split_at [OF _ assms(2)] by (metis op_ok.simps(3))
  then show ?thesis using Delete assms(5) by simp
next
  case (Replace a b)
  then obtain us vs where "as = us @ a # vs" "apply_op op as = us @ b # vs"
    using assms(1) split_at [OF _ assms(2)] by (metis apply_op.simps(4) list.sel(3) op_ok.simps(4))
  then show ?thesis using Replace assms(1,6) by simp
next
  case (PrependBefore a b)
  then obtain us vs where "as = us @ a # vs" "apply_op op as = us @ b # a # vs"
    using assms(1) split_at [OF _ assms(2)] by (metis apply_op.simps(5) op_ok.simps(5))
  then show ?thesis using PrependBefore assms(1,7) by simp
qed (use assms in auto)

lemmas ll_steps =
  LL_PREPEND_ok [THEN yields_UNIV]
  LL_APPEND_ok [THEN yields_UNIV]
  LL_DELETE_ok [THEN yields_UNIV]
  LL_REPLACE_ELEM_ok [THEN yields_UNIV]
  LL_PREPEND_ELEM_ok [THEN yields_UNIV]
lemmas dl_steps =
  DL_PREPEND_ok [THEN yields_UNIV]
  DL_APPEND_ok [THEN yields_UNIV]
  DL_DELETE_ok [THEN yields_UNIV]
  DL_REPLACE_ELEM_ok [THEN yields_UNIV]
  DL_PREPEND_ELEM_ok [THEN yields_UNIV]
lemmas cdl_steps =
  CDL_PREPEND_ok [THEN yields_UNIV]
  CDL_DELETE_ok [THEN yields_UNIV]
  CDL_REPLACE_ELEM_ok [THEN yields_UNIV]
  CDL_PREPEND_ELEM_ok [THEN yields_UNIV]

interpretation ll: list_macros slist "run_op LL fuel" "supported LL" fuel for fuel
proof
  fix h head as op
  assume r: "slist h head as" "op_ok (is_item h) as op" "length as \<le> fuel"
  have "distinct as" using r(1) by (simp add: slist_def)
  with r(2) show "yields slist UNIV h (run_op LL fuel op head h) (apply_op op as)"
    by (rule op_split)
       (use r in \<open>auto intro: ll_steps\<close>)
qed

interpretation dl: list_macros dlist "run_op DL fuel" "supported DL" fuel for fuel
proof
  fix h head as op
  assume r: "dlist h head as" "op_ok (is_item h) as op"
  have "distinct as" using r(1) by (simp add: dlist_def)
  with r(2) show "yields dlist UNIV h (run_op DL fuel op head h) (apply_op op as)"
    by (rule op_split)
       (use r in \<open>auto intro: dl_steps\<close>)
qed

interpretation cdl: list_macros cdlist "run_op CDL fuel" "supported CDL" fuel for fuel
proof
  fix h head as op
  assume r: "cdlist h head as" "op_ok (is_item h) as op" "supported CDL op"
  have "distinct as" using r(1) by (simp add: cdlist_def)
  with r(2) show "yields cdlist UNIV h (run_op CDL fuel op head h) (apply_op op as)"
    by (rule op_split)
       (use r in \<open>auto simp: supported_def intro: cdl_steps\<close>)
qed

text \<open>C10. On every sequence of operations the macros for singly linked, doubly linked and circular
  lists leave the list that the operations on sequences of elements give, with all links of its
  kind right; they terminate, fault nowhere, and change nothing but links.\<close>

theorem list_macros_refine:
  assumes "list_at fl h head as" "list_all (supported fl) ops" "ops_ok (is_item h) as ops"
    "length as + length ops \<le> fuel"
  shows "\<exists>head' h'. run_ops (run_op fl fuel) ops head h = Inr (head', h') \<and>
    list_at fl h' head' (foldl (\<lambda>as op. apply_op op as) as ops) \<and>
    (\<forall>a. is_item h' a = is_item h a \<and> data_of h' a = data_of h a)"
  using assms ll.runs dl.runs cdl.runs
  by (cases fl) (fastforce simp: list_at_def yields_def only_links_def)+

text \<open>C8. The three sort macros, whose comparison is that of a linear quasi-order, terminate and are
  the stable sort of the library: the same elements, in order, and those that compare equal in the
  order they had.  Only links change, and the links of the kind of list are right.\<close>

theorem list_sort_correct:
  assumes "\<And>x y. cmp x y \<le> 0 \<longleftrightarrow> compare c x y \<noteq> Greater" "length as \<le> 1073741824" "length as < fuel"
    "list_at fl h head as"
  shows "\<exists>head' h'.
    (case fl of LL \<Rightarrow> LL_SORT fuel cmp head h | DL \<Rightarrow> DL_SORT fuel cmp head h | CDL \<Rightarrow> CDL_SORT fuel cmp head h) =
      Inr (head', h') \<and>
    list_at fl h' head' (sort (key (data_of h) c) as) \<and> only_links (set as) h h'"
  using SORT_ok [OF assms(1-3)] assms(4) by (cases fl) (simp_all add: list_at_def)

text \<open>Counting and searching visit the elements in order, stop at the first one that matches, and
  end: with NULL behind the last element of a plain list, and before the head of a circular one.\<close>

theorem list_iterations_correct:
  assumes "list_at fl h head as" "length as < fuel"
  shows "(if fl = CDL then CDL_COUNT fuel head head 0 h else LL_COUNT fuel head 0 h) = Inr (length as) \<and>
    (if fl = CDL then CDL_SEARCH cmp elt fuel head head h else LL_SEARCH cmp elt fuel head h) =
      Inr (find_first (\<lambda>a. cmp (data_of h a) elt = 0) as) \<and>
    (if fl = CDL then CDL_SEARCH_SCALAR val fuel head head h else LL_SEARCH_SCALAR val fuel head h) =
      Inr (find_first (\<lambda>a. data_of h a = val) as)"
proof (cases "fl = CDL")
  case True
  then show ?thesis
    using assms CDL_COUNT_ok [of h head as fuel] CDL_SEARCH_ok [of h head as fuel]
    by (simp add: list_at_def CDL_SEARCH_SCALAR_search if_distrib [of "\<lambda>x. x = 0"] cong: if_cong)
next
  case False
  then have "lseg h as 0" "head = first as 0" using list_at_lseg [OF assms(1)] by (auto simp: fin_def)
  then show ?thesis
    using False assms(2) LL_COUNT_ok [of h as fuel 0] LL_SEARCH_ok [of h as fuel]
    by (simp add: LL_SEARCH_SCALAR_search)
qed


section \<open>Instances\<close>

definition sample_heap :: heap where
  "sample_heap = Map.empty(8 \<mapsto> \<lparr>client_socket_fd = 5, nxt = 16, prv = 16\<rparr>,
    16 \<mapsto> \<lparr>client_socket_fd = 4, nxt = 0, prv = 8\<rparr>, 24 \<mapsto> \<lparr>client_socket_fd = 4, nxt = 0, prv = 0\<rparr>)"

lemma sample_list: "list_at DL sample_heap 8 [8, 16]"
  by (simp add: list_at_def dlist_def is_item_def next_of_def prev_of_def sample_heap_def)

lemma sample_data: "data_of sample_heap 8 = 5" "data_of sample_heap 16 = 4" "is_item sample_heap 24"
  by (simp_all add: data_of_def is_item_def sample_heap_def)

theorem list_macros_refine_witness:
  "\<exists>head' h'. run_ops (run_op DL 9) [PrependBefore 16 24, Delete 8] 8 sample_heap = Inr (head', h') \<and>
     list_at DL h' head' [24, 16]"
  using list_macros_refine [OF sample_list, of "[PrependBefore 16 24, Delete 8]" 9]
  by (auto simp: supported_def sample_data)

theorem list_sort_correct_witness:
  "\<exists>head' h'. DL_SORT 3 (\<lambda>x y. x - y) 8 sample_heap = Inr (head', h') \<and> list_at DL h' head' [16, 8]"
proof -
  have "((x :: int) - y \<le> 0) = (compare default x y \<noteq> Greater)" for x y
    by auto
  from list_sort_correct [of "\<lambda>x y. x - y" default "[8, 16]" 3 DL sample_heap 8, OF this _ _ sample_list]
  show ?thesis by (auto simp: sample_data)
qed

theorem list_iterations_correct_witness:
  "LL_COUNT 3 8 0 sample_heap = Inr 2 \<and> LL_SEARCH_SCALAR 4 3 8 sample_heap = Inr 16"
  using list_iterations_correct [OF sample_list, of 3 "\<lambda>x y. 0" 0 4] by (simp add: find_first_def sample_data)

end
