(* ===== verification/UtForeach.thy ===== *)
theory UtForeach
  imports UtListProps
begin

text \<open>
  The rest of \<open>hw2/utlist.h\<close>: the iterations that allow their body to delete the element, and the
  two macros written for compilers without \<open>typeof\<close>, which use no variable of the list's type.
\<close>

section \<open>Iterations that are safe for deletion\<close>

text \<open>
  \<open>LL_FOREACH_SAFE\<close> and \<open>DL_FOREACH_SAFE\<close>, which have the same text: the link is read before the
  body runs.  The body is a function on a state that contains the heap.
\<close>

primrec LL_FOREACH_SAFE ::
    "(nat \<Rightarrow> 's \<Rightarrow> 's result) \<Rightarrow> ('s \<Rightarrow> heap) \<Rightarrow> nat \<Rightarrow> nat \<Rightarrow> 's \<Rightarrow> 's result" where
  "LL_FOREACH_SAFE body heap_of 0 el s = Inl OutOfFuel"
| "LL_FOREACH_SAFE body heap_of (Suc fuel) el s =
     (if el \<noteq> 0 then
        andthen (get_next (heap_of s) el) (\<lambda>tmp.
        andthen (body el s) (\<lambda>s. LL_FOREACH_SAFE body heap_of fuel tmp s))
      else Inr s)"

definition DL_FOREACH_SAFE ::
    "(nat \<Rightarrow> 's \<Rightarrow> 's result) \<Rightarrow> ('s \<Rightarrow> heap) \<Rightarrow> nat \<Rightarrow> nat \<Rightarrow> 's \<Rightarrow> 's result" where
  "DL_FOREACH_SAFE = LL_FOREACH_SAFE"

text \<open>The circular one remembers the last element, \<open>tmp1\<close>, instead of the head.\<close>

primrec CDL_safe_loop ::
    "(nat \<Rightarrow> 's \<Rightarrow> 's result) \<Rightarrow> ('s \<Rightarrow> heap) \<Rightarrow> nat \<Rightarrow> nat \<Rightarrow> nat \<Rightarrow> 's \<Rightarrow> 's result" where
  "CDL_safe_loop body heap_of 0 tmp1 el s = Inl OutOfFuel"
| "CDL_safe_loop body heap_of (Suc fuel) tmp1 el s =
     (if el \<noteq> 0 then
        andthen (get_next (heap_of s) el) (\<lambda>tmp2.
        andthen (body el s) (\<lambda>s. CDL_safe_loop body heap_of fuel tmp1 (if el = tmp1 then 0 else tmp2) s))
      else Inr s)"

definition CDL_FOREACH_SAFE ::
    "(nat \<Rightarrow> 's \<Rightarrow> 's result) \<Rightarrow> ('s \<Rightarrow> heap) \<Rightarrow> nat \<Rightarrow> nat \<Rightarrow> 's \<Rightarrow> 's result" where
  "CDL_FOREACH_SAFE body heap_of fuel head s =
     andthen (if head \<noteq> 0 then get_prev (heap_of s) head else Inr 0) (\<lambda>tmp1.
     CDL_safe_loop body heap_of fuel tmp1 head s)"

text \<open>What the loops are to do: the body for each element in order, up to the first fault.\<close>

primrec run_body :: "(nat \<Rightarrow> 's \<Rightarrow> 's result) \<Rightarrow> nat list \<Rightarrow> 's \<Rightarrow> 's result" where
  "run_body body [] s = Inr s"
| "run_body body (a # as) s = andthen (body a s) (run_body body as)"

text \<open>
  The element at \<open>a\<close> can be read and leads to the elements still to come; that of the last element
  of a circular list is not followed.
\<close>

definition link_ok :: "flavour \<Rightarrow> heap \<Rightarrow> nat \<Rightarrow> nat list \<Rightarrow> bool" where
  "link_ok fl h a vs \<longleftrightarrow> is_item h a \<and> (next_of h a = first vs 0 \<or> (fl = CDL \<and> vs = []))"

text \<open>A body that deletes the element from the list, frees it, and notes its address.\<close>

fun drain :: "flavour \<Rightarrow> nat \<Rightarrow> nat \<Rightarrow> nat \<times> heap \<times> nat list \<Rightarrow> (nat \<times> heap \<times> nat list) result" where
  "drain fl fuel el (head, h, seen) =
     andthen (run_op fl fuel (Delete el) head h) (\<lambda>(head, h). Inr (head, h(el := None), seen @ [el]))"

abbreviation drain_heap :: "nat \<times> heap \<times> nat list \<Rightarrow> heap" where
  "drain_heap s \<equiv> fst (snd s)"

lemma yields_mono: "yields rep A h r as \<Longrightarrow> A \<subseteq> B \<Longrightarrow> yields rep B h r as"
  unfolding yields_def using only_links_mono by blast

lemma DELETE_head:
  "list_at fl h head (a # as) \<Longrightarrow> yields (list_at fl) (set as) h (run_op fl fuel (Delete a) head h) as"
  using LL_DELETE_ok [of h head "[]" a as fuel, THEN yields_mono, of "set as"]
    DL_DELETE_ok [of h head "[]" a as] CDL_DELETE_ok [of h head "[]" a as]
  by (cases fl) (auto simp: list_at_def)

lemma list_at_free:
  assumes "list_at fl h head as" "a \<notin> set as"
  shows "list_at fl (h(a := None)) head as"
proof -
  have c: "is_item (h(a := None)) b = is_item h b \<and> next_of (h(a := None)) b = next_of h b \<and>
      prev_of (h(a := None)) b = prev_of h b" if "b \<in> set as" for b
    using that assms(2) by (auto simp: is_item_def next_of_def prev_of_def)
  then have "lseg (h(a := None)) as n = lseg h as n" "dseg (h(a := None)) p as n = dseg h p as n" for p n
    using lseg_cong [of as "h(a := None)" h] dseg_cong [of as "h(a := None)" h] by auto
  then show ?thesis using assms(1) by (cases fl) (auto simp: list_at_def slist_def dlist_def cdlist_def)
qed

text \<open>One round of the loop, for a list of any kind.\<close>

lemma drain_step:
  assumes "list_at fl h head (a # as)"
  shows "\<exists>h'. drain fl k a (head, h, seen) = Inr (first as 0, h', seen @ [a]) \<and> list_at fl h' (first as 0) as \<and>
    h' a = None \<and> (\<forall>b. b \<notin> set (a # as) \<longrightarrow> h' b = h b)"
proof -
  obtain head' h1 where r: "run_op fl k (Delete a) head h = Inr (head', h1)" "list_at fl h1 head' as"
    "only_links (set as) h h1"
    using DELETE_head [OF assms, of k] by (auto simp: yields_def)
  have "head' = first as 0" "a \<notin> set as" using list_at_lseg [OF r(2)] list_at_lseg [OF assms] by auto
  then show ?thesis using r list_at_free [OF r(2), of a]
    by (intro exI [of _ "h1(a := None)"]) (auto simp: only_links_def simp del: run_op.simps)
qed

lemma drain_all:
  "list_at fl h (first as 0) as \<Longrightarrow>
   \<exists>h'. run_body (drain fl k) as (first as 0, h, seen) = Inr (0, h', seen @ as) \<and>
     (\<forall>a. h' a = (if a \<in> set as then None else h a))"
proof (induction as arbitrary: h seen)
  case (Cons a as)
  obtain h1 where h1: "drain fl k a (a, h, seen) = Inr (first as 0, h1, seen @ [a])" "list_at fl h1 (first as 0) as"
    "h1 a = None" "\<forall>b. b \<notin> set (a # as) \<longrightarrow> h1 b = h b"
    using drain_step [OF Cons.prems, of k seen] by auto
  obtain h' where "run_body (drain fl k) as (first as 0, h1, seen @ [a]) = Inr (0, h', seen @ a # as)"
    "\<forall>b. h' b = (if b \<in> set as then None else h1 b)"
    using Cons.IH [OF h1(2), of "seen @ [a]"] by auto
  moreover have "a \<notin> set as" using list_at_lseg [OF Cons.prems] by simp
  ultimately show ?case using h1 by (intro exI [of _ h']) (auto simp del: drain.simps)
qed simp


section \<open>The loops run their body on every element\<close>

lemma foreach_run:
  assumes ok: "\<And>a vs s. I (a # vs) s \<Longrightarrow> link_ok fl (heap_of s) a vs"
    and step: "\<And>a vs s s'. I (a # vs) s \<Longrightarrow> body a s = Inr s' \<Longrightarrow> I vs s'" and "fl \<noteq> CDL"
  shows "I as s \<Longrightarrow> length as < fuel \<Longrightarrow> LL_FOREACH_SAFE body heap_of fuel (first as 0) s = run_body body as s"
proof (induction as arbitrary: s fuel)
  case Nil
  then show ?case by (cases fuel) simp_all
next
  case (Cons a as)
  obtain f where f: "fuel = Suc f" "length as < f" using Cons.prems(2) by (cases fuel) auto
  have a: "is_item (heap_of s) a" "next_of (heap_of s) a = first as 0"
    using ok [OF Cons.prems(1)] assms(3) by (auto simp: link_ok_def)
  then show ?case using Cons.IH [OF step [OF Cons.prems(1)] f(2)] f(1)
    by (cases "body a s") (simp_all add: links)
qed

lemma cdl_run:
  assumes ok: "\<And>a vs s. I (a # vs) s \<Longrightarrow> link_ok CDL (heap_of s) a vs"
    and step: "\<And>a vs s s'. I (a # vs) s \<Longrightarrow> body a s = Inr s' \<Longrightarrow> I vs s'"
  shows "I as s \<Longrightarrow> length as < fuel \<Longrightarrow> distinct as \<Longrightarrow> (as \<noteq> [] \<longrightarrow> last as = tmp1) \<Longrightarrow>
    CDL_safe_loop body heap_of fuel tmp1 (first as 0) s = run_body body as s"
proof (induction as arbitrary: s fuel)
  case Nil
  then show ?case by (cases fuel) simp_all
next
  case (Cons a as)
  obtain f where f: "fuel = Suc f" "length as < f" using Cons.prems(2) by (cases fuel) auto
  have a: "is_item (heap_of s) a" "as \<noteq> [] \<Longrightarrow> next_of (heap_of s) a = first as 0"
    using ok [OF Cons.prems(1)] by (auto simp: link_ok_def)
  have el: "(if a = tmp1 then 0 else next_of (heap_of s) a) = first as 0"
    using a(2) Cons.prems(3,4) last_in_set [of as] by (cases "as = []") auto
  have "distinct as" "as \<noteq> [] \<longrightarrow> last as = tmp1" using Cons.prems(3,4) by auto
  then show ?case using Cons.IH [OF step [OF Cons.prems(1)] f(2)] f(1) a(1) el
    by (cases "body a s") (simp_all add: links)
qed


section \<open>The macros without a variable\<close>

text \<open>
  \<open>LL_APPEND_VS2008\<close> uses the link of the new element as its variable:
  \<open>while ((add)->next->next) { (add)->next = (add)->next->next; }\<close>
\<close>

primrec temp_walk :: "nat \<Rightarrow> nat \<Rightarrow> heap \<Rightarrow> heap result" where
  "temp_walk 0 add h = Inl OutOfFuel"
| "temp_walk (Suc fuel) add h =
     andthen (get_next h add) (\<lambda>t.
     andthen (get_next h t) (\<lambda>n.
     if n \<noteq> 0 then andthen (set_next add n h) (temp_walk fuel add) else Inr h))"

definition LL_APPEND_VS2008 :: "nat \<Rightarrow> nat \<Rightarrow> nat \<Rightarrow> heap \<Rightarrow> (nat \<times> heap) result" where
  "LL_APPEND_VS2008 fuel head add h =
     andthen
       (if head \<noteq> 0 then
          andthen (set_next add head h) (\<lambda>h.
          andthen (temp_walk fuel add h) (\<lambda>h.
          andthen (get_next h add) (\<lambda>t.
          andthen (set_next t add h) (\<lambda>h. Inr (head, h)))))
        else Inr (add, h)) (\<lambda>(head, h).
     andthen (set_next add 0 h) (\<lambda>h. Inr (head, h)))"

text \<open>\<open>LL_DELETE_VS2008\<close> moves the head itself along the list and puts it back at the end.\<close>

primrec head_walk :: "nat \<Rightarrow> nat \<Rightarrow> nat \<Rightarrow> heap \<Rightarrow> nat result" where
  "head_walk 0 del head h = Inl OutOfFuel"
| "head_walk (Suc fuel) del head h =
     andthen (get_next h head) (\<lambda>n.
     if n \<noteq> 0 \<and> n \<noteq> del then andthen (get_next h head) (\<lambda>head. head_walk fuel del head h) else Inr head)"

definition LL_DELETE_VS2008 :: "nat \<Rightarrow> nat \<Rightarrow> nat \<Rightarrow> heap \<Rightarrow> (nat \<times> heap) result" where
  "LL_DELETE_VS2008 fuel head del h =
     (if head = del then andthen (get_next h head) (\<lambda>n. Inr (n, h))
      else
        let tmp = head in
        andthen (head_walk fuel del head h) (\<lambda>head.
        andthen (get_next h head) (\<lambda>n.
        andthen (if n \<noteq> 0 then andthen (get_next h del) (\<lambda>d. set_next head d h) else Inr h) (\<lambda>h.
        Inr (tmp, h)))))"

lemma head_walk_same: "head_walk fuel del head h = LL_walk fuel del head h"
  by (induction fuel arbitrary: head) (auto simp: andthen_def split: sum.splits)

lemma with_next_twice [simp]: "with_next a v (with_next a w h) = with_next a v h"
  by (auto simp: with_next_def fun_eq_iff option.map_comp comp_def)

lemma with_next_swap: "a \<noteq> b \<Longrightarrow> with_next a v (with_next b w h) = with_next b w (with_next a v h)"
  by (auto simp: with_next_def fun_eq_iff)

lemma temp_walk_ok:
  "lseg h (us @ [t]) 0 \<Longrightarrow> is_item h a \<Longrightarrow> a \<notin> set (us @ [t]) \<Longrightarrow> length us < fuel \<Longrightarrow>
   temp_walk fuel a (with_next a (first us t) h) = Inr (with_next a t h)"
proof (induction us arbitrary: fuel)
  case Nil
  then show ?case by (cases fuel) (auto simp: links)
next
  case (Cons u us)
  obtain f where f: "fuel = Suc f" "length us < f" using Cons.prems(4) by (cases fuel) auto
  have "first us t \<noteq> 0" using Cons.prems(1) first_final_pos(4) [of h us t] by auto
  then show ?case using Cons f by (auto simp: links)
qed


section \<open>Properties\<close>

text \<open>C23. The iterations that read the link first run an arbitrary body on every element exactly
  once and in the order of the list, up to the first fault of the body, whatever it does to the
  element it is given, deleting it from the list and freeing its memory included.  I is any
  invariant of the body, of the elements still to come and the state, under which the element
  reached can be read and leads to the next one.\<close>

theorem foreach_safe_correct:
  assumes "list_at fl (heap_of s) head as" "length as < fuel" "I as s"
    and "\<And>a vs s. I (a # vs) s \<Longrightarrow> link_ok fl (heap_of s) a vs"
    and "\<And>a vs s s'. I (a # vs) s \<Longrightarrow> body a s = Inr s' \<Longrightarrow> I vs s'"
  shows "(case fl of
      LL \<Rightarrow> LL_FOREACH_SAFE body heap_of fuel head s
    | DL \<Rightarrow> DL_FOREACH_SAFE body heap_of fuel head s
    | CDL \<Rightarrow> CDL_FOREACH_SAFE body heap_of fuel head s) = run_body body as s"
proof -
  have head: "head = first as 0" "distinct as" using list_at_lseg [OF assms(1)] by simp_all
  show ?thesis
  proof (cases "fl = CDL")
    case True
    obtain tmp1 where t: "(if head \<noteq> 0 then get_prev (heap_of s) head else Inr 0) = Inr tmp1"
      "as \<noteq> [] \<longrightarrow> last as = tmp1"
      using assms(1) True head by (cases as) (auto simp: list_at_def cdlist_def links final_def)
    moreover have "CDL_safe_loop body heap_of fuel tmp1 head s = run_body body as s"
      using True cdl_run [of I heap_of body as s fuel tmp1] t(2) assms(2-5) head by simp
    ultimately show ?thesis using True by (auto simp: CDL_FOREACH_SAFE_def split: if_splits)
  next
    case False
    then show ?thesis using foreach_run [of I fl heap_of body as s fuel] assms head
      by (cases fl) (simp_all add: DL_FOREACH_SAFE_def)
  qed
qed

text \<open>C39. The two macros for compilers without typeof do to every list, and to the whole heap, what
  LL_APPEND and LL_DELETE do.\<close>

theorem vs2008_equivalent:
  assumes "slist h head as" "is_item h a" "a \<notin> set as" "length as \<le> fuel"
  shows "LL_APPEND_VS2008 fuel head a h = LL_APPEND fuel head a h \<and>
    LL_DELETE_VS2008 fuel head b h = LL_DELETE fuel head b h"
proof
  show "LL_APPEND_VS2008 fuel head a h = LL_APPEND fuel head a h"
  proof (cases as rule: rev_cases)
    case Nil
    then show ?thesis using assms by (simp add: slist_def LL_APPEND_def LL_APPEND_VS2008_def links)
  next
    case (snoc us t)
    have s: "lseg h (us @ [t]) 0" "head = first us t" "is_item h t" "a \<noteq> t" "length us < fuel"
      using assms snoc by (auto simp: slist_def)
    moreover have "first us t \<noteq> 0" using s(1,3) first_final_pos(4) [of h us t t] by auto
    moreover have "LL_walk fuel 0 (first us t) (with_next a 0 h) = Inr t"
      using assms(3) snoc s by (intro LL_walk_last) auto
    moreover have "temp_walk fuel a (with_next a (first us t) h) = Inr (with_next a t h)"
      using assms(2,3) snoc s by (intro temp_walk_ok) auto
    ultimately show ?thesis using assms(2) with_next_swap [of a t 0 a h]
      by (simp add: LL_APPEND_def LL_APPEND_VS2008_def links with_next_swap)
  qed
  show "LL_DELETE_VS2008 fuel head b h = LL_DELETE fuel head b h"
    by (auto simp: LL_DELETE_VS2008_def LL_DELETE_def head_walk_same andthen_def split: sum.splits)
qed



section \<open>Instances\<close>

lemma list_at_link: "list_at fl h head (a # vs) \<Longrightarrow> link_ok fl h a vs"
  using list_at_lseg [of fl h head "a # vs"] by (cases vs) (auto simp: link_ok_def fin_def split: if_splits)

lemma drain_inv:
  assumes "case s of (head, h, seen) \<Rightarrow> list_at fl h head (a # vs)" "drain fl k a s = Inr s'"
  shows "case s' of (head, h, seen) \<Rightarrow> list_at fl h head vs"
proof -
  obtain head h seen where s: "s = (head, h, seen)" "list_at fl h head (a # vs)" using assms(1) by (cases s) auto
  then show ?thesis using drain_step [OF s(2), of k seen] assms(2) by (auto simp del: drain.simps)
qed

text \<open>Every element is deleted and freed, and the loop goes through all of them.\<close>

theorem foreach_safe_correct_witness:
  "DL_FOREACH_SAFE (drain DL 0) drain_heap 3 8 (8, sample_heap, []) = run_body (drain DL 0) [8, 16] (8, sample_heap, []) \<and>
   (\<exists>h'. run_body (drain DL 0) [8, 16] (8, sample_heap, []) = Inr (0, h', [8, 16]) \<and> h' 8 = None \<and> h' 24 \<noteq> None)"
proof -
  have l: "list_at DL sample_heap 8 [8, 16]" by (rule sample_list)
  have "(case DL of LL \<Rightarrow> LL_FOREACH_SAFE (drain DL 0) drain_heap 3 8 (8, sample_heap, [])
      | DL \<Rightarrow> DL_FOREACH_SAFE (drain DL 0) drain_heap 3 8 (8, sample_heap, [])
      | CDL \<Rightarrow> CDL_FOREACH_SAFE (drain DL 0) drain_heap 3 8 (8, sample_heap, [])) =
      run_body (drain DL 0) [8, 16] (8, sample_heap, [])"
    by (rule foreach_safe_correct [where I = "\<lambda>vs (head, h, seen). list_at DL h head vs"])
       (use l drain_inv [where fl = DL] in \<open>auto intro: list_at_link simp del: drain.simps\<close>)
  moreover obtain h' where "run_body (drain DL 0) [8, 16] (8, sample_heap, []) = Inr (0, h', [8, 16])"
    "\<forall>a. h' a = (if a \<in> set [8, 16] then None else sample_heap a)"
    using drain_all [of DL sample_heap "[8, 16]" 0 "[]"] l by (auto simp del: drain.simps run_body.simps)
  ultimately show ?thesis by (auto simp: sample_heap_def simp del: drain.simps run_body.simps)
qed

theorem vs2008_equivalent_witness:
  "LL_APPEND_VS2008 3 8 24 sample_heap = LL_APPEND 3 8 24 sample_heap"
proof -
  have "slist sample_heap 8 [8, 16]" using sample_list by (auto simp: list_at_def slist_def dlist_def)
  then show ?thesis using vs2008_equivalent [of sample_heap 8 "[8, 16]" 24 3] sample_data(3) by simp
qed

end
