(* ===== verification/WorkQueue.thy ===== *)
theory WorkQueue
  imports UtLists
begin

text \<open>
  The work queue of the web server, \<open>hw2/wq.c\<close>, on the list macros of \<open>UtList\<close>.  What each
  function does while it holds the lock; the threads are in \<open>Threads\<close>.

  \<open>calloc\<close> is the address it returns, any address that is not in use.
\<close>

section \<open>The queue\<close>

record wq =
  wq_size :: int32
  wq_head :: nat
  wq_heap :: heap

definition wq_init :: "heap \<Rightarrow> wq" where
  "wq_init h = \<lparr>wq_size = 0, wq_head = 0, wq_heap = h\<rparr>"

text \<open>What \<open>wq_push\<close> does while it holds the lock; \<open>a\<close> is what \<open>calloc\<close> returned.\<close>

definition wq_push :: "wq \<Rightarrow> nat \<Rightarrow> int \<Rightarrow> wq result" where
  "wq_push q a fd =
     (let h = (wq_heap q)(a \<mapsto> \<lparr>client_socket_fd = 0, nxt = 0, prv = 0\<rparr>) in
      andthen (load h a) (\<lambda>i.
      let h = h(a \<mapsto> i\<lparr>client_socket_fd := fd\<rparr>) in
      andthen (DL_APPEND (wq_head q) a h) (\<lambda>(head, h).
      Inr (q\<lparr>wq_head := head, wq_heap := h, wq_size := wq_size q + 1\<rparr>))))"

text \<open>What \<open>wq_pop\<close> does once it holds the lock: it waits while the queue is empty.\<close>

definition wq_pop :: "wq \<Rightarrow> (int \<times> wq) result" where
  "wq_pop q =
     (if wq_size q = 0 then Inl Blocked
      else
        let item = wq_head q in
        andthen (load (wq_heap q) item) (\<lambda>i.
        let fd = client_socket_fd i in
        andthen (DL_DELETE item item (wq_heap q)) (\<lambda>(head, h).
        Inr (fd, q\<lparr>wq_size := wq_size q - 1, wq_head := head, wq_heap := h(item := None)\<rparr>))))"


section \<open>The contents of a queue\<close>

definition wq_rep :: "wq \<Rightarrow> int list \<Rightarrow> bool" where
  "wq_rep q fds \<longleftrightarrow>
     (\<exists>as. dlist (wq_heap q) (wq_head q) as \<and> wq_size q = of_nat (length as) \<and>
           map (data_of (wq_heap q)) as = fds)"

definition fresh_addr :: "wq \<Rightarrow> nat \<Rightarrow> bool" where
  "fresh_addr q a \<longleftrightarrow> a \<noteq> 0 \<and> wq_heap q a = None"

lemma dlist_cong: "(\<And>b. b \<in> set as \<Longrightarrow> h' b = h b) \<Longrightarrow> dlist h' head as = dlist h head as"
  using dseg_cong [of as h' h] by (simp add: dlist_def is_item_def next_of_def prev_of_def)

lemma wq_init_rep: "wq_rep (wq_init h) []"
  by (simp add: wq_rep_def wq_init_def dlist_def)

lemma wq_push_rep:
  assumes "wq_rep q fds" "fresh_addr q a"
  shows "\<exists>q'. wq_push q a fd = Inr q' \<and> wq_rep q' (fds @ [fd])"
proof -
  obtain as where l: "dlist (wq_heap q) (wq_head q) as" "wq_size q = of_nat (length as)"
    "map (data_of (wq_heap q)) as = fds"
    using assms(1) by (auto simp: wq_rep_def)
  define h where "h = (wq_heap q)(a \<mapsto> \<lparr>client_socket_fd = fd, nxt = 0, prv = 0\<rparr>)"
  have a: "a \<notin> set as" "is_item h a"
    using assms(2) dlist_items [OF l(1), of a] by (auto simp: fresh_addr_def is_item_def h_def)
  have "dlist h (wq_head q) as" using l(1) a(1) by (subst dlist_cong [of as h "wq_heap q"]) (auto simp: h_def)
  then obtain head' h' where r: "DL_APPEND (wq_head q) a h = Inr (head', h')" "dlist h' head' (as @ [a])"
    "only_links (insert a (set as)) h h'"
    using DL_APPEND_ok a unfolding yields_def by blast
  have "map (data_of h') (as @ [a]) = fds @ [fd]"
    using a(1) l(3) only_links_data [OF r(3)] by (auto simp: h_def data_of_def)
  then have "wq_rep (q\<lparr>wq_head := head', wq_heap := h', wq_size := wq_size q + 1\<rparr>) (fds @ [fd])"
    unfolding wq_rep_def using r(2) l(2) by (intro exI [of _ "as @ [a]"]) simp
  moreover have "wq_push q a fd = Inr (q\<lparr>wq_head := head', wq_heap := h', wq_size := wq_size q + 1\<rparr>)"
    using r(1) assms(2) by (simp add: wq_push_def Let_def h_def load_def fresh_addr_def)
  ultimately show ?thesis by blast
qed

text \<open>The counter wraps after \<open>2^32\<close> items.\<close>

lemma wq_size_zero:
  assumes "wq_rep q fds" "length fds < 4294967296"
  shows "wq_size q = 0 \<longleftrightarrow> fds = []"
proof -
  obtain as where as: "wq_size q = of_nat (length as)" "length as = length fds"
    using assms(1) unfolding wq_rep_def by (metis length_map)
  have "unat (wq_size q) = length as"
    using assms(2) as by (simp add: unsigned_of_nat take_bit_nat_eq_self)
  moreover have "wq_size q = 0 \<longleftrightarrow> unat (wq_size q) = 0" by (simp only: unsigned_eq_0_iff)
  ultimately show ?thesis using as(2) by simp
qed

lemma wq_pop_rep:
  assumes "wq_rep q (fd # fds)" "length (fd # fds) < 4294967296"
  shows "\<exists>q'. wq_pop q = Inr (fd, q') \<and> wq_rep q' fds"
proof -
  obtain a as where l: "dlist (wq_heap q) (wq_head q) (a # as)" "wq_size q = of_nat (length (a # as))"
    "data_of (wq_heap q) a = fd" "map (data_of (wq_heap q)) as = fds"
    using assms(1) by (auto simp: wq_rep_def map_eq_Cons_conv)
  obtain head' h' where r: "DL_DELETE a a (wq_heap q) = Inr (head', h')" "dlist h' head' as"
    "only_links (set as) (wq_heap q) h'"
    using DL_DELETE_ok [of "wq_heap q" a "[]" a as] l(1) by (auto simp: yields_def dlist_def)
  have a: "wq_head q = a" "a \<notin> set as" "is_item (wq_heap q) a" using l(1) by (simp_all add: dlist_def)
  define q' where "q' = q\<lparr>wq_size := wq_size q - 1, wq_head := head', wq_heap := h'(a := None)\<rparr>"
  have "dlist (h'(a := None)) head' as" using r(2) a(2) by (subst dlist_cong [of as "h'(a := None)" h']) auto
  moreover have "map (data_of (h'(a := None))) as = fds"
    using a(2) l(4) only_links_data [OF r(3)] by (auto simp: data_of_def fun_eq_iff)
  ultimately have "wq_rep q' fds"
    unfolding wq_rep_def using l(2) by (intro exI [of _ as]) (simp add: q'_def)
  moreover have "wq_pop q = Inr (fd, q')"
    using wq_size_zero [OF assms] r(1) l(3) a by (simp add: wq_pop_def q'_def Let_def links)
  ultimately show ?thesis by blast
qed

lemma wq_pop_empty: "wq_rep q [] \<Longrightarrow> wq_pop q = Inl Blocked"
  by (auto simp: wq_rep_def wq_pop_def)

end
