(* ===== verification/Threads.thy ===== *)
theory Threads
  imports WorkQueue
begin

text \<open>
  The work queue as its users see it.  First the contract of a queue as a locale, with the
  refinement of a list queue it gives, interpreted on the pointer structure of \<open>WorkQueue\<close>.
  Then the threads of the server: \<open>wq_push\<close> and \<open>wq_pop\<close> statement by statement under the
  mutex, with \<open>pthread_cond_wait\<close> and \<open>pthread_cond_signal\<close>, as an inductive step relation.
\<close>

section \<open>The contract\<close>

datatype ('e, 'a) qop = Put 'e 'a | Get

fun spec_run :: "'a list \<Rightarrow> ('e, 'a) qop list \<Rightarrow> ('a list \<times> 'a list) option" where
  "spec_run xs [] = Some ([], xs)"
| "spec_run xs (Put e x # ops) = spec_run (xs @ [x]) ops"
| "spec_run [] (Get # ops) = None"
| "spec_run (x # xs) (Get # ops) = map_option (\<lambda>(out, ys). (x # out, ys)) (spec_run xs ops)"

primrec q_run ::
    "('s \<Rightarrow> 'e \<Rightarrow> 'a \<Rightarrow> 's result) \<Rightarrow> ('s \<Rightarrow> ('a \<times> 's) result) \<Rightarrow> ('e, 'a) qop list \<Rightarrow> 's \<Rightarrow>
     ('a list \<times> 's) result" where
  "q_run put get [] s = Inr ([], s)"
| "q_run put get (op # ops) s =
     (case op of
        Put e x \<Rightarrow> andthen (put s e x) (\<lambda>s. q_run put get ops s)
      | Get \<Rightarrow> andthen (get s) (\<lambda>(x, s).
               andthen (q_run put get ops s) (\<lambda>(out, s). Inr (x # out, s))))"

text \<open>Each allocation returns an address that is free at that moment.\<close>

primrec allocs_ok ::
    "('s \<Rightarrow> 'e \<Rightarrow> 'a \<Rightarrow> 's result) \<Rightarrow> ('s \<Rightarrow> ('a \<times> 's) result) \<Rightarrow> ('s \<Rightarrow> 'e \<Rightarrow> bool) \<Rightarrow>
     ('e, 'a) qop list \<Rightarrow> 's \<Rightarrow> bool" where
  "allocs_ok put get free [] s \<longleftrightarrow> True"
| "allocs_ok put get free (op # ops) s \<longleftrightarrow>
     (case op of
        Put e x \<Rightarrow> free s e \<and> (case put s e x of Inl _ \<Rightarrow> True | Inr s \<Rightarrow> allocs_ok put get free ops s)
      | Get \<Rightarrow> (case get s of Inl _ \<Rightarrow> True | Inr (x, s) \<Rightarrow> allocs_ok put get free ops s))"

locale fifo =
  fixes put :: "'s \<Rightarrow> 'e \<Rightarrow> 'a \<Rightarrow> 's result" and get :: "'s \<Rightarrow> ('a \<times> 's) result"
    and rep :: "'s \<Rightarrow> 'a list \<Rightarrow> bool" and free :: "'s \<Rightarrow> 'e \<Rightarrow> bool" and cap :: nat
  assumes put_rep: "rep s xs \<Longrightarrow> free s e \<Longrightarrow> \<exists>s'. put s e x = Inr s' \<and> rep s' (xs @ [x])"
    and get_rep: "rep s (x # xs) \<Longrightarrow> length (x # xs) < cap \<Longrightarrow> \<exists>s'. get s = Inr (x, s') \<and> rep s' xs"
    and get_empty: "rep s [] \<Longrightarrow> get s = Inl Blocked"
begin

lemma run_refines:
  "rep s xs \<Longrightarrow> allocs_ok put get free ops s \<Longrightarrow> length xs + length ops < cap \<Longrightarrow>
   (case spec_run xs ops of
      None \<Rightarrow> q_run put get ops s = Inl Blocked
    | Some (out, ys) \<Rightarrow> \<exists>s'. q_run put get ops s = Inr (out, s') \<and> rep s' ys)"
proof (induction xs ops arbitrary: s rule: spec_run.induct)
  case (1 xs)
  then show ?case by simp
next
  case (2 xs e x ops)
  have "free s e" using 2(3) by simp
  then obtain s' where s': "put s e x = Inr s'" "rep s' (xs @ [x])" using put_rep [OF 2(2)] by blast
  then show ?case using 2(1) [OF s'(2)] 2(3,4)
    by (auto split: option.splits)
next
  case (3 ops)
  then show ?case using get_empty by simp
next
  case (4 x xs ops)
  have "length (x # xs) < cap" using 4(4) by simp
  then obtain s' where s': "get s = Inr (x, s')" "rep s' xs" using get_rep [OF 4(2)] by blast
  show ?case
  proof (cases "spec_run xs ops")
    case None
    then show ?thesis using 4(1) [OF s'(2)] 4(3,4) s' by simp
  next
    case (Some r)
    obtain out ys where r: "r = (out, ys)" by fastforce
    then obtain s'' where "q_run put get ops s' = Inr (out, s'')" "rep s'' ys"
      using 4(1) [OF s'(2)] 4(3,4) s'(1) Some by auto
    then show ?thesis using Some r s'(1) by simp
  qed
qed

end

interpretation work_queue: fifo wq_push wq_pop wq_rep fresh_addr 4294967296
  using wq_push_rep wq_pop_rep wq_pop_empty by unfold_locales blast+

text \<open>C9. The work queue, with its doubly linked list, implements a list queue: on every sequence of
  calls it returns what the list would, in first-in first-out order, and blocks exactly when
  the list is empty.  No access goes through a stale or NULL pointer.\<close>

theorem work_queue_refines:
  assumes "wq_rep q fds" "allocs_ok wq_push wq_pop fresh_addr ops q"
    "length fds + length ops < 4294967296"
  shows "case spec_run fds ops of
      None \<Rightarrow> q_run wq_push wq_pop ops q = Inl Blocked
    | Some (out, rest) \<Rightarrow> \<exists>q'. q_run wq_push wq_pop ops q = Inr (out, q') \<and> wq_rep q' rest"
  by (rule work_queue.run_refines [OF assms])

theorem work_queue_refines_witness:
  "\<exists>q'. q_run wq_push wq_pop [Put 8 5, Put 16 6, Get, Put 8 7, Get] (wq_init Map.empty) = Inr ([5, 6], q')
     \<and> wq_rep q' [7]"
proof -
  have "allocs_ok wq_push wq_pop fresh_addr [Put 8 5, Put 16 6, Get, Put 8 7, Get] (wq_init Map.empty)"
    by (simp add: wq_init_def fresh_addr_def wq_push_def wq_pop_def DL_APPEND_def DL_DELETE_def
        set_prev_def set_next_def get_next_def get_prev_def Let_def)
  then show ?thesis
    using work_queue_refines [OF wq_init_rep, of "[Put 8 5, Put 16 6, Get, Put 8 7, Get]" Map.empty] by simp
qed


section \<open>The threads\<close>

text \<open>
  Where a thread is.  \<open>Push\<close> states run \<open>wq_push\<close>, \<open>Pop\<close> states \<open>wq_pop\<close>:
  before \<open>pthread_mutex_lock\<close>, inside the critical section, asleep in
  \<open>pthread_cond_wait\<close> (which has released the mutex), before \<open>pthread_mutex_unlock\<close>.
\<close>

datatype pc = Idle | PushLock int | PushIn int | PushUnlock | PopLock | PopIn | PopSleep | PopUnlock int

record sys =
  queue :: wq
  lock :: "nat option"
  pcs :: "nat \<Rightarrow> pc"
  pushed :: "int list"
  popped :: "int list"

definition sleepers :: "sys \<Rightarrow> nat set" where
  "sleepers s = {t. pcs s t = PopSleep}"

definition go :: "nat \<Rightarrow> pc \<Rightarrow> sys \<Rightarrow> sys" where
  "go t p s = s\<lparr>pcs := (pcs s)(t := p)\<rparr>"

text \<open>
  \<open>pushed\<close> and \<open>popped\<close> record the history.  \<open>pthread_cond_signal\<close> wakes one sleeping thread
  if there is one; a thread may also wake up on its own.  A thread that wakes up takes the
  mutex again before it goes on.
\<close>

inductive wq_step :: "sys \<Rightarrow> sys \<Rightarrow> bool" where
  push_call: "pcs s t = Idle \<Longrightarrow> wq_step s (go t (PushLock fd) s)"
| push_lock: "pcs s t = PushLock fd \<Longrightarrow> lock s = None \<Longrightarrow>
    wq_step s (go t (PushIn fd) (s\<lparr>lock := Some t\<rparr>))"
| push_signal: "pcs s t = PushIn fd \<Longrightarrow> fresh_addr (queue s) a \<Longrightarrow> wq_push (queue s) a fd = Inr q \<Longrightarrow>
    u \<in> sleepers s \<Longrightarrow>
    wq_step s (go u PopLock (go t PushUnlock (s\<lparr>queue := q, pushed := pushed s @ [fd]\<rparr>)))"
| push_no_sleeper: "pcs s t = PushIn fd \<Longrightarrow> fresh_addr (queue s) a \<Longrightarrow>
    wq_push (queue s) a fd = Inr q \<Longrightarrow> sleepers s = {} \<Longrightarrow>
    wq_step s (go t PushUnlock (s\<lparr>queue := q, pushed := pushed s @ [fd]\<rparr>))"
| push_unlock: "pcs s t = PushUnlock \<Longrightarrow> wq_step s (go t Idle (s\<lparr>lock := None\<rparr>))"
| pop_call: "pcs s t = Idle \<Longrightarrow> wq_step s (go t PopLock s)"
| pop_lock: "pcs s t = PopLock \<Longrightarrow> lock s = None \<Longrightarrow> wq_step s (go t PopIn (s\<lparr>lock := Some t\<rparr>))"
| pop_wait: "pcs s t = PopIn \<Longrightarrow> wq_size (queue s) = 0 \<Longrightarrow>
    wq_step s (go t PopSleep (s\<lparr>lock := None\<rparr>))"
| wake_up: "pcs s t = PopSleep \<Longrightarrow> wq_step s (go t PopLock s)"
| pop_take: "pcs s t = PopIn \<Longrightarrow> wq_size (queue s) \<noteq> 0 \<Longrightarrow> wq_pop (queue s) = Inr (fd, q) \<Longrightarrow>
    wq_step s (go t (PopUnlock fd) (s\<lparr>queue := q, popped := popped s @ [fd]\<rparr>))"
| pop_unlock: "pcs s t = PopUnlock fd \<Longrightarrow> wq_step s (go t Idle (s\<lparr>lock := None\<rparr>))"

definition initial :: "heap \<Rightarrow> sys" where
  "initial h = \<lparr>queue = wq_init h, lock = None, pcs = (\<lambda>_. Idle), pushed = [], popped = []\<rparr>"

text \<open>States reached with fewer than \<open>2^32 - 1\<close> items in the queue at any time.\<close>

inductive reachable :: "heap \<Rightarrow> sys \<Rightarrow> bool" for h where
  start: "reachable h (initial h)"
| step: "reachable h s \<Longrightarrow> wq_step s s' \<Longrightarrow> length (pushed s') - length (popped s') < 4294967295 \<Longrightarrow>
    reachable h s'"

inductive_cases wq_stepE: "wq_step s s'"


section \<open>The invariant\<close>

definition holds_lock :: "pc \<Rightarrow> bool" where
  "holds_lock p \<longleftrightarrow> (case p of PushIn _ \<Rightarrow> True | PushUnlock \<Rightarrow> True | PopIn \<Rightarrow> True
                       | PopUnlock _ \<Rightarrow> True | _ \<Rightarrow> False)"

text \<open>The threads on their way to look at the queue.\<close>

definition takers :: "sys \<Rightarrow> nat set" where
  "takers s = {t. pcs s t = PopLock \<or> pcs s t = PopIn}"

definition mutex_ok :: "sys \<Rightarrow> bool" where
  "mutex_ok s \<longleftrightarrow> (\<forall>t. holds_lock (pcs s t) \<longleftrightarrow> lock s = Some t)"

definition queue_ok :: "sys \<Rightarrow> int list \<Rightarrow> bool" where
  "queue_ok s xs \<longleftrightarrow> wq_rep (queue s) xs \<and> pushed s = popped s @ xs \<and> length xs < 4294967295"

text \<open>While threads sleep, there are at least as many on their way as there are items.\<close>

definition wakeups_ok :: "sys \<Rightarrow> int list \<Rightarrow> bool" where
  "wakeups_ok s xs \<longleftrightarrow> finite (takers s) \<and> (sleepers s = {} \<or> length xs \<le> card (takers s))"

lemma holds_lock_simps [simp]:
  "holds_lock (PushIn fd)" "holds_lock PushUnlock" "holds_lock PopIn" "holds_lock (PopUnlock fd)"
  "\<not> holds_lock Idle" "\<not> holds_lock (PushLock fd)" "\<not> holds_lock PopLock" "\<not> holds_lock PopSleep"
  by (simp_all add: holds_lock_def)

lemma go_simps [simp]:
  "queue (go t p s) = queue s" "lock (go t p s) = lock s" "pushed (go t p s) = pushed s"
  "popped (go t p s) = popped s" "pcs (go t p s) = (pcs s)(t := p)"
  by (simp_all add: go_def)

lemma takers_go:
  "takers (go t p s) = (if p = PopLock \<or> p = PopIn then insert t (takers s) else takers s - {t})"
  by (auto simp: takers_def go_def)

lemma sleepers_go:
  "sleepers (go t p s) = (if p = PopSleep then insert t (sleepers s) else sleepers s - {t})"
  by (auto simp: sleepers_def go_def)

lemma sets_upd [simp]:
  "takers (s\<lparr>queue := q, pushed := x\<rparr>) = takers s" "sleepers (s\<lparr>queue := q, pushed := x\<rparr>) = sleepers s"
  "takers (s\<lparr>queue := q, popped := y\<rparr>) = takers s" "sleepers (s\<lparr>queue := q, popped := y\<rparr>) = sleepers s"
  "takers (s\<lparr>lock := l\<rparr>) = takers s" "sleepers (s\<lparr>lock := l\<rparr>) = sleepers s"
  by (simp_all add: takers_def sleepers_def)

lemma mutex_keep:
  "mutex_ok s \<Longrightarrow> holds_lock p = holds_lock (pcs s t) \<Longrightarrow> mutex_ok (go t p s)"
  by (auto simp: mutex_ok_def)

lemma mutex_take:
  "mutex_ok s \<Longrightarrow> lock s = None \<Longrightarrow> holds_lock p \<Longrightarrow> mutex_ok (go t p (s\<lparr>lock := Some t\<rparr>))"
  by (simp add: mutex_ok_def)

lemma mutex_release:
  "mutex_ok s \<Longrightarrow> holds_lock (pcs s t) \<Longrightarrow> \<not> holds_lock p \<Longrightarrow> mutex_ok (go t p (s\<lparr>lock := None\<rparr>))"
  by (auto simp: mutex_ok_def)

lemma mutex_queue [simp]:
  "mutex_ok (s\<lparr>queue := q, pushed := x\<rparr>) = mutex_ok s" "mutex_ok (s\<lparr>queue := q, popped := y\<rparr>) = mutex_ok s"
  by (simp_all add: mutex_ok_def)

lemma mutex_step: "wq_step s s' \<Longrightarrow> mutex_ok s \<Longrightarrow> mutex_ok s'"
proof (induction rule: wq_step.induct)
  case (push_signal s t fd a q u)
  then have u: "u \<noteq> t" "pcs s u = PopSleep" by (auto simp: sleepers_def)
  have "mutex_ok (go t PushUnlock (s\<lparr>queue := q, pushed := pushed s @ [fd]\<rparr>))"
    by (rule mutex_keep) (use push_signal in simp_all)
  then show ?case by (rule mutex_keep) (use u in simp_all)
qed (intro mutex_keep mutex_take mutex_release; simp)+

lemma wq_push_ok:
  "wq_rep q fds \<Longrightarrow> fresh_addr q a \<Longrightarrow> wq_push q a fd = Inr q' \<Longrightarrow> wq_rep q' (fds @ [fd])"
  using wq_push_rep [of q fds a fd] by auto

lemma queue_step:
  assumes "wq_step s s'" "queue_ok s xs" "length (pushed s') - length (popped s') < 4294967295"
  obtains (same) "queue_ok s' xs" "queue s' = queue s"
    | (push) t fd where "pcs s t = PushIn fd" "queue_ok s' (xs @ [fd])"
    | (pop) t fd ys where "pcs s t = PopIn" "xs = fd # ys" "queue_ok s' ys"
  using assms(1)
proof (cases rule: wq_step.cases)
  case (push_signal t fd a q u)
  then have "wq_rep q (xs @ [fd])" using wq_push_ok assms(2) unfolding queue_ok_def by blast
  then show thesis using push_signal assms(2,3) push by (auto simp: queue_ok_def)
next
  case (push_no_sleeper t fd a q)
  then have "wq_rep q (xs @ [fd])" using wq_push_ok assms(2) unfolding queue_ok_def by blast
  then show thesis using push_no_sleeper assms(2,3) push by (auto simp: queue_ok_def)
next
  case (pop_take t fd q)
  have xs: "xs \<noteq> []"
    using pop_take(3) assms(2) wq_size_zero [of "queue s" xs] by (auto simp: queue_ok_def)
  then obtain x ys where xs: "xs = x # ys" by (cases xs) auto
  then have "fd = x \<and> wq_rep q ys"
    using wq_pop_rep [of "queue s" x ys] pop_take(4) assms(2) by (auto simp: queue_ok_def)
  then show thesis using pop_take assms(2) xs pop by (auto simp: queue_ok_def)
qed (use assms(2) same in \<open>auto simp: queue_ok_def\<close>)


lemma wakeups_step:
  assumes "wq_step s s'" "queue_ok s xs" "wakeups_ok s xs"
    "queue_ok s' ys" "length (pushed s') = length (pushed s) + n" "length (popped s') = length (popped s) + k"
  shows "wakeups_ok s' ys"
proof -
  have l: "length ys + k = length xs + n" using assms(2,4-6) by (simp add: queue_ok_def)
  have f: "finite (takers s)" using assms(3) by (simp add: wakeups_ok_def)
  note defs = wakeups_ok_def takers_go sleepers_go
  show ?thesis using assms(1)
  proof (cases rule: wq_step.cases)
    case (push_signal t fd a q u)
    then have "u \<notin> takers s" "t \<notin> takers s" "sleepers s \<noteq> {}" "n = 1" "k = 0"
      using assms(5,6) by (auto simp: takers_def sleepers_def)
    then show ?thesis using push_signal assms(3) l f by (auto simp: defs)
  next
    case (pop_wait t)
    have "xs = []" using wq_size_zero [of "queue s" xs] assms(2) pop_wait by (simp add: queue_ok_def)
    then have "ys = []" using l pop_wait assms(5,6) by simp
    then show ?thesis using pop_wait f by (simp add: defs)
  next
    case (pop_take t fd q)
    then have "t \<in> takers s" "n = 0" "k = 1" using assms(5,6) by (auto simp: takers_def)
    then show ?thesis using pop_take assms(3) l f by (auto simp: defs)
  next
    case (wake_up t)
    then have "t \<notin> takers s" "n = 0" "k = 0" using assms(5,6) by (auto simp: takers_def)
    then show ?thesis using wake_up assms(3) l f by (auto simp: defs)
  next
    case (pop_call t)
    then have "t \<notin> takers s" "n = 0" "k = 0" using assms(5,6) by (auto simp: takers_def)
    then show ?thesis using pop_call assms(3) l f by (auto simp: defs)
  next
    case (pop_lock t)
    then have "insert t (takers s) = takers s" "n = 0" "k = 0" using assms(5,6) by (auto simp: takers_def)
    then show ?thesis using pop_lock assms(3) l f by (auto simp: defs)
  next
    case (push_no_sleeper t fd a q)
    then show ?thesis using f by (simp add: defs)
  next
    case (push_call t fd)
    then have "takers s - {t} = takers s" "n = 0" "k = 0" using assms(5,6) by (auto simp: takers_def)
    then show ?thesis using push_call assms(3) l f by (auto simp: defs)
  next
    case (push_lock t fd)
    then have "takers s - {t} = takers s" "n = 0" "k = 0" using assms(5,6) by (auto simp: takers_def)
    then show ?thesis using push_lock assms(3) l f by (auto simp: defs)
  next
    case (push_unlock t)
    then have "takers s - {t} = takers s" "n = 0" "k = 0" using assms(5,6) by (auto simp: takers_def)
    then show ?thesis using push_unlock assms(3) l f by (auto simp: defs)
  next
    case (pop_unlock t fd)
    then have "takers s - {t} = takers s" "n = 0" "k = 0" using assms(5,6) by (auto simp: takers_def)
    then show ?thesis using pop_unlock assms(3) l f by (auto simp: defs)
  qed
qed

lemma history_grows:
  assumes "wq_step s s'"
  obtains n k where "length (pushed s') = length (pushed s) + n" "length (popped s') = length (popped s) + k"
  using assms by (cases rule: wq_step.cases) auto

lemma reachable_inv:
  assumes "reachable h s"
  shows "mutex_ok s \<and> (\<exists>xs. queue_ok s xs \<and> wakeups_ok s xs)"
  using assms
proof induction
  case start
  then show ?case
    using wq_init_rep [of h]
    by (auto simp: initial_def mutex_ok_def queue_ok_def wakeups_ok_def takers_def sleepers_def)
next
  case (step s s')
  then obtain xs where q: "mutex_ok s" "queue_ok s xs" "wakeups_ok s xs" by blast
  obtain ys where ys: "queue_ok s' ys" by (rule queue_step [OF step(2) q(2) step(3)])
  obtain n k where "length (pushed s') = length (pushed s) + n" "length (popped s') = length (popped s) + k"
    by (rule history_grows [OF step(2)])
  then show ?case using mutex_step [OF step(2) q(1)] wakeups_step [OF step(2) q(2,3) ys] ys by blast
qed


section \<open>Properties\<close>

text \<open>C4. However the threads interleave, at most one is inside the critical sections at a time,
  the queue stays intact, and the descriptors popped so far are the first of those pushed, in
  that order: none is lost and none is served twice.\<close>

theorem queue_safe:
  assumes "reachable h s"
  shows "(\<forall>t u. holds_lock (pcs s t) \<and> holds_lock (pcs s u) \<longrightarrow> t = u) \<and>
    (\<exists>xs. wq_rep (queue s) xs \<and> pushed s = popped s @ xs)"
proof -
  obtain xs where "mutex_ok s" "queue_ok s xs" using reachable_inv [OF assms] by blast
  then show ?thesis unfolding mutex_ok_def queue_ok_def by (metis option.inject)
qed

text \<open>C15. No wake-up is lost: while the queue holds an item and some thread sleeps, another thread is
  on its way to the queue.\<close>

theorem no_lost_wakeup:
  assumes "reachable h s" "wq_size (queue s) \<noteq> 0" "sleepers s \<noteq> {}"
  shows "takers s \<noteq> {}"
proof -
  obtain xs where xs: "queue_ok s xs" "wakeups_ok s xs" using reachable_inv [OF assms(1)] by blast
  have "xs \<noteq> []" using wq_size_zero [of "queue s" xs] xs(1) assms(2) by (auto simp: queue_ok_def)
  then have "0 < card (takers s)" using xs(2) assms(3) by (auto simp: wakeups_ok_def)
  then show ?thesis by auto
qed

text \<open>The thread that holds the mutex can always go on: no access to the list faults, and no
  check inside the critical section leaves it stuck.\<close>

theorem holder_proceeds:
  assumes "reachable h s" "lock s = Some t" "fresh_addr (queue s) a"
  shows "\<exists>s'. wq_step s s' \<and> pcs s' t \<noteq> pcs s t"
proof -
  obtain xs where inv: "mutex_ok s" "queue_ok s xs" using reachable_inv [OF assms(1)] by blast
  have h: "holds_lock (pcs s t)" using inv(1) assms(2) by (simp add: mutex_ok_def)
  show ?thesis
  proof (cases "pcs s t")
    case (PushIn fd)
    obtain q where q: "wq_push (queue s) a fd = Inr q"
      using wq_push_rep assms(3) inv(2) unfolding queue_ok_def by blast
    show ?thesis
    proof (cases "sleepers s = {}")
      case True
      then show ?thesis using wq_step.push_no_sleeper [OF PushIn assms(3) q] PushIn by fastforce
    next
      case False
      then obtain u where u: "u \<in> sleepers s" by blast
      then have "u \<noteq> t" using PushIn by (auto simp: sleepers_def)
      then show ?thesis using wq_step.push_signal [OF PushIn assms(3) q u] PushIn by fastforce
    qed
  next
    case PopIn
    show ?thesis
    proof (cases "wq_size (queue s) = 0")
      case True
      then show ?thesis using wq_step.pop_wait [OF PopIn] PopIn by fastforce
    next
      case False
      then obtain fd ys where "xs = fd # ys"
        using wq_size_zero [of "queue s" xs] inv(2) by (cases xs) (auto simp: queue_ok_def)
      then obtain q where "wq_pop (queue s) = Inr (fd, q)"
        using wq_pop_rep [of "queue s" fd ys] inv(2) by (auto simp: queue_ok_def)
      then show ?thesis using wq_step.pop_take [OF PopIn False] PopIn by fastforce
    qed
  next
    case PushUnlock
    then show ?thesis using wq_step.push_unlock [OF PushUnlock] by fastforce
  next
    case (PopUnlock fd)
    then show ?thesis using wq_step.pop_unlock [OF PopUnlock] by fastforce
  qed (use h in simp_all)
qed


section \<open>Instances\<close>

text \<open>Threads 1 and 2 find the queue empty and sleep; thread 3 pushes and wakes thread 1.\<close>

lemma reach_sleep:
  assumes "reachable h s" "pcs s t = Idle" "lock s = None" "wq_size (queue s) = 0"
    "length (pushed s) - length (popped s) < 4294967295"
  shows "\<exists>s'. reachable h s' \<and> pcs s' = (pcs s)(t := PopSleep) \<and> lock s' = None \<and> queue s' = queue s \<and>
    pushed s' = pushed s \<and> popped s' = popped s"
proof -
  define s1 where "s1 = go t PopLock s"
  have 1: "reachable h s1"
    by (rule reachable.step [OF assms(1)]) (use assms in \<open>simp_all add: s1_def wq_step.pop_call\<close>)
  define s2 where "s2 = go t PopIn (s1\<lparr>lock := Some t\<rparr>)"
  have 2: "reachable h s2"
    by (rule reachable.step [OF 1]) (use assms in \<open>simp_all add: s2_def s1_def wq_step.pop_lock\<close>)
  define s3 where "s3 = go t PopSleep (s2\<lparr>lock := None\<rparr>)"
  have "reachable h s3"
    by (rule reachable.step [OF 2]) (use assms in \<open>simp_all add: s3_def s2_def s1_def wq_step.pop_wait\<close>)
  then show ?thesis by (intro exI [of _ s3]) (simp add: s3_def s2_def s1_def)
qed

lemma reach_push:
  assumes "reachable h s" "pcs s t = Idle" "lock s = None" "fresh_addr (queue s) a" "u \<in> sleepers s"
    "wq_push (queue s) a fd = Inr q" "length (pushed s) + 1 - length (popped s) < 4294967295"
  shows "\<exists>s'. reachable h s' \<and> pcs s' = (pcs s)(t := PushUnlock, u := PopLock) \<and> lock s' = Some t \<and>
    queue s' = q \<and> pushed s' = pushed s @ [fd] \<and> popped s' = popped s"
proof -
  have u: "u \<noteq> t" "pcs s u = PopSleep" using assms(2,5) by (auto simp: sleepers_def)
  define s1 where "s1 = go t (PushLock fd) s"
  have 1: "reachable h s1"
    by (rule reachable.step [OF assms(1)]) (use assms in \<open>simp_all add: s1_def wq_step.push_call\<close>)
  define s2 where "s2 = go t (PushIn fd) (s1\<lparr>lock := Some t\<rparr>)"
  have 2: "reachable h s2"
    by (rule reachable.step [OF 1]) (use assms in \<open>simp_all add: s2_def s1_def wq_step.push_lock\<close>)
  have p: "pcs s2 t = PushIn fd" "queue s2 = queue s" "u \<in> sleepers s2"
    using u by (simp_all add: s2_def s1_def sleepers_def)
  define s3 where "s3 = go u PopLock (go t PushUnlock (s2\<lparr>queue := q, pushed := pushed s2 @ [fd]\<rparr>))"
  have "wq_step s2 s3"
    unfolding s3_def using p assms by (intro wq_step.push_signal [where a = a]) simp_all
  then have "reachable h s3"
    by (rule reachable.step [OF 2]) (use assms in \<open>simp add: s3_def s2_def s1_def\<close>)
  then show ?thesis using u by (intro exI [of _ s3]) (simp add: s3_def s2_def s1_def)
qed

lemma sample_run:
  "\<exists>s. reachable Map.empty s \<and> lock s = Some 3 \<and> 2 \<in> sleepers s \<and> wq_rep (queue s) [7] \<and>
     pushed s = [7] \<and> popped s = [] \<and> fresh_addr (queue s) 16"
proof -
  obtain s1 where 1: "reachable Map.empty s1" "pcs s1 = (\<lambda>_. Idle)(1 := PopSleep)" "lock s1 = None"
    "queue s1 = wq_init Map.empty" "pushed s1 = []" "popped s1 = []"
    using reach_sleep [OF reachable.start, of Map.empty 1] by (auto simp: initial_def wq_init_def)
  obtain s2 where 2: "reachable Map.empty s2" "pcs s2 = (pcs s1)(2 := PopSleep)" "lock s2 = None"
    "queue s2 = wq_init Map.empty" "pushed s2 = []" "popped s2 = []"
    using reach_sleep [OF 1(1), of 2] 1 by (auto simp: wq_init_def)
  have f: "fresh_addr (queue s2) 8" by (simp add: 2 wq_init_def fresh_addr_def)
  obtain q where q: "wq_push (queue s2) 8 7 = Inr q" "wq_rep q [7]"
    using wq_push_rep [OF wq_init_rep f [unfolded 2]] 2 by auto
  have "fresh_addr q 16"
    using q(1) 2 by (auto simp: wq_init_def fresh_addr_def wq_push_def DL_APPEND_def set_prev_def
        set_next_def get_next_def get_prev_def Let_def)
  moreover have "1 \<in> sleepers s2" "pcs s2 3 = Idle" by (simp_all add: 2 1 sleepers_def)
  then obtain s3 where "reachable Map.empty s3" "pcs s3 = (pcs s2)(3 := PushUnlock, 1 := PopLock)"
    "lock s3 = Some 3" "queue s3 = q" "pushed s3 = [7]" "popped s3 = []"
    using reach_push [OF 2(1) _ 2(3) f _ q(1), of 3 1] 2 by auto
  ultimately show ?thesis
    using q(2) 2 by (intro exI [of _ s3]) (simp add: sleepers_def)
qed

theorem queue_safe_witness:
  "\<exists>s. reachable Map.empty s \<and> pushed s = [7] \<and> (\<exists>xs. wq_rep (queue s) xs \<and> [7] = popped s @ xs)"
  using sample_run queue_safe by metis

theorem no_lost_wakeup_witness:
  "\<exists>s. reachable Map.empty s \<and> 2 \<in> sleepers s \<and> takers s \<noteq> {}"
proof -
  obtain s where s: "reachable Map.empty s" "2 \<in> sleepers s" "wq_rep (queue s) [7]"
    using sample_run by blast
  have "wq_size (queue s) \<noteq> 0" using wq_size_zero [OF s(3)] by simp
  then show ?thesis using no_lost_wakeup [OF s(1)] s by blast
qed

theorem holder_proceeds_witness:
  "\<exists>s s'. reachable Map.empty s \<and> wq_step s s' \<and> pcs s' 3 \<noteq> pcs s 3"
proof -
  obtain s where s: "reachable Map.empty s" "lock s = Some 3" "fresh_addr (queue s) 16"
    using sample_run by blast
  then show ?thesis using holder_proceeds [OF s] by blast
qed

end
