(* ===== verification/Alloc.thy ===== *)
theory Alloc
  imports Prelude
begin

text \<open>
  The memory allocator \<open>malloc-master/mm_alloc.c\<close>: a first-fit allocator over \<open>sbrk\<close> whose
  blocks form a doubly linked list, each block behind a \<open>metadata\<close> struct of 24 bytes.

  Memory is a map from addresses to bytes, and the structs live in it, so a stale or
  overwritten struct reads as whatever its bytes are.  A pointer is a number, NULL is 0, and
  \<open>(void *)-1\<close> is None.  \<open>grant b n\<close> says whether the kernel moves the break from \<open>b\<close> by
  \<open>n\<close>; nothing else moves it.  An access outside of the heap is a fault.  Sizes are \<open>size_t\<close>,
  numbers below \<open>2 ^ 64\<close>, and \<open>add64\<close> is their sum.
\<close>

section \<open>Memory\<close>

record mem =
  startOfMem :: "nat option"
  brk :: nat
  bytes :: "nat \<Rightarrow> char"

definition rd :: "(nat \<Rightarrow> char) \<Rightarrow> nat \<Rightarrow> nat \<Rightarrow> string" where
  "rd m a n = map m [a..<a + n]"

definition wr :: "(nat \<Rightarrow> char) \<Rightarrow> nat \<Rightarrow> string \<Rightarrow> nat \<Rightarrow> char" where
  "wr m a bs x = (if a \<le> x \<and> x < a + length bs then bs ! (x - a) else m x)"

definition enc64 :: "nat \<Rightarrow> string" where
  "enc64 n = enc32 (of_nat n) @ enc32 (of_nat (n div 4294967296))"

definition dec64 :: "string \<Rightarrow> nat" where
  "dec64 b = unat (dec32 b) + 4294967296 * unat (dec32 (drop 4 b))"

definition in_heap :: "mem \<Rightarrow> nat \<Rightarrow> nat \<Rightarrow> bool" where
  "in_heap s a n \<longleftrightarrow>
     startOfMem s \<noteq> None \<and> the (startOfMem s) \<le> a \<and> a + n \<le> brk s"

definition add64 :: "nat \<Rightarrow> nat \<Rightarrow> nat" where
  "add64 a b = (a + b) mod 18446744073709551616"

text \<open>The increment is signed, so that an \<open>n\<close> from \<open>2 ^ 63\<close> on moves the break back.\<close>

definition sbrk :: "(nat \<Rightarrow> nat \<Rightarrow> bool) \<Rightarrow> nat \<Rightarrow> mem \<Rightarrow> nat option \<times> mem" where
  "sbrk grant n s = (if grant (brk s) n then (Some (brk s), s\<lparr>brk := add64 (brk s) n\<rparr>) else (None, s))"

definition memset0 :: "nat \<Rightarrow> nat \<Rightarrow> mem \<Rightarrow> mem result" where
  "memset0 a n s =
     (if in_heap s a n then Inr (s\<lparr>bytes := wr (bytes s) a (replicate n NUL)\<rparr>) else Inl Overrun)"


section \<open>struct metadata\<close>

record metadata =
  m_prev :: nat
  m_next :: nat
  m_free :: int32
  m_size :: nat

definition sizeof_metadata :: nat where "sizeof_metadata = 24"

definition md :: "mem \<Rightarrow> nat \<Rightarrow> metadata" where
  "md s a = \<lparr>m_prev = dec64 (rd (bytes s) a 8), m_next = dec64 (rd (bytes s) (a + 8) 8),
             m_free = dec32 (rd (bytes s) (a + 16) 4), m_size = unat (dec32 (rd (bytes s) (a + 20) 4))\<rparr>"

definition deref :: "mem \<Rightarrow> nat \<Rightarrow> metadata result" where
  "deref s a = (if a = 0 then Inl NullDeref
                else if in_heap s a sizeof_metadata then Inr (md s a) else Inl Overrun)"

definition store :: "nat \<Rightarrow> nat \<Rightarrow> string \<Rightarrow> mem \<Rightarrow> mem result" where
  "store off a bs s =
     andthen (deref s a) (\<lambda>_. Inr (s\<lparr>bytes := wr (bytes s) (a + off) bs\<rparr>))"

definition set_m_prev :: "nat \<Rightarrow> nat \<Rightarrow> mem \<Rightarrow> mem result" where
  "set_m_prev a v = store 0 a (enc64 v)"
definition set_m_next :: "nat \<Rightarrow> nat \<Rightarrow> mem \<Rightarrow> mem result" where
  "set_m_next a v = store 8 a (enc64 v)"
definition set_m_free :: "nat \<Rightarrow> int32 \<Rightarrow> mem \<Rightarrow> mem result" where
  "set_m_free a v = store 16 a (enc32 v)"
text \<open>The size field is an \<open>unsigned int\<close>.\<close>
definition set_m_size :: "nat \<Rightarrow> nat \<Rightarrow> mem \<Rightarrow> mem result" where
  "set_m_size a v = store 20 a (enc32 (of_nat v))"


section \<open>mm\_malloc\<close>

text \<open>The first call.\<close>

definition malloc_first :: "(nat \<Rightarrow> nat \<Rightarrow> bool) \<Rightarrow> nat \<Rightarrow> mem \<Rightarrow> (nat \<times> mem) result" where
  "malloc_first grant sz s =
     (case sbrk grant (add64 sz sizeof_metadata) s of
        (None, s) \<Rightarrow> Inr (0, s)
      | (Some addr, s) \<Rightarrow>
          let s = s\<lparr>startOfMem := Some addr\<rparr> in
          andthen (set_m_prev addr 0 s) (\<lambda>s.
          andthen (set_m_next addr 0 s) (\<lambda>s.
          andthen (set_m_free addr 0 s) (\<lambda>s.
          andthen (set_m_size addr sz s) (\<lambda>s.
          andthen (memset0 (addr + sizeof_metadata) sz s) (\<lambda>s.
          Inr (addr + sizeof_metadata, s)))))))"

text \<open>The last block is free: it grows, or what is left over becomes a free block.\<close>

definition malloc_last :: "(nat \<Rightarrow> nat \<Rightarrow> bool) \<Rightarrow> nat \<Rightarrow> nat \<Rightarrow> mem \<Rightarrow> (nat \<times> mem) result" where
  "malloc_last grant curMet sz s =
     andthen (deref s curMet) (\<lambda>c.
     let finish = (\<lambda>s.
           andthen (set_m_size curMet sz s) (\<lambda>s.
           andthen (set_m_free curMet 0 s) (\<lambda>s.
           andthen (memset0 (curMet + sizeof_metadata) sz s) (\<lambda>s.
           Inr (curMet + sizeof_metadata, s))))) in
     if m_size c < sz then
       (case sbrk grant (sz - m_size c) s of
          (None, s) \<Rightarrow> Inr (0, s)
        | (Some addedAddr, s) \<Rightarrow> finish s)
     else if m_size c \<ge> add64 sz sizeof_metadata then
       let nextOfCur = curMet + sizeof_metadata + sz in
       andthen (set_m_next curMet nextOfCur s) (\<lambda>s.
       andthen (set_m_prev nextOfCur curMet s) (\<lambda>s.
       andthen (deref s curMet) (\<lambda>c.
       andthen (set_m_size nextOfCur (m_size c - sz - sizeof_metadata) s) (\<lambda>s.
       andthen (set_m_next nextOfCur 0 s) (\<lambda>s.
       andthen (set_m_free nextOfCur 1 s) (\<lambda>s. finish s))))))
     else finish s)"

text \<open>
  A free block in the middle that is large enough; a rest that has room for a struct is
  split off.  The difference of pointers is compared as a \<open>size_t\<close>.
\<close>

definition malloc_fit :: "nat \<Rightarrow> nat \<Rightarrow> mem \<Rightarrow> (nat \<times> mem) result" where
  "malloc_fit curMet sz s =
     andthen (set_m_free curMet 0 s) (\<lambda>s.
     andthen (set_m_size curMet sz s) (\<lambda>s.
     andthen (memset0 (curMet + sizeof_metadata) sz s) (\<lambda>s.
     andthen (deref s curMet) (\<lambda>c.
     if (int (m_next c) - int curMet - int sizeof_metadata) mod 18446744073709551616
          \<ge> int (add64 sz sizeof_metadata) then
       let addedMeta = curMet + sizeof_metadata + sz; nextOfCur = m_next c in
       andthen (set_m_next curMet addedMeta s) (\<lambda>s.
       andthen (set_m_prev addedMeta curMet s) (\<lambda>s.
       andthen (set_m_next addedMeta nextOfCur s) (\<lambda>s.
       andthen (if nextOfCur \<noteq> 0 then set_m_prev nextOfCur addedMeta s else Inr s) (\<lambda>s.
       andthen (set_m_free addedMeta 1 s) (\<lambda>s.
       andthen (deref s addedMeta) (\<lambda>d.
       andthen (set_m_size addedMeta
                  (nat ((int (m_next d) - int addedMeta - int sizeof_metadata) mod 4294967296)) s) (\<lambda>s.
       Inr (curMet + sizeof_metadata, s))))))))
     else Inr (curMet + sizeof_metadata, s)))))"

text \<open>No free block is large enough.\<close>

definition malloc_grow :: "(nat \<Rightarrow> nat \<Rightarrow> bool) \<Rightarrow> nat \<Rightarrow> nat \<Rightarrow> mem \<Rightarrow> (nat \<times> mem) result" where
  "malloc_grow grant lastMet sz s =
     (case sbrk grant (add64 sz sizeof_metadata) s of
        (None, s) \<Rightarrow> Inr (0, s)
      | (Some addedMet, s) \<Rightarrow>
          andthen (set_m_prev addedMet lastMet s) (\<lambda>s.
          andthen (set_m_next lastMet addedMet s) (\<lambda>s.
          andthen (set_m_next addedMet 0 s) (\<lambda>s.
          andthen (set_m_free addedMet 0 s) (\<lambda>s.
          andthen (set_m_size addedMet sz s) (\<lambda>s.
          andthen (memset0 (addedMet + sizeof_metadata) sz s) (\<lambda>s.
          Inr (addedMet + sizeof_metadata, s))))))))"

text \<open>The walk over the list; on a well-formed heap a step per block and one more are enough fuel.\<close>

primrec malloc_walk ::
    "(nat \<Rightarrow> nat \<Rightarrow> bool) \<Rightarrow> nat \<Rightarrow> nat \<Rightarrow> nat \<Rightarrow> nat \<Rightarrow> mem \<Rightarrow> (nat \<times> mem) result" where
  "malloc_walk grant 0 lastMet curMet sz s = Inl OutOfFuel"
| "malloc_walk grant (Suc fuel) lastMet curMet sz s =
     (if curMet \<noteq> 0 then
        andthen (deref s curMet) (\<lambda>c.
        if m_free c \<noteq> 0 \<and> m_next c = 0 then malloc_last grant curMet sz s
        else if m_free c \<noteq> 0 \<and> m_size c \<ge> sz then malloc_fit curMet sz s
        else malloc_walk grant fuel curMet (m_next c) sz s)
      else malloc_grow grant lastMet sz s)"

definition mm_malloc :: "(nat \<Rightarrow> nat \<Rightarrow> bool) \<Rightarrow> nat \<Rightarrow> nat \<Rightarrow> mem \<Rightarrow> (nat \<times> mem) result" where
  "mm_malloc grant fuel sz s =
     (if sz = 0 then Inr (0, s)
      else case startOfMem s of
        None \<Rightarrow> malloc_first grant sz s
      | Some base \<Rightarrow> malloc_walk grant fuel 0 base sz s)"


section \<open>mm\_free and mm\_realloc\<close>

text \<open>The size fields are added as 32-bit numbers: \<open>set_m_size\<close> reduces the sum.\<close>

definition merge_prev :: "nat \<Rightarrow> mem \<Rightarrow> (nat \<times> mem) result" where
  "merge_prev deletingAddr s =
     andthen (deref s deletingAddr) (\<lambda>d.
     if m_prev d \<noteq> 0 then
       andthen (deref s (m_prev d)) (\<lambda>p.
       if m_free p \<noteq> 0 then
         andthen (set_m_size (m_prev d) (m_size p + (m_size d + sizeof_metadata)) s) (\<lambda>s.
         andthen (deref s deletingAddr) (\<lambda>d.
         andthen (set_m_next (m_prev d) (m_next d) s) (\<lambda>s.
         andthen (deref s deletingAddr) (\<lambda>d.
         Inr (m_prev d, s)))))
       else Inr (deletingAddr, s))
     else Inr (deletingAddr, s))"

definition merge_next :: "nat \<Rightarrow> mem \<Rightarrow> mem result" where
  "merge_next deletingAddr s =
     andthen (deref s deletingAddr) (\<lambda>d.
     if m_next d \<noteq> 0 then
       let justNext = m_next d in
       andthen (deref s justNext) (\<lambda>n.
       if m_free n \<noteq> 0 then
         andthen (set_m_size deletingAddr (m_size d + (m_size n + sizeof_metadata)) s) (\<lambda>s.
         andthen (deref s justNext) (\<lambda>n.
         let nextOfNext = m_next n in
         andthen (set_m_next deletingAddr nextOfNext s) (\<lambda>s.
         if nextOfNext \<noteq> 0 then set_m_prev nextOfNext deletingAddr s else Inr s)))
       else Inr s)
     else Inr s)"

definition mm_free :: "nat \<Rightarrow> mem \<Rightarrow> mem result" where
  "mm_free ptr s =
     (if ptr = 0 then Inr s
      else
        andthen (merge_prev (ptr - sizeof_metadata) s) (\<lambda>(deletingAddr, s).
        andthen (merge_next deletingAddr s) (\<lambda>s.
        set_m_free deletingAddr 1 s)))"

text \<open>\<open>memcpy\<close>; where source and destination overlap C promises nothing, and this copies.\<close>

definition copy_bytes :: "nat \<Rightarrow> nat \<Rightarrow> nat \<Rightarrow> mem \<Rightarrow> mem result" where
  "copy_bytes dest src n s =
     (if in_heap s dest n \<and> in_heap s src n
      then Inr (s\<lparr>bytes := wr (bytes s) dest (rd (bytes s) src n)\<rparr>) else Inl Overrun)"

definition mm_realloc ::
    "(nat \<Rightarrow> nat \<Rightarrow> bool) \<Rightarrow> nat \<Rightarrow> nat \<Rightarrow> nat \<Rightarrow> mem \<Rightarrow> (nat \<times> mem) result" where
  "mm_realloc grant fuel ptr sz s =
     (if sz = 0 then andthen (mm_free ptr s) (\<lambda>s. Inr (0, s))
      else if ptr = 0 then mm_malloc grant fuel sz s
      else
        andthen (deref s (ptr - sizeof_metadata)) (\<lambda>d.
        let oldSize = m_size d in
        andthen (mm_free ptr s) (\<lambda>s.
        andthen (mm_malloc grant fuel sz s) (\<lambda>(dest, s).
        if dest \<noteq> 0 then
          andthen (copy_bytes dest ptr oldSize s) (\<lambda>s. Inr (dest, s))
        else Inr (0, s)))))"

end
