(* ===== verification/AllocHeap.thy ===== *)
theory AllocHeap
  imports Alloc
begin

text \<open>
  Reasoning about the allocator's memory: what a field store does to every struct, and the
  well-formed heap as a list of blocks.
\<close>

section \<open>Reads after writes\<close>

lemma rd_wr_same [simp]: "n = length bs \<Longrightarrow> rd (wr m a bs) a n = bs"
  by (rule nth_equalityI) (simp_all add: rd_def wr_def)

lemma rd_wr_disjoint [simp]:
  "a + length bs \<le> b \<or> b + n \<le> a \<Longrightarrow> rd (wr m a bs) b n = rd m b n"
  by (auto simp: rd_def wr_def)

lemma length_enc64 [simp]: "length (enc64 n) = 8"
  by (simp add: enc64_def)

lemma dec64_enc64 [simp]:
  assumes "n < 18446744073709551616"
  shows "dec64 (enc64 n) = n"
proof -
  have d: "n div 4294967296 < 4294967296" using assms by simp
  have "unat (of_nat n :: int32) = n mod 4294967296"
    by (simp add: unsigned_of_nat take_bit_eq_mod)
  moreover have "unat (of_nat (n div 4294967296) :: int32) = n div 4294967296"
    using d by (simp add: unsigned_of_nat take_bit_nat_eq_self)
  ultimately show ?thesis by (simp add: dec64_def enc64_def)
qed

lemma unat32 [simp]: "n < 4294967296 \<Longrightarrow> unat (of_nat n :: int32) = n"
  by (simp add: unsigned_of_nat take_bit_nat_eq_self)


section \<open>Field stores\<close>

text \<open>The states after a store, for addresses inside the heap.\<close>

definition up_prev :: "nat \<Rightarrow> nat \<Rightarrow> mem \<Rightarrow> mem" where
  "up_prev a v s = s\<lparr>bytes := wr (bytes s) a (enc64 v)\<rparr>"
definition up_next :: "nat \<Rightarrow> nat \<Rightarrow> mem \<Rightarrow> mem" where
  "up_next a v s = s\<lparr>bytes := wr (bytes s) (a + 8) (enc64 v)\<rparr>"
definition up_free :: "nat \<Rightarrow> int32 \<Rightarrow> mem \<Rightarrow> mem" where
  "up_free a v s = s\<lparr>bytes := wr (bytes s) (a + 16) (enc32 v)\<rparr>"
definition up_size :: "nat \<Rightarrow> nat \<Rightarrow> mem \<Rightarrow> mem" where
  "up_size a v s = s\<lparr>bytes := wr (bytes s) (a + 20) (enc32 (of_nat v))\<rparr>"
definition up_zero :: "nat \<Rightarrow> nat \<Rightarrow> mem \<Rightarrow> mem" where
  "up_zero a n s = s\<lparr>bytes := wr (bytes s) a (replicate n NUL)\<rparr>"

lemmas up_defs = up_prev_def up_next_def up_free_def up_size_def up_zero_def

abbreviation here :: "mem \<Rightarrow> nat \<Rightarrow> bool" where
  "here s a \<equiv> a \<noteq> 0 \<and> in_heap s a 24"

lemma deref_here [simp]: "here s a \<Longrightarrow> deref s a = Inr (md s a)"
  by (simp add: deref_def sizeof_metadata_def)

lemma set_here [simp]:
  "here s a \<Longrightarrow> set_m_prev a v s = Inr (up_prev a v s)"
  "here s a \<Longrightarrow> set_m_next a v s = Inr (up_next a v s)"
  "here s a \<Longrightarrow> set_m_free a w s = Inr (up_free a w s)"
  "here s a \<Longrightarrow> set_m_size a v s = Inr (up_size a v s)"
  by (simp_all add: set_m_prev_def set_m_next_def set_m_free_def set_m_size_def store_def up_defs)

lemma memset0_here [simp]: "in_heap s a n \<Longrightarrow> memset0 a n s = Inr (up_zero a n s)"
  by (simp add: memset0_def up_zero_def)

lemma up_frame [simp]:
  "brk (up_prev a v s) = brk s" "brk (up_next a v s) = brk s" "brk (up_free a w s) = brk s"
  "brk (up_size a v s) = brk s" "brk (up_zero a v s) = brk s"
  "startOfMem (up_prev a v s) = startOfMem s" "startOfMem (up_next a v s) = startOfMem s"
  "startOfMem (up_free a w s) = startOfMem s" "startOfMem (up_size a v s) = startOfMem s"
  "startOfMem (up_zero a v s) = startOfMem s"
  by (simp_all add: up_defs)

lemma in_heap_up [simp]:
  "in_heap (up_prev a v s) = in_heap s" "in_heap (up_next a v s) = in_heap s"
  "in_heap (up_free a w s) = in_heap s" "in_heap (up_size a v s) = in_heap s"
  "in_heap (up_zero a v s) = in_heap s"
  by (simp_all add: in_heap_def fun_eq_iff)

text \<open>The struct itself, and every struct that does not overlap it.\<close>

lemma md_up_same [simp]:
  "v < 18446744073709551616 \<Longrightarrow> md (up_prev a v s) a = (md s a)\<lparr>m_prev := v\<rparr>"
  "v < 18446744073709551616 \<Longrightarrow> md (up_next a v s) a = (md s a)\<lparr>m_next := v\<rparr>"
  "md (up_free a w s) a = (md s a)\<lparr>m_free := w\<rparr>"
  "v < 4294967296 \<Longrightarrow> md (up_size a v s) a = (md s a)\<lparr>m_size := v\<rparr>"
  by (simp_all add: md_def up_defs)

definition apart :: "nat \<Rightarrow> nat \<Rightarrow> bool" where
  "apart a b \<longleftrightarrow> a + 24 \<le> b \<or> b + 24 \<le> a"

lemma md_up_apart [simp]:
  assumes "apart a b"
  shows "md (up_prev a v s) b = md s b" "md (up_next a v s) b = md s b"
    "md (up_free a w s) b = md s b" "md (up_size a v s) b = md s b"
  using assms by (auto simp: md_def up_defs apart_def)

lemma md_up_zero [simp]:
  "a + n \<le> b \<or> b + 24 \<le> a \<Longrightarrow> md (up_zero a n s) b = md s b"
  by (auto simp: md_def up_defs)

lemma md_brk [simp]: "md (s\<lparr>brk := x\<rparr>) a = md s a" "md (s\<lparr>startOfMem := y\<rparr>) a = md s a"
  by (simp_all add: md_def)

lemma bytes_up [simp]:
  "x < a \<or> a + 24 \<le> x \<Longrightarrow> bytes (up_prev a v s) x = bytes s x"
  "x < a \<or> a + 24 \<le> x \<Longrightarrow> bytes (up_next a v s) x = bytes s x"
  "x < a \<or> a + 24 \<le> x \<Longrightarrow> bytes (up_free a w s) x = bytes s x"
  "x < a \<or> a + 24 \<le> x \<Longrightarrow> bytes (up_size a v s) x = bytes s x"
  "bytes (up_zero b n s) x = (if b \<le> x \<and> x < b + n then NUL else bytes s x)"
  by (auto simp: up_defs wr_def)


section \<open>Well-formed heaps\<close>

text \<open>A block: the address of its struct, its size, whether it is free.\<close>

type_synonym block = "nat \<times> nat \<times> bool"

text \<open>
  The blocks from \<open>a\<close> on lead, by their \<open>next\<close> pointers, to \<open>z\<close>; they follow one another in
  memory and end before \<open>lim\<close>.
\<close>

fun seg :: "mem \<Rightarrow> nat \<Rightarrow> block list \<Rightarrow> nat \<Rightarrow> nat \<Rightarrow> bool" where
  "seg s a [] z lim \<longleftrightarrow> a = z"
| "seg s a ((b, n, f) # bs) z lim \<longleftrightarrow>
     a = b \<and> b \<noteq> 0 \<and> m_size (md s b) = n \<and> (m_free (md s b) \<noteq> 0) = f \<and>
     b + 24 + n \<le> (case bs of [] \<Rightarrow> lim | c # _ \<Rightarrow> fst c) \<and>
     seg s (m_next (md s b)) bs z lim"

text \<open>The \<open>prev\<close> pointers, the first of which is \<open>p\<close>.\<close>

fun prevs :: "mem \<Rightarrow> nat \<Rightarrow> block list \<Rightarrow> bool" where
  "prevs s p [] \<longleftrightarrow> True"
| "prevs s p ((b, n, f) # bs) \<longleftrightarrow> m_prev (md s b) = p \<and> prevs s b bs"

text \<open>The heap is smaller than 4 GB, so that its sizes fit the size field.\<close>

definition heap_ok :: "mem \<Rightarrow> block list \<Rightarrow> bool" where
  "heap_ok s bs \<longleftrightarrow>
     (case startOfMem s of
        None \<Rightarrow> bs = []
      | Some base \<Rightarrow> bs \<noteq> [] \<and> 0 < base \<and> brk s < base + 4294967296 \<and>
          brk s < 9223372036854775808 \<and> seg s base bs 0 (brk s))"

abbreviation last_addr :: "nat \<Rightarrow> block list \<Rightarrow> nat" where
  "last_addr p bs \<equiv> (if bs = [] then p else fst (last bs))"

abbreviation next_addr :: "block list \<Rightarrow> nat \<Rightarrow> nat" where
  "next_addr bs z \<equiv> (case bs of [] \<Rightarrow> z | c # _ \<Rightarrow> fst c)"

lemma seg_append:
  "seg s a (xs @ ys) z lim \<longleftrightarrow>
     seg s a xs (if ys = [] then z else fst (hd ys)) (if ys = [] then lim else fst (hd ys)) \<and>
     (ys \<noteq> [] \<longrightarrow> seg s (fst (hd ys)) ys z lim)"
proof (induction xs arbitrary: a)
  case Nil
  then show ?case by (cases ys) auto
next
  case (Cons x xs)
  obtain b n f where x: "x = (b, n, f)" by (cases x) auto
  have "(case xs @ ys of [] \<Rightarrow> lim | c # _ \<Rightarrow> fst c) =
      (case xs of [] \<Rightarrow> (if ys = [] then lim else fst (hd ys)) | c # _ \<Rightarrow> fst c)"
    by (cases xs; cases ys) simp_all
  then show ?case using Cons.IH [of "m_next (md s b)"] by (simp add: x)
qed

lemma prevs_append: "prevs s p (xs @ ys) \<longleftrightarrow> prevs s p xs \<and> prevs s (last_addr p xs) ys"
  by (induction s p xs rule: prevs.induct) auto

text \<open>All blocks lie between the first address and the limit.\<close>

lemma seg_all:
  "seg s a xs z lim \<Longrightarrow> \<forall>x \<in> set xs. a \<le> fst x \<and> fst x + 24 + fst (snd x) \<le> lim"
proof (induction xs arbitrary: a)
  case Nil
  then show ?case by simp
next
  case (Cons x bs)
  obtain c m g where x: "x = (c, m, g)" by (cases x) auto
  have ac: "a = c" using Cons.prems by (simp add: x)
  show ?case
  proof (cases bs)
    case Nil
    then show ?thesis using Cons.prems ac by (simp add: x)
  next
    case (Cons d ds)
    have s: "seg s (m_next (md s c)) bs z lim" "c + 24 + m \<le> fst d" "m_next (md s c) = fst d"
      using Cons.prems \<open>bs = d # ds\<close> by (simp_all add: x, cases d, simp)
    note IH = Cons.IH [OF s(1)]
    then have "fst d + 24 + fst (snd d) \<le> lim" using Cons by simp
    then have "c + 24 + m \<le> lim" using s(2) by simp
    moreover have "c \<le> fst y" if "y \<in> set bs" for y
      using IH that s(2,3) by fastforce
    ultimately show ?thesis using IH ac by (simp add: x)
  qed
qed

definition same_fields :: "metadata \<Rightarrow> metadata \<Rightarrow> bool" where
  "same_fields d e \<longleftrightarrow> m_next d = m_next e \<and> m_free d = m_free e \<and> m_size d = m_size e"

lemma same_fields_simps [simp]:
  "same_fields d d" "same_fields (d\<lparr>m_prev := v\<rparr>) d"
  by (simp_all add: same_fields_def)

lemma seg_frame:
  assumes "seg s a xs z lim" "\<forall>x \<in> set xs. same_fields (md s' (fst x)) (md s (fst x))" "lim \<le> lim'"
  shows "seg s' a xs z lim'"
  using assms
proof (induction s a xs z lim rule: seg.induct)
  case (1 s a z lim)
  then show ?case by simp
next
  case (2 s a c m g bs z lim)
  have "same_fields (md s' c) (md s c)" using 2(3) by simp
  moreover have "seg s' (m_next (md s c)) bs z lim'" using 2 by auto
  ultimately show ?case using 2(2,4) by (cases bs) (auto simp: same_fields_def)
qed

lemma prevs_cong:
  "\<forall>x \<in> set xs. m_prev (md s' (fst x)) = m_prev (md s (fst x)) \<Longrightarrow> prevs s' p xs = prevs s p xs"
  by (induction s p xs rule: prevs.induct) simp_all

end
