(* ===== verification/AllocMalloc.thy ===== *)
theory AllocMalloc
  imports AllocHeap
begin

text \<open>
  \<open>mm_malloc\<close> on well-formed heaps: a first-fit allocator on lists of blocks, and the lemmas
  that each of the four ways in which the walk ends implements it.
\<close>

section \<open>First fit on lists of blocks\<close>

text \<open>
  The blocks after a request of \<open>sz\<close> bytes that succeeds, and the address of the one it gets;
  \<open>lim\<close> is the break.
\<close>

fun alloc_blocks :: "nat \<Rightarrow> nat \<Rightarrow> block list \<Rightarrow> block list \<times> nat" where
  "alloc_blocks sz lim [] = ([(lim, sz, False)], lim)"
| "alloc_blocks sz lim ((b, n, f) # bs) =
     (if f \<and> bs = [] then
        ((b, sz, False) # (if n \<ge> sz + 24 then [(b + 24 + sz, n - sz - 24, True)] else []), b)
      else if f \<and> n \<ge> sz then
        (let nx = fst (hd bs) in
         ((b, sz, False) #
            (if nx - b - 24 \<ge> sz + 24 then [(b + 24 + sz, nx - (b + 24 + sz) - 24, True)] else []) @ bs, b))
      else (let (r, a) = alloc_blocks sz lim bs in ((b, n, f) # r, a)))"

text \<open>How far the break has to move.\<close>

fun need :: "nat \<Rightarrow> block list \<Rightarrow> nat" where
  "need sz [] = sz + 24"
| "need sz ((b, n, f) # bs) =
     (if f \<and> bs = [] then sz - n else if f \<and> n \<ge> sz then 0 else need sz bs)"

text \<open>The user data of the blocks in use.\<close>

definition kept :: "mem \<Rightarrow> mem \<Rightarrow> block list \<Rightarrow> bool" where
  "kept s s' bs \<longleftrightarrow> (\<forall>(b, n, f) \<in> set bs. \<not> f \<longrightarrow> rd (bytes s') (b + 24) n = rd (bytes s) (b + 24) n)"

definition grant_ok :: "(nat \<Rightarrow> nat \<Rightarrow> bool) \<Rightarrow> mem \<Rightarrow> bool" where
  "grant_ok grant s \<longleftrightarrow>
     (\<forall>n. grant (brk s) n \<longrightarrow> 0 < brk s \<and>
        brk s + n < (case startOfMem s of None \<Rightarrow> brk s | Some base \<Rightarrow> base) + 4294967296 \<and>
        brk s + n < 9223372036854775808)"

text \<open>The promise: what a request leads to when the blocks of \<open>s\<close> are \<open>bs\<close>.\<close>

definition malloc_spec ::
    "(nat \<Rightarrow> nat \<Rightarrow> bool) \<Rightarrow> nat \<Rightarrow> mem \<Rightarrow> block list \<Rightarrow> (nat \<times> mem) result \<Rightarrow> bool" where
  "malloc_spec grant sz s bs out \<longleftrightarrow>
     (if need sz bs \<noteq> 0 \<and> \<not> grant (brk s) (need sz bs) then out = Inr (0, s)
      else \<exists>s'. let (bs', a) = alloc_blocks sz (brk s) bs in
        out = Inr (a + 24, s') \<and> heap_ok s' bs' \<and> brk s' = brk s + need sz bs \<and>
        rd (bytes s') (a + 24) sz = replicate sz NUL \<and> kept s s' bs \<and>
        (prevs s 0 bs \<longrightarrow> prevs s' 0 bs'))"

lemma add64_id [simp]: "a + b < 18446744073709551616 \<Longrightarrow> add64 a b = a + b"
  by (simp add: add64_def)

lemma keptI:
  assumes "\<And>b n x. (b, n, False) \<in> set bs \<Longrightarrow> b + 24 \<le> x \<Longrightarrow> x < b + 24 + n \<Longrightarrow> bytes s' x = bytes s x"
  shows "kept s s' bs"
  using assms by (force simp: kept_def rd_def)

text \<open>A block with its neighbours: \<open>xs\<close> end before it, \<open>ys\<close> start after it.\<close>

lemma heap_split:
  assumes "heap_ok s (xs @ (b, n, f) # ys)"
  obtains base where "startOfMem s = Some base" "0 < base" "base \<le> b" "brk s < base + 4294967296"
    "brk s < 9223372036854775808"
    "seg s base xs b b" "b \<noteq> 0" "m_size (md s b) = n" "(m_free (md s b) \<noteq> 0) = f"
    "m_next (md s b) = next_addr ys 0" "b + 24 + n \<le> next_addr ys (brk s)"
    "seg s (next_addr ys 0) ys 0 (brk s)" "b + 24 + n \<le> brk s"
    "\<forall>x \<in> set xs. base \<le> fst x \<and> fst x + 24 + fst (snd x) \<le> b"
    "\<forall>x \<in> set ys. b + 24 + n \<le> fst x \<and> fst x + 24 + fst (snd x) \<le> brk s"
proof -
  obtain base where base: "startOfMem s = Some base" "0 < base" "brk s < base + 4294967296"
    "brk s < 9223372036854775808" "seg s base (xs @ (b, n, f) # ys) 0 (brk s)"
    using assms by (auto simp: heap_ok_def split: option.splits)
  then have s: "seg s base xs b b" "seg s b ((b, n, f) # ys) 0 (brk s)" by (simp_all add: seg_append)
  then have nx: "seg s (m_next (md s b)) ys 0 (brk s)" "b + 24 + n \<le> next_addr ys (brk s)" by simp_all
  have e: "m_next (md s b) = next_addr ys 0" using nx(1) by (cases ys) auto
  note x = seg_all [OF s(1)]
  have "base \<le> b" using s(1) x by (cases xs) fastforce+
  moreover have y: "\<forall>x \<in> set ys. b + 24 + n \<le> fst x \<and> fst x + 24 + fst (snd x) \<le> brk s"
    using seg_all [OF nx(1)] nx(2) e by (cases ys) auto
  moreover have "b + 24 + n \<le> brk s" using nx(2) y by (cases ys) fastforce+
  ultimately show thesis using that base s nx e x by simp
qed

text \<open>
  A block, with some that follow it, gives way to the blocks \<open>mid\<close>; the structs of the others
  stay as they are.
\<close>

lemma heap_replaces:
  assumes heap: "heap_ok s (xs @ (b, n, f) # old @ ys)" and "mid \<noteq> []"
    and "startOfMem s' = startOfMem s" "brk s \<le> brk s'"
    and "brk s' < the (startOfMem s) + 4294967296" "brk s' < 9223372036854775808"
    and mx: "\<forall>x \<in> set xs. md s' (fst x) = md s (fst x)"
    and my: "\<forall>x \<in> set ys. same_fields (md s' (fst x)) (md s (fst x))"
    and mid: "seg s' b mid (next_addr ys 0) (next_addr ys (brk s'))"
  shows "heap_ok s' (xs @ mid @ ys)"
proof -
  obtain base where base: "startOfMem s = Some base" "0 < base" and sx: "seg s base xs b b"
    by (rule heap_split [OF heap]) auto
  have "seg s base ((xs @ (b, n, f) # old) @ ys) 0 (brk s)"
    using heap base by (simp add: heap_ok_def)
  then have sy: "seg s (next_addr ys 0) ys 0 (brk s)" by (cases ys) (auto simp: seg_append)
  have "seg s' base xs b b" by (rule seg_frame [OF sx]) (use mx in auto)
  moreover have "seg s' (next_addr ys 0) ys 0 (brk s')" by (rule seg_frame [OF sy]) (use my assms(4) in auto)
  then have "seg s' b (mid @ ys) 0 (brk s')"
    using mid by (cases ys) (simp_all add: seg_append)
  moreover have "fst (hd mid) = b" using mid \<open>mid \<noteq> []\<close> by (cases mid) auto
  ultimately show ?thesis
    using assms base by (simp add: heap_ok_def seg_append)
qed

lemmas heap_replace = heap_replaces [where old = "[]", simplified]

lemma prevs_replace:
  assumes "prevs s 0 (xs @ (b, n, f) # ys)"
    and mx: "\<forall>x \<in> set xs. md s' (fst x) = md s (fst x)"
    and "prevs s' (m_prev (md s b)) mid" "mid \<noteq> []"
    and "ys \<noteq> [] \<Longrightarrow> m_prev (md s' (fst (hd ys))) = fst (last mid)"
    and my: "\<forall>x \<in> set (tl ys). md s' (fst x) = md s (fst x)"
  shows "prevs s' 0 (xs @ mid @ ys)"
proof -
  have x: "prevs s' 0 xs" "m_prev (md s b) = last_addr 0 xs"
    using assms(1) prevs_cong [of xs s' s] mx by (simp_all add: prevs_append)
  moreover have "prevs s' (fst (last mid)) ys"
  proof (cases ys)
    case (Cons y zs)
    then have "prevs s (fst y) zs" using assms(1) by (cases y) (simp add: prevs_append)
    then show ?thesis using Cons assms(5) my prevs_cong [of zs s' s] by (cases y) simp
  qed simp
  ultimately show ?thesis using assms(3,4) by (simp add: prevs_append)
qed

lemma rd_zero:
  "(\<And>x. a \<le> x \<Longrightarrow> x < a + n \<Longrightarrow> bytes s x = NUL) \<Longrightarrow> rd (bytes s) a n = replicate n NUL"
  by (rule nth_equalityI) (simp_all add: rd_def)

lemma in_heap_between: "startOfMem s = Some base \<Longrightarrow> base \<le> a \<Longrightarrow> a + n \<le> brk s \<Longrightarrow> in_heap s a n"
  by (simp add: in_heap_def)

text \<open>Stores inside the block at \<open>b\<close>, its struct included, leave the data of the others.\<close>

lemma kept_around:
  assumes "heap_ok s (xs @ (b, n, True) # ys)"
    "\<And>x. x < b \<or> (ys \<noteq> [] \<and> next_addr ys 0 + 24 \<le> x) \<Longrightarrow> bytes s' x = bytes s x"
  shows "kept s s' (xs @ (b, n, True) # ys)"
proof -
  obtain base where b: "\<forall>x \<in> set xs. base \<le> fst x \<and> fst x + 24 + fst (snd x) \<le> b"
    "seg s (next_addr ys 0) ys 0 (brk s)"
    by (rule heap_split [OF assms(1)])
  have y: "\<forall>x \<in> set ys. next_addr ys 0 \<le> fst x" using seg_all [OF b(2)] by simp
  show ?thesis
  proof (rule keptI)
    fix c m x assume *: "(c, m, False) \<in> set (xs @ (b, n, True) # ys)" "c + 24 \<le> x" "x < c + 24 + m"
    then consider "(c, m, False) \<in> set xs" | "(c, m, False) \<in> set ys" by auto
    then show "bytes s' x = bytes s x"
    proof cases
      case 1
      then have "x < b" using b(1) * by fastforce
      then show ?thesis using assms(2) by simp
    next
      case 2
      then have "ys \<noteq> []" "next_addr ys 0 + 24 \<le> x" using y * by fastforce+
      then show ?thesis using assms(2) by simp
    qed
  qed
qed


lemma ptr_diff:
  assumes "a + 24 \<le> z" "z < 18446744073709551616"
  shows "(int z - int a - 24) mod 18446744073709551616 = int (z - a - 24)"
proof -
  have "int z - int a - 24 = int (z - a - 24)" using assms(1) by simp
  then show ?thesis using assms(2) by simp
qed

lemma size_diff:
  assumes "a + 24 \<le> z" "z - a - 24 < 4294967296"
  shows "nat ((int z - int a - 24) mod 4294967296) = z - a - 24"
proof -
  have "int z - int a - 24 = int (z - a - 24)" using assms(1) by simp
  then show ?thesis using assms(2) by simp
qed


section \<open>The four ways the walk ends\<close>

definition fitted ::
    "mem \<Rightarrow> block list \<Rightarrow> nat \<Rightarrow> nat \<Rightarrow> nat \<Rightarrow> block list \<Rightarrow> block list \<Rightarrow> (nat \<times> mem) result \<Rightarrow> bool" where
  "fitted s xs b n sz rest ys r \<longleftrightarrow>
     (\<exists>s'. r = Inr (b + 24, s') \<and> heap_ok s' (xs @ (b, sz, False) # rest @ ys) \<and>
       brk s' = brk s \<and> rd (bytes s') (b + 24) sz = replicate sz NUL \<and> kept s s' (xs @ (b, n, True) # ys) \<and>
       (prevs s 0 (xs @ (b, n, True) # ys) \<longrightarrow> prevs s' 0 (xs @ (b, sz, False) # rest @ ys)))"

text \<open>A free block becomes a block in use of size \<open>sz\<close>, filled with zeros.\<close>

definition claim :: "nat \<Rightarrow> nat \<Rightarrow> mem \<Rightarrow> mem" where
  "claim b sz s = up_zero (b + 24) sz (up_free b 0 (up_size b sz s))"

lemma claim_simps [simp]:
  "brk (claim b sz s) = brk s" "startOfMem (claim b sz s) = startOfMem s"
  "in_heap (claim b sz s) = in_heap s"
  "sz < 4294967296 \<Longrightarrow> md (claim b sz s) b = (md s b)\<lparr>m_free := 0, m_size := sz\<rparr>"
  "c + 24 \<le> b \<or> b + 24 + sz \<le> c \<Longrightarrow> md (claim b sz s) c = md s c"
  "rd (bytes (claim b sz s)) (b + 24) sz = replicate sz NUL"
  "x < b \<or> b + 24 + sz \<le> x \<Longrightarrow> bytes (claim b sz s) x = bytes s x"
  "b + 24 \<le> x \<Longrightarrow> x < b + 24 + sz \<Longrightarrow> bytes (claim b sz s) x = NUL"
  by (auto simp: claim_def apart_def intro!: rd_zero)

lemma claim_swap: "up_zero (b + 24) sz (up_size b sz (up_free b 0 s)) = claim b sz s"
  by (auto simp: claim_def up_defs wr_def fun_eq_iff intro!: arg_cong [of _ _ "\<lambda>m. s\<lparr>bytes := m\<rparr>"])

lemma claim_run:
  assumes "here s b" "in_heap s (b + 24) sz" "sz < 4294967296"
  shows "andthen (set_m_free b 0 s) (\<lambda>s. andthen (set_m_size b sz s) (\<lambda>s. andthen (memset0 (b + 24) sz s) (\<lambda>s.
       andthen (deref s b) (\<lambda>c. k c s)))) = k ((md s b)\<lparr>m_free := 0, m_size := sz\<rparr>) (claim b sz s)"
  using assms by (simp add: claim_swap)

text \<open>
  The block at \<open>b\<close> has a neighbour at \<open>nx\<close>; \<open>malloc_fit\<close> looks at the distance to it.
\<close>

lemma malloc_fit_start:
  assumes heap: "heap_ok s (xs @ (b, n, True) # ys)" and ys: "ys \<noteq> []" and sz: "sz \<le> n"
  obtains base nx m g zs where "startOfMem s = Some base" "0 < base" "base \<le> b" "brk s < base + 4294967296"
    "brk s < 9223372036854775808" "b \<noteq> 0" "m_next (md s b) = nx" "b + 24 + n \<le> nx" "nx + 24 \<le> brk s"
    "ys = (nx, m, g) # zs" "\<forall>x \<in> set xs. fst x + 24 \<le> b" "\<forall>x \<in> set zs. nx + 24 \<le> fst x" "sz < 4294967296"
    "here s b" "here s nx" "in_heap s (b + 24) sz"
    "int (add64 sz 24) \<le> (int nx - int b - 24) mod 18446744073709551616 \<longleftrightarrow> sz + 24 \<le> nx - b - 24"
proof -
  obtain base where base: "startOfMem s = Some base" "0 < base" "base \<le> b" "brk s < base + 4294967296"
    "brk s < 9223372036854775808" and cur: "b \<noteq> 0" "m_next (md s b) = next_addr ys 0" "b + 24 + n \<le> next_addr ys (brk s)"
    and bx: "\<forall>x \<in> set xs. base \<le> fst x \<and> fst x + 24 + fst (snd x) \<le> b"
    by (rule heap_split [OF heap]) auto
  obtain nx m g zs where yz: "ys = (nx, m, g) # zs" using ys by (cases ys) auto
  have nx: "m_next (md s b) = nx" "b + 24 + n \<le> nx" using cur by (simp_all add: yz)
  have "heap_ok s ((xs @ [(b, n, True)]) @ (nx, m, g) # zs)" using heap yz by simp
  then have nx24: "nx + 24 \<le> brk s" and bz: "\<forall>x \<in> set zs. nx + 24 \<le> fst x"
    by (rule heap_split; fastforce)+
  have h: "in_heap s b 24" "in_heap s (b + 24) sz" "in_heap s nx 24"
    using base nx nx24 sz by (auto intro!: in_heap_between [OF base(1)])
  have small: "sz < 4294967296" using sz nx nx24 base by simp
  have "(int nx - int b - 24) mod 18446744073709551616 = int (nx - b - 24)"
    by (rule ptr_diff) (use nx nx24 base in auto)
  moreover have "add64 sz 24 = sz + 24" using sz nx nx24 base by simp
  ultimately have d: "int (add64 sz 24) \<le> (int nx - int b - 24) mod 18446744073709551616 \<longleftrightarrow> sz + 24 \<le> nx - b - 24"
    by linarith
  show thesis by (rule that [OF base cur(1) nx nx24 yz _ bz small _ _ h(2) d]) (use bx h cur(1) nx in auto)
qed

lemma malloc_fit_whole:
  assumes heap: "heap_ok s (xs @ (b, n, True) # ys)" and ys: "ys \<noteq> []" and sz: "sz \<le> n"
  assumes small: "\<not> fst (hd ys) - b - 24 \<ge> sz + 24"
  shows "fitted s xs b n sz [] ys (malloc_fit b sz s)"
proof -
  obtain base nx m g zs where base: "startOfMem s = Some base" "brk s < base + 4294967296" "brk s < 9223372036854775808"
    and b: "b \<noteq> 0" "m_next (md s b) = nx" "b + 24 + n \<le> nx" and yz: "ys = (nx, m, g) # zs"
    and bx: "\<forall>x \<in> set xs. fst x + 24 \<le> b" and bz: "\<forall>x \<in> set zs. nx + 24 \<le> fst x" and s32: "sz < 4294967296"
    and h: "here s b" "in_heap s (b + 24) sz"
    and d: "int (add64 sz 24) \<le> (int nx - int b - 24) mod 18446744073709551616 \<longleftrightarrow> sz + 24 \<le> nx - b - 24"
    by (rule malloc_fit_start [OF heap ys sz]) auto
  have m: "\<forall>x \<in> set xs. md (claim b sz s) (fst x) = md s (fst x)" "\<forall>x \<in> set ys. md (claim b sz s) (fst x) = md s (fst x)"
    using bx bz b sz by (auto simp: yz)
  have "malloc_fit b sz s = Inr (b + 24, claim b sz s)"
    unfolding malloc_fit_def sizeof_metadata_def claim_run [OF h s32] using small by (simp add: b(2) d yz)
  moreover have "heap_ok (claim b sz s) (xs @ [(b, sz, False)] @ ys)"
    by (rule heap_replace [OF heap]) (use m base b sz s32 in \<open>simp_all add: yz\<close>)
  moreover have "kept s (claim b sz s) (xs @ (b, n, True) # ys)"
    by (rule kept_around [OF heap]) (use sz b in \<open>auto simp: yz\<close>)
  moreover have "prevs (claim b sz s) 0 (xs @ [(b, sz, False)] @ ys)" if p: "prevs s 0 (xs @ (b, n, True) # ys)"
    by (rule prevs_replace [OF p]) (use m p s32 in \<open>simp_all add: yz prevs_append\<close>)
  ultimately show ?thesis by (auto simp: fitted_def)
qed

text \<open>The stores that split the rest of the block off, as a block at \<open>a\<close> between \<open>b\<close> and \<open>nx\<close>.\<close>

definition split_off :: "nat \<Rightarrow> nat \<Rightarrow> nat \<Rightarrow> mem \<Rightarrow> mem" where
  "split_off b a nx s =
     up_size a (nx - a - 24) (up_free a 1 (up_prev nx a (up_next a nx (up_prev a b (up_next b a s)))))"

lemma split_off_simps:
  assumes "apart b a" "apart b nx" "a + 24 \<le> nx" "nx < 18446744073709551616" "b < 18446744073709551616" "nx - a - 24 < 4294967296"
  shows "brk (split_off b a nx s) = brk s" "startOfMem (split_off b a nx s) = startOfMem s"
    "md (split_off b a nx s) b = (md s b)\<lparr>m_next := a\<rparr>"
    "md (split_off b a nx s) a = \<lparr>m_prev = b, m_next = nx, m_free = 1, m_size = nx - a - 24\<rparr>"
    "md (split_off b a nx s) nx = (md s nx)\<lparr>m_prev := a\<rparr>"
    "apart b c \<Longrightarrow> apart a c \<Longrightarrow> apart nx c \<Longrightarrow> md (split_off b a nx s) c = md s c"
    "x < b \<or> nx + 24 \<le> x \<Longrightarrow> b \<le> a \<Longrightarrow> bytes (split_off b a nx s) x = bytes s x"
    "b + 24 \<le> x \<Longrightarrow> x < a \<Longrightarrow> bytes (split_off b a nx s) x = bytes s x"
  using assms by (auto simp: split_off_def apart_def)

lemma split_off_run:
  assumes "here s b" "here s a" "here s nx" "apart b a" "apart b nx" "a + 24 \<le> nx" "nx < 18446744073709551616"
    "b < 18446744073709551616" "nx - a - 24 < 4294967296"
  shows "andthen (set_m_next b a s) (\<lambda>s. andthen (set_m_prev a b s) (\<lambda>s.
      andthen (set_m_next a nx s) (\<lambda>s. andthen (if nx \<noteq> 0 then set_m_prev nx a s else Inr s) (\<lambda>s.
      andthen (set_m_free a 1 s) (\<lambda>s. andthen (deref s a) (\<lambda>d.
      andthen (set_m_size a (nat ((int (m_next d) - int a - 24) mod 4294967296)) s) (\<lambda>s. Inr (r, s)))))))) =
    Inr (r, split_off b a nx s)"
proof -
  define s2 where "s2 = up_free a 1 (up_prev nx a (up_next a nx (up_prev a b (up_next b a s))))"
  have a: "apart a b" "apart a nx" "apart nx a" using assms by (auto simp: apart_def)
  then have n: "m_next (md s2 a) = nx" using assms by (simp add: s2_def)
  have "here s2 a" using assms by (simp add: s2_def)
  then show ?thesis using assms size_diff [OF assms(6,9)] n
    by (simp add: split_off_def flip: s2_def)
qed

lemma malloc_fit_split:
  assumes heap: "heap_ok s (xs @ (b, n, True) # ys)" and ys: "ys \<noteq> []" and sz: "sz \<le> n"
  assumes large: "fst (hd ys) - b - 24 \<ge> sz + 24"
  shows "fitted s xs b n sz [(b + 24 + sz, fst (hd ys) - (b + 24 + sz) - 24, True)] ys (malloc_fit b sz s)"
proof -
  obtain base nx m g zs where base: "startOfMem s = Some base" "0 < base" "base \<le> b" "brk s < base + 4294967296"
      "brk s < 9223372036854775808"
    and b: "b \<noteq> 0" "m_next (md s b) = nx" "b + 24 + n \<le> nx" "nx + 24 \<le> brk s" and yz: "ys = (nx, m, g) # zs"
    and bx: "\<forall>x \<in> set xs. fst x + 24 \<le> b" and bz: "\<forall>x \<in> set zs. nx + 24 \<le> fst x" and s32: "sz < 4294967296"
    and h: "here s b" "here s nx" "in_heap s (b + 24) sz"
    and d: "int (add64 sz 24) \<le> (int nx - int b - 24) mod 18446744073709551616 \<longleftrightarrow> sz + 24 \<le> nx - b - 24"
    by (rule malloc_fit_start [OF heap ys sz]) auto
  define a where "a = b + 24 + sz"
  define t where "t = split_off b a nx (claim b sz s)"
  have ab: "apart b a" "apart b nx" "a + 24 \<le> nx" "nx < 18446744073709551616" "b < 18446744073709551616"
    "nx - a - 24 < 4294967296"
    using large b base by (auto simp: a_def yz apart_def)
  have ah: "here s a" using ab b base by (auto intro!: in_heap_between [OF base(1)] simp: a_def)
  note t = split_off_simps [OF ab, where s = "claim b sz s", folded t_def]
  have "malloc_fit b sz s = Inr (b + 24, t)"
    unfolding malloc_fit_def sizeof_metadata_def claim_run [OF h(1,3) s32]
    using large split_off_run [where s = "claim b sz s" and r = "b + 24", OF _ _ _ ab] h ah
    by (simp add: b(2) d yz Let_def t_def flip: a_def)
  moreover have mx: "\<forall>x \<in> set xs. md t (fst x) = md s (fst x)" and mz: "\<forall>x \<in> set zs. md t (fst x) = md s (fst x)"
    using bx bz ab b by (auto simp: t apart_def a_def)
  moreover have "heap_ok t (xs @ [(b, sz, False), (a, nx - a - 24, True)] @ ys)"
    by (rule heap_replace [OF heap]) (use mx mz base ab b s32 in \<open>simp_all add: t yz\<close>, simp_all add: a_def)
  moreover have "kept s t (xs @ (b, n, True) # ys)"
    by (rule kept_around [OF heap]) (use sz ab b in \<open>auto simp: t a_def yz\<close>)
  moreover have "rd (bytes t) (b + 24) sz = replicate sz NUL"
    by (rule rd_zero) (simp add: t a_def)
  moreover have "prevs t 0 (xs @ [(b, sz, False), (a, nx - a - 24, True)] @ ys)"
    if p: "prevs s 0 (xs @ (b, n, True) # ys)"
    by (rule prevs_replace [OF p]) (use mx mz s32 in \<open>simp_all add: t yz\<close>)
  ultimately show ?thesis by (auto simp: fitted_def a_def yz t)
qed

lemma malloc_fit_ok:
  assumes heap: "heap_ok s (xs @ (b, n, True) # ys)" and ys: "ys \<noteq> []" and sz: "sz \<le> n"
  defines "nx \<equiv> fst (hd ys)"
  defines "rest \<equiv> (if nx - b - 24 \<ge> sz + 24 then [(b + 24 + sz, nx - (b + 24 + sz) - 24, True)] else [])"
  shows "\<exists>s'. malloc_fit b sz s = Inr (b + 24, s') \<and> heap_ok s' (xs @ (b, sz, False) # rest @ ys) \<and>
    brk s' = brk s \<and> rd (bytes s') (b + 24) sz = replicate sz NUL \<and> kept s s' (xs @ (b, n, True) # ys) \<and>
    (prevs s 0 (xs @ (b, n, True) # ys) \<longrightarrow> prevs s' 0 (xs @ (b, sz, False) # rest @ ys))"
  using malloc_fit_whole [OF heap ys sz] malloc_fit_split [OF heap ys sz]
  unfolding rest_def nx_def fitted_def by simp

text \<open>The last block is claimed in a state that has room and, otherwise, the structs of \<open>s\<close>.\<close>

lemma claimed:
  assumes heap: "heap_ok s (xs @ [(b, n, True)])"
    and t: "startOfMem t = startOfMem s" "brk s \<le> brk t" "brk t < the (startOfMem s) + 4294967296"
      "brk t < 9223372036854775808"
      "\<And>x. x < b \<Longrightarrow> bytes t x = bytes s x" "m_prev (md t b) = m_prev (md s b)"
      "\<And>c. c + 24 \<le> b \<Longrightarrow> md t c = md s c"
    and r: "b + 24 + sz \<le> next_addr r (brk t)" "seg (claim b sz t) (m_next (md t b)) r 0 (brk t)"
      "prevs (claim b sz t) b r" and sz: "sz < 4294967296"
  shows "heap_ok (claim b sz t) (xs @ (b, sz, False) # r) \<and> kept s (claim b sz t) (xs @ [(b, n, True)]) \<and>
    (prevs s 0 (xs @ [(b, n, True)]) \<longrightarrow> prevs (claim b sz t) 0 (xs @ (b, sz, False) # r))"
proof -
  obtain base where base: "b \<noteq> 0"
    and bx: "\<forall>x \<in> set xs. base \<le> fst x \<and> fst x + 24 + fst (snd x) \<le> b"
    by (rule heap_split [OF heap]) auto
  have mx: "\<forall>x \<in> set xs. md (claim b sz t) (fst x) = md s (fst x)" using bx t(7) by auto
  have "heap_ok (claim b sz t) (xs @ ((b, sz, False) # r) @ [])"
    by (rule heap_replace [OF heap]) (use mx base t r sz in simp_all)
  moreover have "prevs (claim b sz t) 0 (xs @ ((b, sz, False) # r) @ [])"
    if p: "prevs s 0 (xs @ [(b, n, True)])"
    by (rule prevs_replace [OF p]) (use mx t r sz p in simp_all)
  moreover have "kept s (claim b sz t) (xs @ [(b, n, True)])"
    by (rule kept_around [OF heap]) (use t in simp)
  ultimately show ?thesis by simp
qed

lemma malloc_last_ok:
  fixes sz n b
  assumes heap: "heap_ok s (xs @ [(b, n, True)])" and g: "grant_ok grant s"
  defines "rest \<equiv> (if n \<ge> sz + 24 then [(b + 24 + sz, n - sz - 24, True)] else [])"
  shows "if sz - n \<noteq> 0 \<and> \<not> grant (brk s) (sz - n) then malloc_last grant b sz s = Inr (0, s)
    else \<exists>s'. malloc_last grant b sz s = Inr (b + 24, s') \<and> heap_ok s' (xs @ (b, sz, False) # rest) \<and>
      brk s' = brk s + (sz - n) \<and> rd (bytes s') (b + 24) sz = replicate sz NUL \<and>
      kept s s' (xs @ [(b, n, True)]) \<and>
      (prevs s 0 (xs @ [(b, n, True)]) \<longrightarrow> prevs s' 0 (xs @ (b, sz, False) # rest))"
proof -
  obtain base where base: "startOfMem s = Some base" "0 < base" "base \<le> b" "brk s < base + 4294967296"
    "brk s < 9223372036854775808"
    and cur: "b \<noteq> 0" "m_size (md s b) = n" "m_free (md s b) \<noteq> 0" "m_next (md s b) = 0" "b + 24 + n \<le> brk s"
    by (rule heap_split [OF heap]) auto
  have h: "in_heap s b 24" using base cur by (auto intro!: in_heap_between [OF base(1)])
  note run = malloc_last_def sizeof_metadata_def Let_def
  note claimed = claimed [OF heap]
  consider "n < sz" "\<not> grant (brk s) (sz - n)" | "n < sz" "grant (brk s) (sz - n)"
    | "sz \<le> n" "n < sz + 24" | "sz + 24 \<le> n" by linarith
  then show ?thesis
  proof cases
    case 1
    then show ?thesis using h cur by (simp add: run sbrk_def)
  next
    case 2
    then have b2: "brk s + (sz - n) < base + 4294967296" "brk s + (sz - n) < 9223372036854775808"
      using g base by (auto simp: grant_ok_def)
    define t where "t = s\<lparr>brk := brk s + sz - n\<rparr>"
    have "in_heap t b 24" "in_heap t (b + 24) sz" using 2 cur base by (auto simp: t_def in_heap_def)
    then have "malloc_last grant b sz s = Inr (b + 24, claim b sz t)"
      using 2 h cur b2 by (simp add: run sbrk_def claim_def flip: t_def)
    moreover note claimed [of t sz "[]"]
    moreover have "sz < 4294967296" using b2 cur base 2 by linarith
    ultimately show ?thesis using 2 b2 base cur by (simp add: t_def rest_def)
  next
    case 3
    have "in_heap s (b + 24) sz" using 3 cur base by (auto simp: in_heap_def)
    moreover have "sz < 4294967296" using 3 cur base by linarith
    ultimately have "malloc_last grant b sz s = Inr (b + 24, claim b sz s)"
      using 3 h cur by (simp add: run claim_def)
    moreover note claimed [of s sz "[]"]
    ultimately show ?thesis using 3 base cur \<open>sz < 4294967296\<close> by (simp add: rest_def)
  next
    case 4
    define a where "a = b + 24 + sz"
    have a: "apart b a" "apart a b" "a \<noteq> 0" "b \<noteq> 0" using cur by (auto simp: a_def apart_def)
    have big: "a < 18446744073709551616" "b < 18446744073709551616" "sz < 4294967296" "n - sz - 24 < 4294967296"
      using 4 base cur by (auto simp: a_def)
    have ah: "in_heap s a 24" "in_heap s (b + 24) sz" using 4 base cur by (auto simp: in_heap_def a_def)
    define t where "t = up_free a 1 (up_next a 0 (up_size a (n - sz - 24) (up_prev a b (up_next b a s))))"
    have "malloc_last grant b sz s = Inr (b + 24, claim b sz t)"
      using 4 h cur ah a big by (simp add: run claim_def t_def flip: a_def)
    moreover have "md t a = \<lparr>m_prev = b, m_next = 0, m_free = 1, m_size = n - sz - 24\<rparr>" "m_next (md t b) = a"
      "m_prev (md t b) = m_prev (md s b)" "startOfMem t = startOfMem s" "brk t = brk s"
      using a big by (simp_all add: t_def)
    moreover have "bytes t x = bytes s x" if "x < b" for x using that by (simp add: t_def a_def)
    moreover have "md t c = md s c" if "c + 24 \<le> b" for c
      using that by (simp add: t_def a_def apart_def)
    moreover note claimed [of t sz "[(a, n - sz - 24, True)]"]
    ultimately show ?thesis using 4 base cur a big by (simp add: rest_def a_def)
  qed
qed

lemma malloc_grow_ok:
  assumes heap: "heap_ok s bs" and bs: "bs \<noteq> []" and g: "grant_ok grant s" and sz: "sz < 9223372036854775808"
  shows "if \<not> grant (brk s) (sz + 24) then malloc_grow grant (fst (last bs)) sz s = Inr (0, s)
    else \<exists>s'. malloc_grow grant (fst (last bs)) sz s = Inr (brk s + 24, s') \<and>
      heap_ok s' (bs @ [(brk s, sz, False)]) \<and> brk s' = brk s + (sz + 24) \<and>
      rd (bytes s') (brk s + 24) sz = replicate sz NUL \<and> kept s s' bs \<and>
      (prevs s 0 bs \<longrightarrow> prevs s' 0 (bs @ [(brk s, sz, False)]))"
proof -
  obtain xs b n f where split: "bs = xs @ [(b, n, f)]" by (cases bs rule: rev_cases) (auto simp: bs)
  note heap = heap [unfolded split]
  obtain base where base: "startOfMem s = Some base" "0 < base" "base \<le> b" "brk s < base + 4294967296"
    "brk s < 9223372036854775808"
    and cur: "b \<noteq> 0" "m_size (md s b) = n" "(m_free (md s b) \<noteq> 0) = f" "m_next (md s b) = 0" "b + 24 + n \<le> brk s"
    and bx: "\<forall>x \<in> set xs. base \<le> fst x \<and> fst x + 24 + fst (snd x) \<le> b"
    by (rule heap_split [OF heap]) auto
  show ?thesis
  proof (cases "grant (brk s) (sz + 24)")
    case False
    then show ?thesis using sz by (simp add: malloc_grow_def sbrk_def sizeof_metadata_def)
  next
    case True
    then have b2: "brk s + sz + 24 < base + 4294967296" "brk s + sz + 24 < 9223372036854775808"
      using g base by (force simp: grant_ok_def add.assoc)+
    define a where "a = brk s"
    define t where "t = s\<lparr>brk := a + sz + 24\<rparr>"
    define s' where "s' = up_zero (a + 24) sz (up_size a sz (up_free a 0 (up_next a 0 (up_next b a (up_prev a b t)))))"
    have a: "apart a b" "apart b a" "a \<noteq> 0" using base cur by (auto simp: a_def apart_def)
    have h: "in_heap t a 24" "in_heap t b 24" "in_heap t (a + 24) sz"
      using base cur by (auto simp: t_def a_def in_heap_def)
    have big: "a < 18446744073709551616" "b < 18446744073709551616" "sz < 4294967296"
      using b2 base cur by (auto simp: a_def)
    have add: "add64 sz 24 = sz + 24" "add64 (brk s) (sz + 24) = a + sz + 24" using b2 sz by (simp_all add: a_def)
    have run: "malloc_grow grant b sz s = Inr (a + 24, s')"
      using True h a cur
      by (simp add: malloc_grow_def sbrk_def sizeof_metadata_def add s'_def flip: t_def) (simp add: a_def)
    have f: "brk s' = a + sz + 24" "startOfMem s' = startOfMem s" by (simp_all add: s'_def t_def)
    have ma: "md s' a = \<lparr>m_prev = b, m_next = 0, m_free = 0, m_size = sz\<rparr>"
      using a big by (simp add: s'_def)
    have mb: "md s' b = (md s b)\<lparr>m_next := a\<rparr>"
      using a big cur by (simp add: s'_def) (simp add: t_def a_def)
    have mx: "\<forall>x \<in> set xs. md s' (fst x) = md s (fst x)"
      using bx cur by (fastforce simp: s'_def t_def a_def apart_def)
    have "heap_ok s' (xs @ [(b, n, f), (a, sz, False)] @ [])"
      by (rule heap_replace [OF heap]) (use mx base b2 f cur a in \<open>simp_all add: mb ma\<close>, simp_all add: a_def)
    moreover have "prevs s' 0 (xs @ [(b, n, f), (a, sz, False)] @ [])" if p: "prevs s 0 (xs @ [(b, n, f)])"
      by (rule prevs_replace [OF p]) (use mx in \<open>simp_all add: mb ma\<close>)
    moreover have "kept s s' bs"
    proof (rule keptI)
      fix c m x assume *: "(c, m, False) \<in> set bs" "c + 24 \<le> x" "x < c + 24 + m"
      then have "x < b \<or> (b + 24 \<le> x \<and> x < a)" using bx cur split by (fastforce simp: a_def)
      then show "bytes s' x = bytes s x" using cur by (auto simp: s'_def t_def a_def)
    qed
    moreover have "rd (bytes s') (a + 24) sz = replicate sz NUL" by (rule rd_zero) (simp add: s'_def)
    ultimately show ?thesis using True run f by (simp add: split a_def)
  qed
qed

lemma malloc_first_ok:
  assumes s: "startOfMem s = None" and g: "grant_ok grant s" and sz: "sz < 9223372036854775808"
  shows "if \<not> grant (brk s) (sz + 24) then malloc_first grant sz s = Inr (0, s)
    else \<exists>s'. malloc_first grant sz s = Inr (brk s + 24, s') \<and>
      heap_ok s' [(brk s, sz, False)] \<and> brk s' = brk s + (sz + 24) \<and>
      rd (bytes s') (brk s + 24) sz = replicate sz NUL \<and> prevs s' 0 [(brk s, sz, False)]"
proof (cases "grant (brk s) (sz + 24)")
  case False
  then show ?thesis using sz by (simp add: malloc_first_def sbrk_def sizeof_metadata_def)
next
  case True
  then have b2: "sz + 24 < 4294967296" "brk s + sz + 24 < 9223372036854775808" "0 < brk s"
    using g s by (force simp: grant_ok_def add.assoc)+
  define a where "a = brk s"
  define t where "t = s\<lparr>brk := a + sz + 24, startOfMem := Some a\<rparr>"
  define s' where "s' = up_zero (a + 24) sz (up_size a sz (up_free a 0 (up_next a 0 (up_prev a 0 t))))"
  have h: "in_heap t a 24" "in_heap t (a + 24) sz" "a \<noteq> 0" using b2 by (auto simp: t_def a_def in_heap_def)
  have add: "add64 sz 24 = sz + 24" "add64 a (sz + 24) = a + sz + 24" using b2 sz by (simp_all add: a_def)
  have "malloc_first grant sz s = Inr (a + 24, s')"
    using True h
    by (simp add: malloc_first_def sbrk_def sizeof_metadata_def add s'_def Let_def flip: a_def t_def)
  moreover have "md s' a = \<lparr>m_prev = 0, m_next = 0, m_free = 0, m_size = sz\<rparr>" using b2 by (simp add: s'_def)
  moreover have "brk s' = a + sz + 24" "startOfMem s' = Some a" by (simp_all add: s'_def t_def)
  moreover have "rd (bytes s') (a + 24) sz = replicate sz NUL" by (rule rd_zero) (simp add: s'_def)
  ultimately show ?thesis using True b2 h by (simp add: heap_ok_def) (simp add: a_def)
qed


section \<open>The walk\<close>

lemma malloc_walk_ok:
  "heap_ok s (xs @ ys) \<Longrightarrow> xs @ ys \<noteq> [] \<Longrightarrow> grant_ok grant s \<Longrightarrow> sz < 9223372036854775808 \<Longrightarrow>
   length ys < fuel \<Longrightarrow>
   if need sz ys \<noteq> 0 \<and> \<not> grant (brk s) (need sz ys)
   then malloc_walk grant fuel (last_addr 0 xs) (next_addr ys 0) sz s = Inr (0, s)
   else \<exists>s'. let (bs', a) = alloc_blocks sz (brk s) ys in
     malloc_walk grant fuel (last_addr 0 xs) (next_addr ys 0) sz s = Inr (a + 24, s') \<and>
     heap_ok s' (xs @ bs') \<and> brk s' = brk s + need sz ys \<and>
     rd (bytes s') (a + 24) sz = replicate sz NUL \<and> kept s s' (xs @ ys) \<and>
     (prevs s 0 (xs @ ys) \<longrightarrow> prevs s' 0 (xs @ bs'))"
proof (induction ys arbitrary: xs fuel)
  case Nil
  then obtain k where k: "fuel = Suc k" by (cases fuel) auto
  show ?case using Nil malloc_grow_ok [of s xs grant sz] by (simp add: k Let_def)
next
  case (Cons y ys)
  obtain k where k: "fuel = Suc k" using Cons by (cases fuel) auto
  obtain b n f where y: "y = (b, n, f)" by (cases y) auto
  note heap = Cons.prems(1) [unfolded y]
  obtain base where cur: "startOfMem s = Some base" "0 < base" "base \<le> b" "b \<noteq> 0" "m_size (md s b) = n"
    "(m_free (md s b) \<noteq> 0) = f" "m_next (md s b) = next_addr ys 0" "b + 24 + n \<le> brk s"
    and sy: "seg s (next_addr ys 0) ys 0 (brk s)"
    by (rule heap_split [OF heap]) auto
  have h: "in_heap s b 24" using cur by (auto simp: in_heap_def)
  have nil: "next_addr ys 0 = 0 \<longleftrightarrow> ys = []" using sy by (cases ys) auto
  consider "f" "ys = []" | "f" "ys \<noteq> []" "sz \<le> n" | "\<not> (f \<and> ys = [])" "\<not> (f \<and> sz \<le> n)" by blast
  then show ?case
  proof cases
    case 1
    then have "malloc_walk grant fuel (last_addr 0 xs) b sz s = malloc_last grant b sz s"
      using cur h by (simp add: k)
    then show ?thesis using malloc_last_ok [of s xs b n grant sz] heap Cons.prems(3) 1 by (simp add: y Let_def)
  next
    case 2
    then have "malloc_walk grant fuel (last_addr 0 xs) b sz s = malloc_fit b sz s"
      using cur h nil by (simp add: k)
    then show ?thesis using malloc_fit_ok [of s xs b n ys sz] heap 2 by (simp add: y Let_def)
  next
    case 3
    then have run: "malloc_walk grant fuel (last_addr 0 xs) (next_addr (y # ys) 0) sz s =
        malloc_walk grant k (last_addr 0 (xs @ [y])) (next_addr ys 0) sz s"
      using cur h nil by (auto simp: k y)
    obtain r a where al: "alloc_blocks sz (brk s) ys = (r, a)" by fastforce
    have spec: "need sz (y # ys) = need sz ys" "alloc_blocks sz (brk s) (y # ys) = (y # r, a)"
      using 3 al by (auto simp: y)
    have len: "length ys < k" using Cons.prems(5) k by simp
    then show ?thesis
      unfolding run spec
      using Cons.IH [of "xs @ [y]" k, unfolded append_assoc append_Cons append_Nil, OF Cons.prems(1-4) len]
      by (simp only: al Let_def prod.case)
  qed
qed

lemma mm_malloc_ok:
  assumes heap: "heap_ok s bs" and g: "grant_ok grant s" and "0 < sz" "sz < 9223372036854775808" "length bs < fuel"
  shows "malloc_spec grant sz s bs (mm_malloc grant fuel sz s)"
proof (cases "startOfMem s")
  case None
  then show ?thesis using assms malloc_first_ok [of s grant sz]
    by (auto simp: malloc_spec_def mm_malloc_def heap_ok_def kept_def)
next
  case (Some base)
  then have "bs \<noteq> []" "base = next_addr bs 0" using heap by (auto simp: heap_ok_def neq_Nil_conv)
  then have "mm_malloc grant fuel sz s = malloc_walk grant fuel (last_addr 0 []) (next_addr bs 0) sz s"
    using Some assms(3) by (simp add: mm_malloc_def)
  then show ?thesis
    using malloc_walk_ok [of s "[]" bs grant sz fuel, unfolded append_Nil, OF heap \<open>bs \<noteq> []\<close> g assms(4,5)]
    unfolding malloc_spec_def by (simp only:)
qed

end
