(* ===== verification/AllocFree.thy ===== *)
theory AllocFree
  imports AllocMalloc
begin

text \<open>
  \<open>mm_free\<close> on well-formed heaps: which blocks there are afterwards, what stays of the user
  data, and where the \<open>prev\<close> pointers go wrong.
\<close>

section \<open>Merging lists of blocks\<close>

fun merge_right :: "block \<Rightarrow> block list \<Rightarrow> block list" where
  "merge_right (b, n, f) ((c, k, True) # ys) = (b, n + (k + 24), True) # ys"
| "merge_right (b, n, f) ys = (b, n, True) # ys"

text \<open>Freeing the block \<open>(b, n, False)\<close> between \<open>xs\<close> and \<open>ys\<close>.\<close>

definition free_blocks :: "block list \<Rightarrow> block \<Rightarrow> block list \<Rightarrow> block list" where
  "free_blocks xs x ys =
     (if xs \<noteq> [] \<and> snd (snd (last xs))
      then butlast xs @ merge_right (fst (last xs), fst (snd (last xs)) + (fst (snd x) + 24), True) ys
      else xs @ merge_right x ys)"

definition free_head :: "block list \<Rightarrow> bool" where
  "free_head ys \<longleftrightarrow> ys \<noteq> [] \<and> snd (snd (hd ys))"

lemma merge_right_simps:
  "free_head ys \<Longrightarrow> merge_right (b, n, f) ys = (b, n + (fst (snd (hd ys)) + 24), True) # tl ys"
  "\<not> free_head ys \<Longrightarrow> merge_right (b, n, f) ys = (b, n, True) # ys"
  by (cases ys; auto simp: free_head_def)+

text \<open>The \<open>prev\<close> pointers up to a block, and those behind the block that follows it.\<close>

definition links_around :: "mem \<Rightarrow> block list \<Rightarrow> block \<Rightarrow> block list \<Rightarrow> bool" where
  "links_around s xs x ys \<longleftrightarrow>
     prevs s 0 (xs @ [x]) \<and> (ys \<noteq> [] \<longrightarrow> prevs s (fst (hd ys)) (tl ys)) \<and>
     (ys \<noteq> [] \<and> \<not> free_head ys \<longrightarrow> m_prev (md s (fst (hd ys))) = fst x)"

lemma prevs_links: "prevs s 0 (xs @ x # ys) \<Longrightarrow> links_around s xs x ys"
  by (cases x; cases ys) (auto simp: links_around_def prevs_append)

text \<open>The second half of \<open>mm_free\<close>.\<close>

definition joins ::
    "mem \<Rightarrow> block list \<Rightarrow> block \<Rightarrow> block list \<Rightarrow> mem result \<Rightarrow> bool" where
  "joins s xs d ys r \<longleftrightarrow>
     (\<exists>s'. r = Inr s' \<and> heap_ok s' (xs @ merge_right d ys) \<and> brk s' = brk s \<and>
       (\<forall>x. x < fst d \<or> (fst d + 24 \<le> x \<and> (\<forall>y \<in> set ys. fst y \<le> x \<longrightarrow> fst y + 24 \<le> x)) \<longrightarrow>
          bytes s' x = bytes s x) \<and>
       (\<not> free_head ys \<longrightarrow> (\<forall>x \<in> set ys. md s' (fst x) = md s (fst x))) \<and>
       (links_around s xs d ys \<longrightarrow> prevs s' 0 (xs @ merge_right d ys)))"

lemma merge_next_alone:
  assumes heap: "heap_ok s (xs @ (b, n, f) # ys)" and alone: "\<not> free_head ys"
  shows "joins s xs (b, n, f) ys (andthen (merge_next b s) (set_m_free b 1))"
proof -
  obtain base where base: "startOfMem s = Some base" "0 < base" "base \<le> b" "brk s < base + 4294967296"
    "brk s < 9223372036854775808"
    and cur: "b \<noteq> 0" "m_size (md s b) = n" "(m_free (md s b) \<noteq> 0) = f" "m_next (md s b) = next_addr ys 0"
    "b + 24 + n \<le> next_addr ys (brk s)" "b + 24 + n \<le> brk s"
    and bx: "\<forall>x \<in> set xs. base \<le> fst x \<and> fst x + 24 + fst (snd x) \<le> b"
    by (rule heap_split [OF heap]) auto
  have h: "in_heap s b 24" using base cur by (auto intro!: in_heap_between [OF base(1)])
  define s' where "s' = up_free b 1 s"
  have "merge_next b s = Inr s"
  proof (cases ys)
    case (Cons y zs)
    obtain c k where y: "y = (c, k, False)" using alone Cons by (cases y) (auto simp: free_head_def)
    have "heap_ok s ((xs @ [(b, n, f)]) @ (c, k, False) # zs)" using heap Cons y by simp
    then have "c \<noteq> 0" "m_free (md s c) = 0" "c + 24 \<le> brk s" by (rule heap_split; simp)+
    then show ?thesis using h cur base Cons y by (simp add: merge_next_def in_heap_def)
  qed (use h cur in \<open>simp add: merge_next_def\<close>)
  then have run: "andthen (merge_next b s) (set_m_free b 1) = Inr s'" using h cur by (simp add: s'_def)
  have f': "brk s' = brk s" "startOfMem s' = startOfMem s" by (simp_all add: s'_def)
  have mb: "md s' b = (md s b)\<lparr>m_free := 1\<rparr>" by (simp add: s'_def)
  have "\<forall>x \<in> set ys. apart b (fst x)"
    by (rule heap_split [OF heap]) (fastforce simp: apart_def)
  then have my: "\<forall>x \<in> set ys. md s' (fst x) = md s (fst x)" by (simp add: s'_def)
  have mx: "\<forall>x \<in> set xs. md s' (fst x) = md s (fst x)" using bx by (auto simp: s'_def apart_def)
  have "heap_ok s' (xs @ [(b, n, True)] @ ys)"
    by (rule heap_replace [OF heap]) (use base cur mx my f' in \<open>simp_all add: mb\<close>, simp only: f')
  moreover have "prevs s' 0 (xs @ (b, n, True) # ys)" if p: "links_around s xs (b, n, f) ys"
  proof -
    have "prevs s 0 (xs @ (b, n, True) # ys)"
      using p alone by (cases ys) (auto simp: links_around_def prevs_append)
    moreover have "\<forall>x \<in> set (xs @ (b, n, True) # ys). m_prev (md s' (fst x)) = m_prev (md s (fst x))"
      using mx my mb by auto
    ultimately show ?thesis using prevs_cong by blast
  qed
  ultimately show ?thesis using run alone f' my by (auto simp: joins_def merge_right_simps s'_def)
qed

text \<open>The block at \<open>b\<close> grows to the size \<open>n\<close> and its next block becomes the one at \<open>z\<close>, if there is one.\<close>

definition absorb :: "nat \<Rightarrow> nat \<Rightarrow> nat \<Rightarrow> mem \<Rightarrow> mem" where
  "absorb b n z s =
     (let s2 = up_next b z (up_size b n s) in up_free b 1 (if z \<noteq> 0 then up_prev z b s2 else s2))"

lemma absorb_simps:
  assumes "n < 4294967296" "z < 18446744073709551616" "b < 18446744073709551616" "z = 0 \<or> apart b z"
  shows "brk (absorb b n z s) = brk s" "startOfMem (absorb b n z s) = startOfMem s"
    "md (absorb b n z s) b = (md s b)\<lparr>m_size := n, m_next := z, m_free := 1\<rparr>"
    "z \<noteq> 0 \<Longrightarrow> md (absorb b n z s) z = (md s z)\<lparr>m_prev := b\<rparr>"
    "apart b x \<Longrightarrow> (z \<noteq> 0 \<Longrightarrow> apart z x) \<Longrightarrow> md (absorb b n z s) x = md s x"
    "x < b \<or> b + 24 \<le> x \<Longrightarrow> (z \<noteq> 0 \<Longrightarrow> x < z \<or> z + 24 \<le> x) \<Longrightarrow> bytes (absorb b n z s) x = bytes s x"
proof -
  have "z \<noteq> 0 \<Longrightarrow> apart z b" using assms(4) by (auto simp: apart_def)
  then show "brk (absorb b n z s) = brk s" "startOfMem (absorb b n z s) = startOfMem s"
    "md (absorb b n z s) b = (md s b)\<lparr>m_size := n, m_next := z, m_free := 1\<rparr>"
    "z \<noteq> 0 \<Longrightarrow> md (absorb b n z s) z = (md s z)\<lparr>m_prev := b\<rparr>"
    "apart b x \<Longrightarrow> (z \<noteq> 0 \<Longrightarrow> apart z x) \<Longrightarrow> md (absorb b n z s) x = md s x"
    "x < b \<or> b + 24 \<le> x \<Longrightarrow> (z \<noteq> 0 \<Longrightarrow> x < z \<or> z + 24 \<le> x) \<Longrightarrow> bytes (absorb b n z s) x = bytes s x"
    using assms by (cases "z = 0"; simp add: absorb_def)+
qed

text \<open>The block behind the two that are joined, if there is one.\<close>

lemma behind_joined:
  assumes heap: "heap_ok s (xs @ (b, n, f) # (c, k, True) # zs)"
  defines "z \<equiv> next_addr zs 0"
  shows "c \<noteq> 0" "m_size (md s c) = k" "m_free (md s c) \<noteq> 0" "m_next (md s c) = z" "c + 24 + k \<le> brk s"
    "z = 0 \<longleftrightarrow> zs = []" "z \<noteq> 0 \<Longrightarrow> c + 24 + k \<le> z \<and> z + 24 \<le> brk s" "\<forall>x \<in> set (tl zs). z + 24 \<le> fst x"
    "c + 24 + k \<le> next_addr zs (brk s)"
proof -
  have "heap_ok s ((xs @ [(b, n, f)]) @ (c, k, True) # zs)" using heap by simp
  then show c: "c \<noteq> 0" "m_size (md s c) = k" "m_free (md s c) \<noteq> 0" "m_next (md s c) = z" "c + 24 + k \<le> brk s"
    "c + 24 + k \<le> next_addr zs (brk s)"
    and seg: "z = 0 \<longleftrightarrow> zs = []"
    unfolding z_def by (rule heap_split; cases zs; auto)+
  have all: "\<forall>x \<in> set zs. c + 24 + k \<le> fst x \<and> fst x + 24 + fst (snd x) \<le> brk s"
    using \<open>heap_ok s ((xs @ [(b, n, f)]) @ (c, k, True) # zs)\<close> by (rule heap_split) simp
  show "c + 24 + k \<le> z \<and> z + 24 \<le> brk s" if "z \<noteq> 0" using all that by (cases zs) (auto simp: z_def)
  show "\<forall>x \<in> set (tl zs). z + 24 \<le> fst x"
  proof (cases zs)
    case (Cons y ws)
    then obtain y2 y3 where "y = (z, y2, y3)" by (cases y) (auto simp: z_def)
    then have "heap_ok s ((xs @ [(b, n, f), (c, k, True)]) @ (z, y2, y3) # ws)" using heap Cons by simp
    then show ?thesis by (rule heap_split) (use Cons in fastforce)
  qed simp
qed

lemma merge_next_joined:
  assumes heap: "heap_ok s (xs @ (b, n, f) # ys)" and joined: "free_head ys"
  shows "joins s xs (b, n, f) ys (andthen (merge_next b s) (set_m_free b 1))"
proof -
  obtain base where base: "startOfMem s = Some base" "0 < base" "base \<le> b" "brk s < base + 4294967296"
    "brk s < 9223372036854775808"
    and cur: "b \<noteq> 0" "m_size (md s b) = n" "(m_free (md s b) \<noteq> 0) = f" "m_next (md s b) = next_addr ys 0"
    "b + 24 + n \<le> next_addr ys (brk s)"
    and bx: "\<forall>x \<in> set xs. base \<le> fst x \<and> fst x + 24 + fst (snd x) \<le> b"
    by (rule heap_split [OF heap]) auto
  obtain c k zs where ys: "ys = (c, k, True) # zs" using joined by (cases ys) (auto simp: free_head_def)
  define z where "z = next_addr zs 0"
  note c = behind_joined [OF heap [unfolded ys], folded z_def]
  have bc: "b + 24 + n \<le> c" using cur ys by simp
  define s' where "s' = absorb b (n + (k + 24)) z s"
  have ab: "n + (k + 24) < 4294967296" "z < 18446744073709551616" "b < 18446744073709551616" "z = 0 \<or> apart b z"
    using bc c base by (cases "z = 0"; force simp: apart_def)+
  note s' = absorb_simps [OF ab, where s = s, folded s'_def]
  have "in_heap s b 24" "in_heap s c 24" "z \<noteq> 0 \<Longrightarrow> in_heap s z 24" "apart b c" "z \<noteq> 0 \<Longrightarrow> apart z b"
    using base bc c cur by (auto simp: in_heap_def apart_def)
  then have run: "andthen (merge_next b s) (set_m_free b 1) = Inr s'"
    using cur c ys ab(4)
    by (cases "z = 0") (simp_all add: merge_next_def sizeof_metadata_def Let_def s'_def absorb_def)
  have mx: "\<forall>x \<in> set xs. md s' (fst x) = md s (fst x)"
    using bx bc c by (intro ballI s'(5)) (fastforce simp: apart_def)+
  have mt: "\<forall>x \<in> set (tl zs). md s' (fst x) = md s (fst x)"
    using bc c by (intro ballI s'(5)) (cases zs; fastforce simp: apart_def)+
  have mz: "zs \<noteq> [] \<Longrightarrow> md s' z = (md s z)\<lparr>m_prev := b\<rparr>" using s'(4) c by simp
  have my: "\<forall>x \<in> set zs. same_fields (md s' (fst x)) (md s (fst x))"
    using mt mz by (cases zs) (auto simp: z_def)
  have "heap_ok s' (xs @ [(b, n + (k + 24), True)] @ zs)"
    by (rule heap_replaces [where old = "[(c, k, True)]" and s = s and n = n and f = f])
       (use heap ys base cur(1) mx my bc c in \<open>simp_all add: s' z_def\<close>, (cases zs; simp add: s'))
  moreover have "prevs s' 0 (xs @ (b, n + (k + 24), True) # zs)" if p: "links_around s xs (b, n, f) ys"
  proof -
    have "prevs s c zs" "prevs s 0 xs" "m_prev (md s b) = last_addr 0 xs"
      using p ys by (auto simp: links_around_def prevs_append)
    moreover have "prevs s' b zs"
      using \<open>prevs s c zs\<close> mt mz prevs_cong [of "tl zs" s' s] by (cases zs) (auto simp: z_def)
    ultimately show ?thesis using prevs_cong [of xs s' s] mx by (simp add: prevs_append s')
  qed
  moreover have "bytes s' x = bytes s x"
    if "x < b \<or> (b + 24 \<le> x \<and> (\<forall>y \<in> set ys. fst y \<le> x \<longrightarrow> fst y + 24 \<le> x))" for x
    using that c bc ys by (intro s'(6)) (cases zs; auto simp: z_def)+
  ultimately show ?thesis using run s' joined by (auto simp: joins_def ys)
qed

lemma merge_next_ok:
  assumes heap: "heap_ok s (xs @ (b, n, f) # ys)"
  shows "\<exists>s'. andthen (merge_next b s) (set_m_free b 1) = Inr s' \<and>
    heap_ok s' (xs @ merge_right (b, n, f) ys) \<and> brk s' = brk s \<and>
    (\<forall>x. x < b \<or> (b + 24 \<le> x \<and> (\<forall>y \<in> set ys. fst y \<le> x \<longrightarrow> fst y + 24 \<le> x)) \<longrightarrow> bytes s' x = bytes s x) \<and>
    (\<not> free_head ys \<longrightarrow> (\<forall>x \<in> set ys. md s' (fst x) = md s (fst x))) \<and>
    (links_around s xs (b, n, f) ys \<longrightarrow> prevs s' 0 (xs @ merge_right (b, n, f) ys))"
  using merge_next_alone [OF heap] merge_next_joined [OF heap] unfolding joins_def fst_conv by blast

section \<open>mm\_free\<close>

lemma payload_apart:
  "seg s a bs z lim \<Longrightarrow> (c, m, g) \<in> set bs \<Longrightarrow> c + 24 \<le> x \<Longrightarrow> x < c + 24 + m \<Longrightarrow> y \<in> set bs \<Longrightarrow>
   fst y \<le> x \<Longrightarrow> fst y + 24 \<le> x"
proof (induction s a bs z lim rule: seg.induct)
  case (2 s a b n f bs z lim)
  have a: "\<forall>x \<in> set bs. b + 24 + n \<le> fst x"
    using 2(2) seg_all [of s _ bs z lim] by (cases bs) fastforce+
  show ?case
  proof (cases "(c, m, g) \<in> set bs \<and> y \<in> set bs")
    case True
    then show ?thesis using 2 by auto
  next
    case False
    then show ?thesis using 2(3-7) a by fastforce
  qed
qed simp

text \<open>A free predecessor swallows the block; the \<open>prev\<close> pointer of the block behind it stays.\<close>

lemma merge_prev_free:
  assumes heap: "heap_ok s (us @ (p, m, True) # (b, n, False) # ys)" and prev: "m_prev (md s b) = p"
  shows "\<exists>s'. merge_prev b s = Inr (p, s') \<and> heap_ok s' (us @ (p, m + (n + 24), True) # ys) \<and> brk s' = brk s \<and>
    (\<forall>x. x < p \<or> p + 24 \<le> x \<longrightarrow> bytes s' x = bytes s x) \<and>
    (\<forall>x \<in> set us \<union> set ys. md s' (fst x) = md s (fst x)) \<and> m_prev (md s' p) = m_prev (md s p)"
proof -
  obtain base where base: "startOfMem s = Some base" "0 < base" "base \<le> p" "brk s < base + 4294967296"
    "brk s < 9223372036854775808"
    and p: "p \<noteq> 0" "m_size (md s p) = m" "m_free (md s p) \<noteq> 0" "p + 24 + m \<le> b"
    and bu: "\<forall>x \<in> set us. base \<le> fst x \<and> fst x + 24 + fst (snd x) \<le> p"
    by (rule heap_split [OF heap]) auto
  have "heap_ok s ((us @ [(p, m, True)]) @ (b, n, False) # ys)" using heap by simp
  then have b: "b \<noteq> 0" "m_size (md s b) = n" "m_next (md s b) = next_addr ys 0" "b + 24 + n \<le> brk s"
    "b + 24 + n \<le> next_addr ys (brk s)" "seg s (next_addr ys 0) ys 0 (brk s)"
    and bz: "\<forall>x \<in> set ys. b + 24 + n \<le> fst x \<and> fst x + 24 + fst (snd x) \<le> brk s"
    by (rule heap_split; simp)+
  have ap: "apart p b" using p by (simp add: apart_def)
  define z where "z = next_addr ys 0"
  have "z \<le> brk s" using bz by (cases ys) (auto simp: z_def)
  then have big: "m + (n + 24) < 4294967296" "z < 18446744073709551616" using p b base by auto
  define s' where "s' = up_next p z (up_size p (m + (n + 24)) s)"
  have "in_heap s p 24" "in_heap s b 24" using p b base by (auto simp: in_heap_def)
  then have "merge_prev b s = Inr (p, s')"
    using p b ap by (simp add: merge_prev_def prev sizeof_metadata_def s'_def flip: z_def)
  moreover have f': "brk s' = brk s" "startOfMem s' = startOfMem s" by (simp_all add: s'_def)
  moreover have mp: "md s' p = (md s p)\<lparr>m_size := m + (n + 24), m_next := z\<rparr>"
    using big by (simp add: s'_def)
  moreover have mo: "\<forall>x \<in> set us \<union> set ys. md s' (fst x) = md s (fst x)"
  proof
    fix x assume "x \<in> set us \<union> set ys"
    then have "apart p (fst x)" using bu bz p by (fastforce simp: apart_def)
    then show "md s' (fst x) = md s (fst x)" by (simp add: s'_def)
  qed
  moreover have "p + 24 + (m + (n + 24)) \<le> next_addr ys (brk s)" using p(4) b(5) by linarith
  then have sp: "seg s' p [(p, m + (n + 24), True)] (next_addr ys 0) (next_addr ys (brk s'))"
    using p unfolding f' by (simp add: mp z_def)
  have "heap_ok s' (us @ [(p, m + (n + 24), True)] @ ys)"
    by (rule heap_replaces [where old = "[(b, n, False)]" and s = s and b = p and n = m and f = True, OF _ _ _ _ _ _ _ _ sp])
       (use heap base mo f' in simp_all)
  moreover have "bytes s' x = bytes s x" if "x < p \<or> p + 24 \<le> x" for x using that by (auto simp: s'_def)
  ultimately show ?thesis by simp
qed

lemma merge_prev_used:
  assumes "heap_ok s (xs @ (b, n, False) # ys)" "m_prev (md s b) = last_addr 0 xs" "\<not> free_head (rev xs)"
  shows "merge_prev b s = Inr (b, s)"
proof -
  obtain base where base: "startOfMem s = Some base" "b \<noteq> 0" "base \<le> b" "b + 24 + n \<le> brk s"
    by (rule heap_split [OF assms(1)]) auto
  show ?thesis
  proof (cases xs rule: rev_cases)
    case (snoc us u)
    then obtain p m where u: "u = (p, m, False)" using assms(3) by (cases u) (auto simp: free_head_def)
    have "heap_ok s (us @ (p, m, False) # (b, n, False) # ys)" using assms(1) snoc u by simp
    then have "p \<noteq> 0" "m_free (md s p) = 0" "base \<le> p" "p + 24 \<le> brk s"
      by (rule heap_split; use base in simp)+
    then show ?thesis using base assms(2) snoc u by (simp add: merge_prev_def in_heap_def)
  qed (use base assms(2) in \<open>simp add: merge_prev_def in_heap_def\<close>)
qed

lemma heap_payload:
  assumes "heap_ok s bs" "(c, m, False) \<in> set bs" "c + 24 \<le> x" "x < c + 24 + m" "y \<in> set bs"
  shows "x < fst y \<or> fst y + 24 \<le> x"
proof -
  obtain base where "seg s base bs 0 (brk s)" using assms(1,2) by (auto simp: heap_ok_def split: option.splits)
  from payload_apart [OF this assms(2-5)] show ?thesis by fastforce
qed

definition goes_stale :: "block list \<Rightarrow> block list \<Rightarrow> bool" where
  "goes_stale xs ys \<longleftrightarrow> free_head (rev xs) \<and> ys \<noteq> [] \<and> \<not> free_head ys"

lemma mm_free_merged:
  assumes heap: "heap_ok s (us @ (p, m, True) # (b, n, False) # ys)" and prev: "m_prev (md s b) = p"
  shows "\<exists>s'. mm_free (b + 24) s = Inr s' \<and> heap_ok s' (us @ merge_right (p, m + (n + 24), True) ys) \<and>
    brk s' = brk s \<and>
    (\<forall>x. x < p \<or> (p + 24 \<le> x \<and> (\<forall>y \<in> set ys. fst y \<le> x \<longrightarrow> fst y + 24 \<le> x)) \<longrightarrow> bytes s' x = bytes s x) \<and>
    (prevs s 0 (us @ (p, m, True) # (b, n, False) # ys) \<longrightarrow>
       (if goes_stale (us @ [(p, m, True)]) ys then m_prev (md s' (fst (hd ys))) = b
        else prevs s' 0 (us @ merge_right (p, m + (n + 24), True) ys)))"
proof -
  let ?xs = "us @ [(p, m, True)]"
  obtain s1 where s1: "merge_prev b s = Inr (p, s1)" "heap_ok s1 (us @ (p, m + (n + 24), True) # ys)"
    "brk s1 = brk s" "\<forall>x. x < p \<or> p + 24 \<le> x \<longrightarrow> bytes s1 x = bytes s x"
    "\<forall>x \<in> set us \<union> set ys. md s1 (fst x) = md s (fst x)" "m_prev (md s1 p) = m_prev (md s p)"
    using merge_prev_free [OF heap] prev by auto
  obtain s' where s': "andthen (merge_next p s1) (set_m_free p 1) = Inr s'"
    "heap_ok s' (us @ merge_right (p, m + (n + 24), True) ys)" "brk s' = brk s1"
    "\<forall>x. x < p \<or> (p + 24 \<le> x \<and> (\<forall>y \<in> set ys. fst y \<le> x \<longrightarrow> fst y + 24 \<le> x)) \<longrightarrow> bytes s' x = bytes s1 x"
    "\<not> free_head ys \<longrightarrow> (\<forall>x \<in> set ys. md s' (fst x) = md s1 (fst x))"
    "links_around s1 us (p, m + (n + 24), True) ys \<longrightarrow> prevs s' 0 (us @ merge_right (p, m + (n + 24), True) ys)"
    using merge_next_ok [OF s1(2)] by blast
  have "if goes_stale ?xs ys then m_prev (md s' (fst (hd ys))) = b
      else prevs s' 0 (us @ merge_right (p, m + (n + 24), True) ys)"
    if p: "prevs s 0 (us @ (p, m, True) # (b, n, False) # ys)"
  proof (cases "goes_stale ?xs ys")
    case True
    then obtain c k zs where ys: "ys = (c, k, False) # zs" by (cases ys) (auto simp: goes_stale_def free_head_def)
    then show ?thesis using s'(5) s1(5) p True by (simp add: free_head_def prevs_append)
  next
    case False
    then have "ys = [] \<or> free_head ys" by (simp add: goes_stale_def free_head_def)
    moreover have "prevs s1 0 (us @ [(p, m + (n + 24), True)])"
      using p s1(5,6) prevs_cong [of us s1 s] by (simp add: prevs_append)
    moreover have "ys \<noteq> [] \<Longrightarrow> prevs s1 (fst (hd ys)) (tl ys)"
      using p s1(5) prevs_cong [of "tl ys" s1 s] by (cases ys) (auto simp: prevs_append)
    ultimately show ?thesis using s'(6) False by (simp add: links_around_def) blast
  qed
  moreover have "mm_free (b + 24) s = Inr s'" using s1(1) s'(1) by (simp add: mm_free_def sizeof_metadata_def)
  ultimately show ?thesis using s' s1(3,4) by (intro exI [of _ s']) simp
qed

text \<open>Stores into structs of blocks, only, leave the data of all blocks.\<close>

lemma kept_structs:
  assumes heap: "heap_ok s (xs @ (b, n, False) # ys)" and p: "p = b \<or> (\<exists>m. (p, m, True) \<in> set xs)"
    and s': "\<forall>x. x < p \<or> (p + 24 \<le> x \<and> (\<forall>y \<in> set ys. fst y \<le> x \<longrightarrow> fst y + 24 \<le> x)) \<longrightarrow> bytes s' x = bytes s x"
  shows "kept s s' (xs @ ys)"
proof (rule keptI)
  fix c k x assume *: "(c, k, False) \<in> set (xs @ ys)" "c + 24 \<le> x" "x < c + 24 + k"
  note a = heap_payload [OF heap _ *(2,3)]
  have "x < p \<or> p + 24 \<le> x" using p a [of "(b, n, False)"] a [of "(p, _, True)"] *(1) by auto
  moreover have "\<forall>y \<in> set ys. x < fst y \<or> fst y + 24 \<le> x" using a *(1) by auto
  ultimately show "bytes s' x = bytes s x" using s' by fastforce
qed

lemma mm_free_ok:
  assumes heap: "heap_ok s (xs @ (b, n, False) # ys)" and prev: "m_prev (md s b) = last_addr 0 xs"
  shows "\<exists>s'. mm_free (b + 24) s = Inr s' \<and> heap_ok s' (free_blocks xs (b, n, False) ys) \<and> brk s' = brk s \<and>
    kept s s' (xs @ ys) \<and>
    (prevs s 0 (xs @ (b, n, False) # ys) \<longrightarrow>
       (if goes_stale xs ys then m_prev (md s' (fst (hd ys))) = b
        else prevs s' 0 (free_blocks xs (b, n, False) ys)))"
proof (cases "free_head (rev xs)")
  case False
  have run: "mm_free (b + 24) s = andthen (merge_next b s) (set_m_free b 1)"
    using merge_prev_used [OF heap prev False] by (simp add: mm_free_def sizeof_metadata_def)
  have fb: "free_blocks xs (b, n, False) ys = xs @ merge_right (b, n, False) ys"
    using False by (cases xs rule: rev_cases) (auto simp: free_blocks_def free_head_def)
  obtain s' where s': "andthen (merge_next b s) (set_m_free b 1) = Inr s'"
    "heap_ok s' (xs @ merge_right (b, n, False) ys)" "brk s' = brk s"
    "\<forall>x. x < b \<or> (b + 24 \<le> x \<and> (\<forall>y \<in> set ys. fst y \<le> x \<longrightarrow> fst y + 24 \<le> x)) \<longrightarrow> bytes s' x = bytes s x"
    "links_around s xs (b, n, False) ys \<longrightarrow> prevs s' 0 (xs @ merge_right (b, n, False) ys)"
    using merge_next_ok [OF heap] by blast
  moreover have "kept s s' (xs @ ys)" by (rule kept_structs [OF heap _ s'(4)]) simp
  ultimately show ?thesis using run prevs_links [of s xs "(b, n, False)" ys] False
    by (auto simp: fb goes_stale_def)
next
  case True
  then obtain us p m where xs: "xs = us @ [(p, m, True)]"
    by (cases xs rule: rev_cases) (auto simp: free_head_def)
  have h: "heap_ok s (us @ (p, m, True) # (b, n, False) # ys)" "m_prev (md s b) = p" using heap prev xs by simp_all
  have fb: "free_blocks xs (b, n, False) ys = us @ merge_right (p, m + (n + 24), True) ys"
    by (simp add: free_blocks_def xs)
  obtain s' where s': "mm_free (b + 24) s = Inr s'" "heap_ok s' (us @ merge_right (p, m + (n + 24), True) ys)"
    "brk s' = brk s"
    "\<forall>x. x < p \<or> (p + 24 \<le> x \<and> (\<forall>y \<in> set ys. fst y \<le> x \<longrightarrow> fst y + 24 \<le> x)) \<longrightarrow> bytes s' x = bytes s x"
    "prevs s 0 (xs @ (b, n, False) # ys) \<longrightarrow>
       (if goes_stale xs ys then m_prev (md s' (fst (hd ys))) = b
        else prevs s' 0 (us @ merge_right (p, m + (n + 24), True) ys))"
    using mm_free_merged [OF h] by (auto simp: xs)
  moreover have "kept s s' (xs @ ys)" by (rule kept_structs [OF heap _ s'(4)]) (auto simp: xs)
  ultimately show ?thesis by (simp add: fb)
qed

end
