(* ===== verification/AllocProps.thy ===== *)
theory AllocProps
  imports AllocFree
begin

text \<open>The correctness properties of the allocator, and what its faults do to a program.\<close>

section \<open>Blocks in use\<close>

definition in_use :: "block list \<Rightarrow> (nat \<times> nat) set" where
  "in_use bs = {(b, n). (b, n, False) \<in> set bs}"

lemma in_use_simps [simp]:
  "in_use [] = {}" "in_use ((b, n, False) # bs) = insert (b, n) (in_use bs)"
  "in_use ((b, n, True) # bs) = in_use bs" "in_use (xs @ ys) = in_use xs \<union> in_use ys"
  by (auto simp: in_use_def)

lemma in_use_alloc:
  "alloc_blocks sz lim bs = (bs', a) \<Longrightarrow> in_use bs' = insert (a, sz) (in_use bs)"
proof (induction sz lim bs arbitrary: bs' a rule: alloc_blocks.induct)
  case (2 sz lim b n f bs)
  then show ?case by (cases f) (auto simp: Let_def split: if_splits prod.splits)
qed auto

lemma alloc_addr:
  "alloc_blocks sz lim bs = (bs', a) \<Longrightarrow> a = lim \<or> (\<exists>n. (a, n, True) \<in> set bs)"
proof (induction sz lim bs arbitrary: bs' a rule: alloc_blocks.induct)
  case (2 sz lim b n f bs)
  then show ?case by (auto simp: Let_def split: if_splits prod.splits)
qed auto

lemma seg_disjoint:
  "seg s a bs z lim \<Longrightarrow> (b, n, f) \<in> set bs \<Longrightarrow> (c, m, g) \<in> set bs \<Longrightarrow>
   (b, n, f) = (c, m, g) \<or> b + 24 + n \<le> c \<or> c + 24 + m \<le> b"
proof (induction s a bs z lim rule: seg.induct)
  case (2 s a d k h bs z lim)
  have "\<forall>x \<in> set bs. d + 24 + k \<le> fst x"
    using 2(2) seg_all [of s _ bs z lim] by (cases bs) fastforce+
  then show ?case using 2 by fastforce
qed simp

lemma heap_disjoint:
  "heap_ok s bs \<Longrightarrow> (b, n, f) \<in> set bs \<Longrightarrow> (c, m, g) \<in> set bs \<Longrightarrow>
   (b, n, f) = (c, m, g) \<or> b + 24 + n \<le> c \<or> c + 24 + m \<le> b"
  using seg_disjoint unfolding heap_ok_def by (fastforce split: option.splits)


section \<open>Properties\<close>

text \<open>C3. On a well-formed heap mm_malloc is the first-fit allocator on lists of blocks: it
  returns NULL and changes nothing exactly when the break has to move and the kernel refuses;
  else it returns a zeroed block, the heap is well-formed again, and the data of the blocks in
  use stays.  A step per block and one more are enough, and no access leaves the heap.\<close>

theorem mm_malloc_refines:
  assumes "heap_ok s bs" "grant_ok grant s" "0 < sz" "sz < 9223372036854775808" "length bs < fuel"
  shows "malloc_spec grant sz s bs (mm_malloc grant fuel sz s)"
  by (rule mm_malloc_ok [OF assms])

text \<open>A new block overlaps no block in use.\<close>

lemma alloc_apart:
  assumes al: "alloc_blocks sz lim bs = (bs', a)" and h: "heap_ok s bs" "heap_ok s' bs'"
    and lim: "\<forall>(b, n, f) \<in> set bs. b < lim" and b: "(b, n) \<in> in_use bs"
  shows "b + 24 + n \<le> a \<or> a + 24 + sz \<le> b"
proof -
  have "(b, n, False) \<in> set bs" using b by (simp add: in_use_def)
  then have "b \<noteq> a" using alloc_addr [OF al] heap_disjoint [OF h(1)] lim by fastforce
  moreover have "(b, n, False) \<in> set bs'" "(a, sz, False) \<in> set bs'"
    using in_use_alloc [OF al] b by (auto simp: in_use_def)
  ultimately show ?thesis using heap_disjoint [OF h(2)] by blast
qed

text \<open>C7. mm_free on a block in use whose prev pointer is right merges it with free neighbours,
  leaves the heap well-formed and the data of the other blocks alone.  The prev pointers stay
  right except when it merges with the block before it and the block behind it is in use: the
  prev pointer of that one still names the block that is gone.\<close>

theorem mm_free_correct:
  assumes "heap_ok s (xs @ (b, n, False) # ys)" "m_prev (md s b) = last_addr 0 xs"
  shows "\<exists>s'. mm_free (b + 24) s = Inr s' \<and> heap_ok s' (free_blocks xs (b, n, False) ys) \<and> brk s' = brk s \<and>
    kept s s' (xs @ ys) \<and>
    (prevs s 0 (xs @ (b, n, False) # ys) \<longrightarrow>
       (if goes_stale xs ys then m_prev (md s' (fst (hd ys))) = b
        else prevs s' 0 (free_blocks xs (b, n, False) ys)))"
  by (rule mm_free_ok [OF assms])

section \<open>Resizing the last block\<close>

lemma heap_start: "heap_ok s bs \<Longrightarrow> bs \<noteq> [] \<Longrightarrow> startOfMem s = Some (fst (hd bs))"
  by (cases bs) (auto simp: heap_ok_def split: option.splits)

lemma alloc_last:
  "\<forall>(c, k, f) \<in> set xs. f \<longrightarrow> k < sz \<Longrightarrow>
   snd (alloc_blocks sz lim (xs @ [(b, n, True)])) = b \<and> need sz (xs @ [(b, n, True)]) = sz - n"
  by (induction xs) (auto split: prod.splits)

lemma copy_self: "in_heap s a n \<Longrightarrow> copy_bytes a a n s = Inr s"
proof -
  have "wr m a (rd m a n) = m" for m by (rule ext) (auto simp: wr_def rd_def)
  then show "in_heap s a n \<Longrightarrow> copy_bytes a a n s = Inr s" by (simp add: copy_bytes_def)
qed

text \<open>The last block, which no free block stands in for, keeps its address.\<close>

lemma mm_realloc_last:
  assumes "heap_ok s (xs @ [(b, n, False)])" "m_prev (md s b) = last_addr 0 xs" "\<not> free_head (rev xs)"
    "\<forall>(c, k, f) \<in> set xs. f \<longrightarrow> k < sz" "grant_ok grant s" "sz \<le> n \<or> grant (brk s) (sz - n)"
    "0 < sz" "sz < 9223372036854775808" "length xs + 1 < fuel"
  shows "\<exists>s'. mm_realloc grant fuel (b + 24) sz s = Inr (b + 24, s') \<and>
    rd (bytes s') (b + 24) sz = replicate sz NUL"
proof -
  have fb: "free_blocks xs (b, n, False) [] = xs @ [(b, n, True)]"
    using assms(3) by (cases xs rule: rev_cases) (auto simp: free_blocks_def free_head_def)
  obtain s1 where s1: "mm_free (b + 24) s = Inr s1" "heap_ok s1 (xs @ [(b, n, True)])" "brk s1 = brk s"
    using mm_free_ok [OF assms(1,2)] by (auto simp: fb)
  have start: "startOfMem s1 = startOfMem s"
    using heap_start [OF assms(1)] heap_start [OF s1(2)] by (cases xs) simp_all
  have g: "grant_ok grant s1" using assms(5) unfolding grant_ok_def start s1(3) .
  obtain bs' where al: "alloc_blocks sz (brk s) (xs @ [(b, n, True)]) = (bs', b)"
    "need sz (xs @ [(b, n, True)]) = sz - n"
    using alloc_last [OF assms(4), of "brk s" b n] by (cases "alloc_blocks sz (brk s) (xs @ [(b, n, True)])") simp
  have "malloc_spec grant sz s1 (xs @ [(b, n, True)]) (mm_malloc grant fuel sz s1)"
    by (rule mm_malloc_ok [OF s1(2) g]) (use assms in simp_all)
  then obtain s2 where s2: "mm_malloc grant fuel sz s1 = Inr (b + 24, s2)" "heap_ok s2 bs'"
    "brk s2 = brk s1 + (sz - n)" "rd (bytes s2) (b + 24) sz = replicate sz NUL"
    using assms(6) by (auto simp: malloc_spec_def s1(3) al split: if_splits)
  obtain base where cur: "startOfMem s = Some base" "base \<le> b" "b \<noteq> 0" "m_size (md s b) = n" "b + 24 + n \<le> brk s"
    by (rule heap_split [OF assms(1)]) auto
  have "in_use bs' = insert (b, sz) (in_use (xs @ [(b, n, True)]))" by (rule in_use_alloc [OF al(1)])
  then have "(b, sz, False) \<in> set bs'" by (auto simp: in_use_def)
  then have "in_heap s2 (b + 24) n"
    using s2(2,3) s1(3) cur seg_all by (fastforce simp: heap_ok_def in_heap_def split: option.splits)
  moreover have "in_heap s b 24" using cur by (simp add: in_heap_def)
  ultimately have "mm_realloc grant fuel (b + 24) sz s = Inr (b + 24, s2)"
    using s1(1) s2(1) cur assms(7) by (simp add: mm_realloc_def sizeof_metadata_def copy_self)
  then show ?thesis using s2(4) by blast
qed

lemma merge_right_shape: "\<exists>m zs. merge_right (b, n, f) ys = (b, m, True) # zs \<and> length zs \<le> length ys"
  by (cases "((b, n, f), ys)" rule: merge_right.cases) auto

lemma free_blocks_shape:
  "free_blocks xs (b, n, False) ys \<noteq> [] \<and> fst (hd (free_blocks xs (b, n, False) ys)) = fst (hd (xs @ (b, n, False) # ys)) \<and>
   length (free_blocks xs (b, n, False) ys) \<le> length (xs @ ys) + 1"
proof (cases "xs \<noteq> [] \<and> snd (snd (last xs))")
  case True
  then obtain us p m where xs: "xs = us @ [(p, m, True)]" by (cases xs rule: rev_cases) auto
  obtain k zs where "merge_right (p, m + (n + 24), True) ys = (p, k, True) # zs" "length zs \<le> length ys"
    using merge_right_shape by blast
  then show ?thesis by (cases us) (simp_all add: xs free_blocks_def)
next
  case False
  obtain k zs where "merge_right (b, n, False) ys = (b, k, True) # zs" "length zs \<le> length ys"
    using merge_right_shape by blast
  then show ?thesis using False by (cases xs) (auto simp: free_blocks_def)
qed

text \<open>C35. mm_realloc frees the block before it allocates, and allocating clears it: whenever the
  caller gets the address of its block back, all of the data are erased.\<close>

theorem mm_realloc_erases:
  assumes "heap_ok s (xs @ (b, n, False) # ys)" "m_prev (md s b) = last_addr 0 xs" "grant_ok grant s"
    "0 < sz" "sz < 9223372036854775808" "length (xs @ ys) + 1 < fuel"
    and "mm_realloc grant fuel (b + 24) sz s = Inr (b + 24, s')"
  shows "rd (bytes s') (b + 24) sz = replicate sz NUL"
proof -
  let ?bs = "free_blocks xs (b, n, False) ys"
  obtain s1 where s1: "mm_free (b + 24) s = Inr s1" "heap_ok s1 ?bs" "brk s1 = brk s"
    using mm_free_ok [OF assms(1,2)] by blast
  have start: "startOfMem s1 = startOfMem s"
    using heap_start [OF assms(1)] heap_start [OF s1(2)] free_blocks_shape [of xs b n ys] by simp
  have "grant_ok grant s1" using assms(3) unfolding grant_ok_def start s1(3) .
  moreover have "length ?bs < fuel" using free_blocks_shape [of xs b n ys] assms(6) by simp
  ultimately have spec: "malloc_spec grant sz s1 ?bs (mm_malloc grant fuel sz s1)"
    using mm_malloc_ok [OF s1(2)] assms(4,5) by simp
  obtain base where "startOfMem s = Some base" "base \<le> b" "b \<noteq> 0" "m_size (md s b) = n" "b + 24 + n \<le> brk s"
    by (rule heap_split [OF assms(1)]) auto
  then have "deref s b = Inr (md s b)" by (intro deref_here) (simp add: in_heap_def)
  then obtain dest s2 where m: "mm_malloc grant fuel sz s1 = Inr (dest, s2)" "dest = b + 24"
    "copy_bytes dest (b + 24) (m_size (md s b)) s2 = Inr s'"
    using assms(4,7) s1(1) by (auto simp: mm_realloc_def sizeof_metadata_def Let_def andthen_Inr_iff split: if_splits)
  then have "in_heap s2 (b + 24) (m_size (md s b))" by (auto simp: copy_bytes_def split: if_splits)
  then have "s' = s2" using m(2,3) copy_self by simp
  then show ?thesis using spec m(1,2)
    by (cases "alloc_blocks sz (brk s1) ?bs") (auto simp: malloc_spec_def split: if_splits)
qed


section \<open>Instances\<close>

text \<open>A kernel that lets the break go up to 8192, and a program that starts with it at 4096.\<close>

definition small :: "nat \<Rightarrow> nat \<Rightarrow> bool" where
  "small b n \<longleftrightarrow> b + n \<le> 8192"

definition empty_heap :: mem where
  "empty_heap = \<lparr>startOfMem = None, brk = 4096, bytes = \<lambda>_. NUL\<rparr>"

lemma empty_heap_ok: "heap_ok empty_heap []" "grant_ok small empty_heap"
  by (auto simp: heap_ok_def empty_heap_def grant_ok_def small_def)

lemma sample_heap:
  "\<exists>s. mm_malloc small 1 8 empty_heap = Inr (4120, s) \<and> heap_ok s [(4096, 8, False)] \<and>
     prevs s 0 [(4096, 8, False)] \<and> grant_ok small s"
proof -
  have "\<exists>s. mm_malloc small 1 8 empty_heap = Inr (4120, s) \<and> heap_ok s [(4096, 8, False)] \<and>
     prevs s 0 [(4096, 8, False)] \<and> brk s = 4128"
    using mm_malloc_ok [OF empty_heap_ok, of 8 1]
    by (simp add: malloc_spec_def empty_heap_def small_def split: if_splits) blast
  then show ?thesis using heap_start by (fastforce simp: grant_ok_def small_def)
qed

theorem mm_malloc_refines_witness:
  "\<exists>s. mm_malloc small 1 8 empty_heap = Inr (4120, s) \<and> heap_ok s [(4096, 8, False)]"
  using mm_malloc_refines [OF empty_heap_ok, of 8 1]
  by (simp add: malloc_spec_def empty_heap_def small_def split: if_splits) blast

theorem mm_free_correct_witness:
  "\<exists>s s'. mm_malloc small 1 8 empty_heap = Inr (4120, s) \<and> mm_free 4120 s = Inr s' \<and>
     heap_ok s' [(4096, 8, True)]"
proof -
  obtain s where s: "mm_malloc small 1 8 empty_heap = Inr (4120, s)" "heap_ok s [(4096, 8, False)]"
    "prevs s 0 [(4096, 8, False)]"
    using sample_heap by blast
  have "\<exists>s'. mm_free 4120 s = Inr s' \<and> heap_ok s' (free_blocks [] (4096, 8, False) [])"
    using mm_free_correct [of s "[]" 4096 8 "[]"] s(2,3) by auto
  then show ?thesis using s(1) by (auto simp: free_blocks_def)
qed

theorem mm_realloc_erases_witness:
  "\<exists>s s'. mm_malloc small 1 8 empty_heap = Inr (4120, s) \<and> mm_realloc small 2 4120 6 s = Inr (4120, s') \<and>
     rd (bytes s') 4120 6 = replicate 6 NUL"
proof -
  obtain s where s: "mm_malloc small 1 8 empty_heap = Inr (4120, s)" "heap_ok s [(4096, 8, False)]"
    "prevs s 0 [(4096, 8, False)]" "grant_ok small s"
    using sample_heap by blast
  have "\<exists>s'. mm_realloc small 2 (4096 + 24) 6 s = Inr (4096 + 24, s') \<and> rd (bytes s') (4096 + 24) 6 = replicate 6 NUL"
    by (rule mm_realloc_last [of s "[]" 4096 8]) (use s in \<open>simp_all add: free_head_def\<close>)
  then obtain s' where s': "mm_realloc small 2 (4096 + 24) 6 s = Inr (4096 + 24, s')" by blast
  have "rd (bytes s') (4096 + 24) 6 = replicate 6 NUL"
    by (rule mm_realloc_erases [of s "[]" 4096 8 "[]" small 6 2]) (use s s' in simp_all)
  then show ?thesis using s(1) s' by auto
qed

section \<open>What a stale prev pointer does\<close>

lemma rd_wr_inside:
  "a \<le> b \<Longrightarrow> b + n \<le> a + length bs \<Longrightarrow> rd (wr m a bs) b n = take n (drop (b - a) bs)"
  by (rule nth_equalityI) (auto simp: rd_def wr_def)

lemma small_malloc:
  assumes "heap_ok s bs" "prevs s 0 bs" "bs = [] \<or> fst (hd bs) = 4096" "4096 \<le> brk s"
    "brk s + need 8 bs \<le> 8192" "length bs < 4"
  shows "\<exists>s'. mm_malloc small 4 8 s = Inr (snd (alloc_blocks 8 (brk s) bs) + 24, s') \<and>
    heap_ok s' (fst (alloc_blocks 8 (brk s) bs)) \<and> prevs s' 0 (fst (alloc_blocks 8 (brk s) bs)) \<and>
    brk s' = brk s + need 8 bs"
proof -
  have "startOfMem s = (if bs = [] then None else Some 4096)"
    using heap_start [OF assms(1)] assms(1,3) by (auto simp: heap_ok_def split: option.splits)
  then have "grant_ok small s" using assms(4) by (auto simp: grant_ok_def small_def)
  from mm_malloc_ok [OF assms(1) this, of 8 4] show ?thesis
    using assms by (cases "alloc_blocks 8 (brk s) bs") (auto simp: malloc_spec_def small_def)
qed

lemma enc_zero: "enc32 0 ! 0 = NUL" "enc64 0 ! 0 = NUL"
  by (simp_all add: enc64_def enc32_def char_of_def)

lemma dec32_text: "dec32 (replicate 4 (CHR ''x'')) \<noteq> 0"
proof
  assume "dec32 (replicate 4 (CHR ''x'')) = 0"
  then have "enc32 0 = replicate 4 (CHR ''x'')" using enc32_dec32 [of "replicate 4 (CHR ''x'')"] by simp
  then show False using enc_zero by simp
qed

lemma data_changed:
  assumes "m 4136 = NUL"
  shows "rd m 4120 40 \<noteq> replicate 40 (CHR ''x'')"
proof
  assume e: "rd m 4120 40 = replicate 40 (CHR ''x'')"
  have "rd m 4120 40 ! 16 = m 4136" by (simp add: rd_def)
  then show False using assms unfolding e by simp
qed

text \<open>Three blocks are allocated and the first two freed: the last one's \<open>prev\<close> is stale.\<close>

lemma stale_after_free:
  "\<exists>sa sb sc s1 s2.
     mm_malloc small 4 8 empty_heap = Inr (4120, sa) \<and> mm_malloc small 4 8 sa = Inr (4152, sb) \<and>
     mm_malloc small 4 8 sb = Inr (4184, sc) \<and> mm_free 4120 sc = Inr s1 \<and> mm_free 4152 s1 = Inr s2 \<and>
     heap_ok s2 [(4096, 40, True), (4160, 8, False)] \<and> m_prev (md s2 4160) = 4128 \<and> brk s2 = 4192"
proof -
  define a :: block where "a = (4096, 8, False)"
  define b :: block where "b = (4128, 8, False)"
  define c :: block where "c = (4160, 8, False)"
  note blocks = a_def b_def c_def
  have "brk empty_heap = 4096" by (simp add: empty_heap_def)
  then obtain sa where sa: "mm_malloc small 4 8 empty_heap = Inr (4120, sa)" "heap_ok sa [a]" "prevs sa 0 [a]"
    "brk sa = 4128"
    using small_malloc [OF empty_heap_ok(1)] by (auto simp: blocks)
  obtain sb where sb: "mm_malloc small 4 8 sa = Inr (4152, sb)" "heap_ok sb [a, b]" "prevs sb 0 [a, b]" "brk sb = 4160"
    using small_malloc [OF sa(2,3)] sa(4) by (auto simp: blocks)
  obtain sc where sc: "mm_malloc small 4 8 sb = Inr (4184, sc)" "heap_ok sc [a, b, c]" "prevs sc 0 [a, b, c]"
    "brk sc = 4192"
    using small_malloc [OF sb(2,3)] sb(4) by (auto simp: blocks)
  obtain s1 where s1: "mm_free 4120 sc = Inr s1" "heap_ok s1 [(4096, 8, True), b, c]"
    "prevs s1 0 [(4096, 8, True), b, c]" "brk s1 = 4192"
    using mm_free_ok [of sc "[]" 4096 8 "[b, c]"] sc
    by (auto simp: blocks free_blocks_def goes_stale_def free_head_def)
  obtain s2 where s2: "mm_free 4152 s1 = Inr s2" "heap_ok s2 [(4096, 40, True), c]" "m_prev (md s2 4160) = 4128"
    "brk s2 = 4192"
    using mm_free_ok [of s1 "[(4096, 8, True)]" 4128 8 "[c]"] s1
    by (auto simp: blocks free_blocks_def goes_stale_def free_head_def)
  show ?thesis using sa(1) sb(1) sc(1) s1(1) s2 unfolding c_def by blast
qed

text \<open>The room of the first two is handed out again, with the stale pointer as it was.\<close>

lemma stale_after_malloc:
  assumes "heap_ok s2 [(4096, 40, True), (4160, 8, False)]" "m_prev (md s2 4160) = 4128" "brk s2 = 4192"
  shows "\<exists>s3. mm_malloc small 4 40 s2 = Inr (4120, s3) \<and> m_prev (md s3 4160) = 4128 \<and> m_next (md s3 4160) = 0 \<and>
    brk s3 = 4192 \<and> startOfMem s3 = Some 4096"
proof -
  have m2: "startOfMem s2 = Some 4096" "m_size (md s2 4096) = 40" "m_free (md s2 4096) \<noteq> 0" "m_next (md s2 4096) = 4160"
    "m_next (md s2 4160) = 0"
    using assms(1) by (auto simp: heap_ok_def split: option.splits)
  note run = sizeof_metadata_def in_heap_def Let_def
  define s3 where "s3 = up_zero 4120 40 (up_size 4096 40 (up_free 4096 0 s2))"
  have m3: "m_prev (md s3 4160) = 4128" "m_next (md s3 4160) = 0" "brk s3 = 4192" "startOfMem s3 = Some 4096"
    "md s3 4096 = (md s2 4096)\<lparr>m_free := 0, m_size := 40\<rparr>"
    using assms(2,3) m2 by (simp_all add: s3_def apart_def)
  have "malloc_walk small 4 0 4096 40 s2 = malloc_fit 4096 40 s2"
    using malloc_walk.simps(2) [of small 3 0 4096 40 s2] m2 assms(3) by (simp add: run del: malloc_walk.simps)
  then have "mm_malloc small 4 40 s2 = Inr (4120, s3)"
    using m2 m3 assms(3) by (simp add: mm_malloc_def malloc_fit_def run add64_def flip: s3_def)
  then show ?thesis using m3 by blast
qed

text \<open>Freeing the last block then follows the pointer into the data of the block in front.\<close>

lemma stale_free_writes:
  assumes "m_prev (md s3 4160) = 4128" "m_next (md s3 4160) = 0" "brk s3 = 4192" "startOfMem s3 = Some 4096"
  shows "\<exists>s4. mm_free 4184 (s3\<lparr>bytes := wr (bytes s3) 4120 (replicate 40 (CHR ''x''))\<rparr>) = Inr s4 \<and>
    rd (bytes s4) 4120 40 \<noteq> replicate 40 (CHR ''x'')"
proof -
  note run = sizeof_metadata_def in_heap_def Let_def
  define t where "t = s3\<lparr>bytes := wr (bytes s3) 4120 (replicate 40 (CHR ''x''))\<rparr>"
  have f: "brk t = 4192" "startOfMem t = Some 4096" using assms by (simp_all add: t_def)
  have tc: "m_prev (md t 4160) = 4128" "m_next (md t 4160) = 0" using assms by (simp_all add: t_def md_def)
  have "m_free (md t 4128) = dec32 (replicate 4 (CHR ''x''))"
    by (simp add: t_def md_def rd_wr_inside)
  moreover note dec32_text
  ultimately have tb: "m_free (md t 4128) \<noteq> 0" by simp
  define t2 where "t2 = up_next 4128 0 (up_size 4128 (m_size (md t 4128) + (m_size (md t 4160) + 24)) t)"
  have "apart 4128 4160" "apart 4160 4128" by (simp_all add: apart_def)
  then have mp: "merge_prev 4160 t = Inr (4128, t2)" and n2: "m_next (md t2 4128) = 0"
    and f2: "brk t2 = 4192" "startOfMem t2 = Some 4096"
    using tc tb f by (simp_all add: merge_prev_def t2_def run)
  have "mm_free 4184 t = Inr (up_free 4128 1 t2)"
    by (simp add: mm_free_def merge_next_def run mp n2 f2)
  moreover have "bytes (up_free 4128 1 t2) 4136 = NUL" by (simp add: t2_def up_free_def up_next_def wr_def enc_zero)
  then have "rd (bytes (up_free 4128 1 t2)) 4120 40 \<noteq> replicate 40 (CHR ''x'')" by (rule data_changed)
  ultimately show ?thesis unfolding t_def by blast
qed

text \<open>C34. The stale pointer makes a later mm_free write into live data.  Three blocks are
  allocated, the first two are freed and merge, and their room is handed out again and filled
  by its owner; freeing the third block then takes 24 bytes of that data for a struct and
  changes them.\<close>

theorem mm_free_corrupts:
  "\<exists>sa sb sc s1 s2 s3 s4.
     mm_malloc small 4 8 empty_heap = Inr (4120, sa) \<and> mm_malloc small 4 8 sa = Inr (4152, sb) \<and>
     mm_malloc small 4 8 sb = Inr (4184, sc) \<and>
     mm_free 4120 sc = Inr s1 \<and> mm_free 4152 s1 = Inr s2 \<and> mm_malloc small 4 40 s2 = Inr (4120, s3) \<and>
     mm_free 4184 (s3\<lparr>bytes := wr (bytes s3) 4120 (replicate 40 (CHR ''x''))\<rparr>) = Inr s4 \<and>
     rd (bytes s4) 4120 40 \<noteq> replicate 40 (CHR ''x'')"
  using stale_after_free stale_after_malloc stale_free_writes by blast

end
