(* ===== verification/AllocClient.thy ===== *)
theory AllocClient
  imports AllocProps
begin

text \<open>
  The allocator as a program sees it: the contract of an allocator as a locale, what a client that
  allocates, fills and frees blocks in any order may rely on, and the interpretation on
  \<open>mm_malloc\<close> and \<open>mm_free\<close>.
\<close>

section \<open>The contract\<close>

text \<open>
  A client knows its blocks by their addresses and remembers what it has written to them.  A
  request that is refused gives it nothing.
\<close>

datatype client_op = Request nat | Release nat | Fill nat string

type_synonym contents = "nat \<Rightarrow> string option"

fun client_step ::
    "(nat \<Rightarrow> 's \<Rightarrow> (nat \<times> 's) result) \<Rightarrow> (nat \<Rightarrow> 's \<Rightarrow> 's result) \<Rightarrow> (nat \<Rightarrow> string \<Rightarrow> 's \<Rightarrow> 's result) \<Rightarrow>
     client_op \<Rightarrow> contents \<times> 's \<Rightarrow> (contents \<times> 's) result" where
  "client_step alloc free fill (Request n) (m, s) =
     andthen (alloc n s) (\<lambda>(a, s). Inr (if a = 0 then m else m(a \<mapsto> replicate n NUL), s))"
| "client_step alloc free fill (Release a) (m, s) = andthen (free a s) (\<lambda>s. Inr (m(a := None), s))"
| "client_step alloc free fill (Fill a bs) (m, s) = andthen (fill a bs s) (\<lambda>s. Inr (m(a \<mapsto> bs), s))"

primrec client_run ::
    "(client_op \<Rightarrow> contents \<times> 's \<Rightarrow> (contents \<times> 's) result) \<Rightarrow> client_op list \<Rightarrow> contents \<times> 's \<Rightarrow>
     (contents \<times> 's) result" where
  "client_run step [] ms = Inr ms"
| "client_run step (op # ops) ms = andthen (step op ms) (client_run step ops)"

text \<open>
  What a client may do: ask for any number of bytes below a limit, release a block it has, at a
  moment the allocator permits, and overwrite the bytes of a block.
\<close>

fun client_may :: "nat \<Rightarrow> ('s \<Rightarrow> nat \<Rightarrow> bool) \<Rightarrow> client_op \<Rightarrow> contents \<times> 's \<Rightarrow> bool" where
  "client_may limit freeable (Request n) (m, s) \<longleftrightarrow> n < limit"
| "client_may limit freeable (Release a) (m, s) \<longleftrightarrow> m a \<noteq> None \<and> freeable s a"
| "client_may limit freeable (Fill a bs) (m, s) \<longleftrightarrow> map_option length (m a) = Some (length bs)"

primrec client_ok ::
    "(client_op \<Rightarrow> contents \<times> 's \<Rightarrow> bool) \<Rightarrow> (client_op \<Rightarrow> contents \<times> 's \<Rightarrow> (contents \<times> 's) result) \<Rightarrow>
     client_op list \<Rightarrow> contents \<times> 's \<Rightarrow> bool" where
  "client_ok may step [] ms \<longleftrightarrow> True"
| "client_ok may step (op # ops) ms \<longleftrightarrow>
     may op ms \<and> (case step op ms of Inl _ \<Rightarrow> True | Inr ms \<Rightarrow> client_ok may step ops ms)"

text \<open>The blocks are apart from one another.\<close>

definition blocks_apart :: "(nat \<Rightarrow> nat option) \<Rightarrow> bool" where
  "blocks_apart sizes \<longleftrightarrow>
     (\<forall>a b n m. sizes a = Some n \<longrightarrow> sizes b = Some m \<longrightarrow> a \<noteq> b \<longrightarrow> a + n \<le> b \<or> b + m \<le> a)"

locale allocator =
  fixes alloc :: "nat \<Rightarrow> 's \<Rightarrow> (nat \<times> 's) result" and free :: "nat \<Rightarrow> 's \<Rightarrow> 's result"
    and fill :: "nat \<Rightarrow> string \<Rightarrow> 's \<Rightarrow> 's result" and look :: "'s \<Rightarrow> nat \<Rightarrow> nat \<Rightarrow> string"
    and holds :: "'s \<Rightarrow> (nat \<Rightarrow> nat option) \<Rightarrow> bool" and freeable :: "'s \<Rightarrow> nat \<Rightarrow> bool" and limit :: nat
  assumes apart: "holds s sizes \<Longrightarrow> blocks_apart sizes"
    and alloc_law: "holds s sizes \<Longrightarrow> n < limit \<Longrightarrow>
      alloc n s = Inr (0, s) \<or>
      (\<exists>a s'. alloc n s = Inr (a, s') \<and> a \<noteq> 0 \<and> sizes a = None \<and> holds s' (sizes(a \<mapsto> n)) \<and>
        look s' a n = replicate n NUL \<and> (\<forall>b m. sizes b = Some m \<longrightarrow> look s' b m = look s b m))"
    and free_law: "holds s sizes \<Longrightarrow> sizes a = Some n \<Longrightarrow> freeable s a \<Longrightarrow>
      \<exists>s'. free a s = Inr s' \<and> holds s' (sizes(a := None)) \<and>
        (\<forall>b m. sizes b = Some m \<longrightarrow> b \<noteq> a \<longrightarrow> look s' b m = look s b m)"
    and fill_law: "holds s sizes \<Longrightarrow> sizes a = Some (length bs) \<Longrightarrow>
      \<exists>s'. fill a bs s = Inr s' \<and> holds s' sizes \<and> look s' a (length bs) = bs \<and>
        (\<forall>b m. sizes b = Some m \<longrightarrow> b \<noteq> a \<longrightarrow> look s' b m = look s b m)"
begin

definition remembers :: "contents \<Rightarrow> 's \<Rightarrow> bool" where
  "remembers m s \<longleftrightarrow> holds s (map_option length \<circ> m) \<and> (\<forall>a bs. m a = Some bs \<longrightarrow> look s a (length bs) = bs)"

lemma sizes_upd:
  "map_option length \<circ> m(a \<mapsto> bs) = (map_option length \<circ> m)(a \<mapsto> length bs)"
  "map_option length \<circ> m(a := None) = (map_option length \<circ> m)(a := None)"
  by auto

lemma step_remembers:
  assumes "remembers m s" "client_may limit freeable op (m, s)"
  shows "\<exists>m' s'. client_step alloc free fill op (m, s) = Inr (m', s') \<and> remembers m' s'"
proof (cases op)
  case (Request n)
  have h: "holds s (map_option length \<circ> m)" and l: "\<And>a bs. m a = Some bs \<Longrightarrow> look s a (length bs) = bs"
    using assms(1) by (auto simp: remembers_def)
  from alloc_law [OF h, of n] assms(2) Request
  consider "alloc n s = Inr (0, s)"
    | a s' where "alloc n s = Inr (a, s')" "a \<noteq> 0" "holds s' ((map_option length \<circ> m)(a \<mapsto> n))"
      "look s' a n = replicate n NUL" "\<And>b bs. m b = Some bs \<Longrightarrow> look s' b (length bs) = look s b (length bs)"
    by auto
  then show ?thesis
  proof cases
    case 1
    then show ?thesis using Request assms(1) by auto
  next
    case (2 a s')
    then have "remembers (m(a \<mapsto> replicate n NUL)) s'" using l by (auto simp: remembers_def sizes_upd)
    then show ?thesis using 2(1,2) Request by auto
  qed
next
  case (Release a)
  then obtain bs where "m a = Some bs" "freeable s a" using assms(2) by auto
  then obtain s' where "free a s = Inr s'" "holds s' ((map_option length \<circ> m)(a := None))"
    "\<And>b bs. m b = Some bs \<Longrightarrow> b \<noteq> a \<Longrightarrow> look s' b (length bs) = look s b (length bs)"
    using free_law [of s "map_option length \<circ> m" a] assms(1) by (auto simp: remembers_def)
  then show ?thesis using Release assms(1) by (auto simp: remembers_def sizes_upd)
next
  case (Fill a bs)
  then have "(map_option length \<circ> m) a = Some (length bs)" using assms(2) by simp
  then obtain s' where s': "fill a bs s = Inr s'" "holds s' (map_option length \<circ> m)" "look s' a (length bs) = bs"
    "\<And>b bs. m b = Some bs \<Longrightarrow> b \<noteq> a \<Longrightarrow> look s' b (length bs) = look s b (length bs)"
    using fill_law [of s "map_option length \<circ> m" a bs] assms(1) by (auto simp: remembers_def)
  have "(map_option length \<circ> m)(a \<mapsto> length bs) = map_option length \<circ> m"
    using \<open>(map_option length \<circ> m) a = Some (length bs)\<close> by (rule fun_upd_idem)
  then have "remembers (m(a \<mapsto> bs)) s'" using s' assms(1) by (auto simp: remembers_def sizes_upd)
  then show ?thesis using Fill s'(1) by auto
qed

lemma run_remembers:
  "remembers (fst ms) (snd ms) \<Longrightarrow> client_ok (client_may limit freeable) (client_step alloc free fill) ops ms \<Longrightarrow>
   \<exists>ms'. client_run (client_step alloc free fill) ops ms = Inr ms' \<and> remembers (fst ms') (snd ms')"
proof (induction ops arbitrary: ms)
  case Nil
  then show ?case by simp
next
  case (Cons op ops)
  obtain m s where ms: "ms = (m, s)" by fastforce
  obtain m' s' where "client_step alloc free fill op (m, s) = Inr (m', s')" "remembers m' s'"
    using step_remembers [of m s op] Cons.prems by (auto simp: ms)
  then show ?case using Cons.IH [of "(m', s')"] Cons.prems(2) by (auto simp: ms)
qed

lemma remembers_apart: "remembers m s \<Longrightarrow> blocks_apart (map_option length \<circ> m)"
  by (auto simp: remembers_def intro: apart)

end


section \<open>The allocator of the repository\<close>

text \<open>A program that stores into a block of its own.\<close>

definition mm_fill :: "nat \<Rightarrow> string \<Rightarrow> mem \<Rightarrow> mem result" where
  "mm_fill a bs s =
     (if in_heap s a (length bs) then Inr (s\<lparr>bytes := wr (bytes s) a bs\<rparr>) else Inl Overrun)"

text \<open>Every block has a struct of 24 bytes, so that fewer than \<open>2 ^ 32\<close> of them fit the heap.\<close>

definition walk_fuel :: nat where "walk_fuel = 4294967296"

text \<open>The kernel keeps the break in a region of less than 4 GB above \<open>low\<close>.\<close>

definition grant_within :: "(nat \<Rightarrow> nat \<Rightarrow> bool) \<Rightarrow> nat \<Rightarrow> bool" where
  "grant_within grant low \<longleftrightarrow>
     (\<forall>b n. grant b n \<longrightarrow> 0 < b \<and> low \<le> b \<and> b + n < low + 4294967296 \<and> b + n < 9223372036854775808)"

definition heap_holds :: "(nat \<Rightarrow> nat \<Rightarrow> bool) \<Rightarrow> nat \<Rightarrow> mem \<Rightarrow> (nat \<Rightarrow> nat option) \<Rightarrow> bool" where
  "heap_holds grant low s sizes \<longleftrightarrow> grant_within grant low \<and>
     (\<exists>bs. heap_ok s bs \<and> prevs s 0 bs \<and> (\<forall>x \<in> set bs. low \<le> fst x) \<and>
           (\<forall>a n. sizes a = Some n \<longleftrightarrow> (\<exists>b. a = b + 24 \<and> (b, n) \<in> in_use bs)))"

text \<open>The moments at which freeing a block leaves all \<open>prev\<close> pointers right.\<close>

definition may_free :: "mem \<Rightarrow> nat \<Rightarrow> bool" where
  "may_free s a \<longleftrightarrow>
     (\<exists>xs n ys. heap_ok s (xs @ (a - 24, n, False) # ys) \<and> \<not> goes_stale xs ys)"

lemma seg_unique: "seg s a bs 0 lim \<Longrightarrow> seg s a bs' 0 lim \<Longrightarrow> bs = bs'"
proof (induction bs arbitrary: a bs')
  case Nil
  then show ?case by (cases bs') auto
next
  case (Cons x bs)
  obtain y bs'' where y: "bs' = y # bs''" using Cons.prems by (cases x; cases bs') auto
  show ?case using Cons.prems Cons.IH [of "m_next (md s a)" bs''] unfolding y by (cases x; cases y) auto
qed

lemma heap_unique: "heap_ok s bs \<Longrightarrow> heap_ok s bs' \<Longrightarrow> bs = bs'"
  by (auto simp: heap_ok_def split: option.splits dest: seg_unique)

lemma seg_length: "seg s a bs 0 lim \<Longrightarrow> bs \<noteq> [] \<Longrightarrow> a + 24 * length bs \<le> lim"
proof (induction bs arbitrary: a)
  case (Cons x bs)
  then show ?case by (cases x; cases bs) fastforce+
qed simp

lemma heap_length:
  assumes "heap_ok s bs"
  shows "length bs < walk_fuel"
proof (cases "startOfMem s")
  case (Some base)
  then have "base + 24 * length bs \<le> brk s" "brk s < base + 4294967296"
    using assms seg_length by (fastforce simp: heap_ok_def)+
  then show ?thesis unfolding walk_fuel_def by linarith
qed (use assms in \<open>simp add: heap_ok_def walk_fuel_def\<close>)

lemma heap_below_brk:
  assumes "heap_ok s bs" "(b, n, f) \<in> set bs"
  shows "b + 24 + n \<le> brk s" "0 < b"
proof -
  obtain xs ys where "bs = xs @ (b, n, f) # ys" using assms(2) by (meson split_list)
  then show "b + 24 + n \<le> brk s" "0 < b" using assms(1) heap_split [of s xs b n f ys] by auto
qed

lemma heap_holds_grant:
  assumes "grant_within grant low" "heap_ok s bs" "\<forall>x \<in> set bs. low \<le> fst x"
  shows "grant_ok grant s"
proof (cases bs)
  case Nil
  then have "startOfMem s = None" using assms(2) by (auto simp: heap_ok_def split: option.splits)
  then show ?thesis using assms(1) by (fastforce simp: grant_ok_def grant_within_def)
next
  case (Cons x xs)
  then have "startOfMem s = Some (fst x)" "low \<le> fst x" using heap_start [OF assms(2)] assms(3) by auto
  then show ?thesis using assms(1) by (fastforce simp: grant_ok_def grant_within_def)
qed

lemma in_use_at: "(b, n) \<in> in_use bs \<Longrightarrow> (b, n, False) \<in> set bs"
  by (simp add: in_use_def)

text \<open>The laws.\<close>

lemma holds_apart:
  assumes "heap_holds grant low s sizes"
  shows "blocks_apart sizes"
  unfolding blocks_apart_def
proof (intro allI impI)
  fix a b n m
  assume s: "sizes a = Some n" "sizes b = Some m" "a \<noteq> b"
  obtain bs where bs: "heap_ok s bs" "\<forall>a n. sizes a = Some n \<longleftrightarrow> (\<exists>b. a = b + 24 \<and> (b, n) \<in> in_use bs)"
    using assms by (auto simp: heap_holds_def)
  obtain c d where "a = c + 24" "(c, n, False) \<in> set bs" "b = d + 24" "(d, m, False) \<in> set bs"
    using s(1,2) bs(2) in_use_at by blast
  then show "a + n \<le> b \<or> b + m \<le> a" using heap_disjoint [OF bs(1)] s(3) by fastforce
qed

lemma alloc_heads:
  "alloc_blocks sz lim bs = (bs', a) \<Longrightarrow> x \<in> set bs' \<Longrightarrow> low \<le> lim \<Longrightarrow> \<forall>x \<in> set bs. low \<le> fst x \<Longrightarrow> low \<le> fst x"
proof (induction sz lim bs arbitrary: bs' a rule: alloc_blocks.induct)
  case (2 sz lim b n f bs)
  then show ?case by (auto simp: Let_def split: if_splits prod.splits)
qed auto

lemma holds_alloc:
  assumes "heap_holds grant low s sizes" "n < 9223372036854775808"
  shows "mm_malloc grant walk_fuel n s = Inr (0, s) \<or>
    (\<exists>a s'. mm_malloc grant walk_fuel n s = Inr (a, s') \<and> a \<noteq> 0 \<and> sizes a = None \<and>
      heap_holds grant low s' (sizes(a \<mapsto> n)) \<and> rd (bytes s') a n = replicate n NUL \<and>
      (\<forall>b m. sizes b = Some m \<longrightarrow> rd (bytes s') b m = rd (bytes s) b m))"
proof -
  obtain bs where bs: "grant_within grant low" "heap_ok s bs" "prevs s 0 bs" "\<forall>x \<in> set bs. low \<le> fst x"
    "\<forall>a n. sizes a = Some n \<longleftrightarrow> (\<exists>b. a = b + 24 \<and> (b, n) \<in> in_use bs)"
    using assms(1) by (auto simp: heap_holds_def)
  obtain bs' a where al: "alloc_blocks n (brk s) bs = (bs', a)" by fastforce
  consider "n = 0" | "need n bs \<noteq> 0 \<and> \<not> grant (brk s) (need n bs)" "n \<noteq> 0"
    | "need n bs = 0 \<or> grant (brk s) (need n bs)" "n \<noteq> 0" by argo
  then show ?thesis
  proof cases
    case 3
    note spec = mm_malloc_ok [OF bs(2) heap_holds_grant [OF bs(1,2,4)] _ assms(2) heap_length [OF bs(2)]]
    obtain s' where s': "mm_malloc grant walk_fuel n s = Inr (a + 24, s')" "heap_ok s' bs'"
      "rd (bytes s') (a + 24) n = replicate n NUL" "kept s s' bs" "prevs s' 0 bs'"
      using spec 3 bs(3) by (auto simp: malloc_spec_def al split: if_splits)
    have low: "low \<le> brk s"
    proof (cases bs)
      case Nil
      then show ?thesis using bs(1) 3 by (auto simp: grant_within_def)
    next
      case (Cons x xs)
      then show ?thesis using bs(4) heap_below_brk [OF bs(2), of "fst x" "fst (snd x)" "snd (snd x)"] by auto
    qed
    have "\<forall>(b, n, f) \<in> set bs. b < brk s" using heap_below_brk [OF bs(2)] by fastforce
    then have apart: "b + 24 + m \<le> a \<or> a + 24 + n \<le> b" if "(b, m) \<in> in_use bs" for b m
      using alloc_apart [OF al bs(2) s'(2) _ that] by blast
    then have fresh: "(a, m) \<notin> in_use bs" for m by fastforce
    have "(sizes(a + 24 \<mapsto> n)) c = Some m \<longleftrightarrow> (\<exists>b. c = b + 24 \<and> (b, m) \<in> in_use bs')" for c m
      using bs(5) in_use_alloc [OF al] fresh by auto
    then have "heap_holds grant low s' (sizes(a + 24 \<mapsto> n))"
      using bs(1) s'(2,5) alloc_heads [OF al _ low bs(4)] unfolding heap_holds_def by blast
    moreover have "sizes (a + 24) = None" using bs(5) fresh by (cases "sizes (a + 24)") auto
    moreover have "rd (bytes s') b m = rd (bytes s) b m" if "sizes b = Some m" for b m
      using bs(5) that s'(4) in_use_at by (fastforce simp: kept_def)
    ultimately show ?thesis using s'(1,3) by simp
  qed (use mm_malloc_ok [OF bs(2) heap_holds_grant [OF bs(1,2,4)] _ assms(2) heap_length [OF bs(2)]]
    in \<open>auto simp: mm_malloc_def malloc_spec_def\<close>)
qed

lemma in_use_merge_right: "in_use (merge_right x ys) = in_use ys"
  by (induction x ys rule: merge_right.induct) simp_all

lemma in_use_freed: "in_use (free_blocks xs x ys) = in_use (xs @ ys)"
proof (cases "xs \<noteq> [] \<and> snd (snd (last xs))")
  case True
  then obtain zs b n where "xs = zs @ [(b, n, True)]" by (cases xs rule: rev_cases) auto
  then show ?thesis by (simp add: free_blocks_def in_use_merge_right)
qed (auto simp: free_blocks_def in_use_merge_right)

lemma freed_heads:
  "y \<in> set (free_blocks xs x ys) \<Longrightarrow> \<forall>y \<in> set (xs @ x # ys). low \<le> fst y \<Longrightarrow> low \<le> fst y"
proof -
  have m: "y \<in> set (merge_right x ys) \<Longrightarrow> fst y = fst x \<or> y \<in> set ys" for x
    by (induction x ys rule: merge_right.induct) auto
  show "y \<in> set (free_blocks xs x ys) \<Longrightarrow> \<forall>y \<in> set (xs @ x # ys). low \<le> fst y \<Longrightarrow> low \<le> fst y"
    by (auto simp: free_blocks_def split: if_splits dest!: m dest: in_set_butlastD)
qed

lemma holds_free:
  assumes "heap_holds grant low s sizes" "sizes a = Some n" "may_free s a"
  shows "\<exists>s'. mm_free a s = Inr s' \<and> heap_holds grant low s' (sizes(a := None)) \<and>
    (\<forall>b m. sizes b = Some m \<longrightarrow> b \<noteq> a \<longrightarrow> rd (bytes s') b m = rd (bytes s) b m)"
proof -
  obtain bs where bs: "grant_within grant low" "heap_ok s bs" "prevs s 0 bs" "\<forall>x \<in> set bs. low \<le> fst x"
    "\<forall>a n. sizes a = Some n \<longleftrightarrow> (\<exists>b. a = b + 24 \<and> (b, n) \<in> in_use bs)"
    using assms(1) by (auto simp: heap_holds_def)
  obtain b where a: "a = b + 24" "(b, n) \<in> in_use bs" using bs(5) assms(2) by blast
  obtain xs k ys where "heap_ok s (xs @ (b, k, False) # ys)" and st: "\<not> goes_stale xs ys"
    using assms(3) a(1) by (auto simp: may_free_def)
  then have e: "bs = xs @ (b, k, False) # ys" using heap_unique bs(2) by blast
  have "m_prev (md s b) = last_addr 0 xs" using bs(3) by (simp add: e prevs_append)
  from mm_free_ok [OF bs(2) [unfolded e] this]
  obtain s' where s': "mm_free a s = Inr s'" "heap_ok s' (free_blocks xs (b, k, False) ys)" "kept s s' (xs @ ys)"
    "prevs s' 0 (free_blocks xs (b, k, False) ys)"
    using bs(3) st by (auto simp: e a(1))
  have ne: "(c, m, f) \<in> set (xs @ ys) \<Longrightarrow> c \<noteq> b" for c m f
    by (rule heap_split [OF bs(2) [unfolded e]]) fastforce
  then have "(b, m) \<notin> in_use (xs @ ys)" for m using in_use_at by blast
  then have "\<forall>c m. (sizes(a := None)) c = Some m \<longleftrightarrow>
      (\<exists>d. c = d + 24 \<and> (d, m) \<in> in_use (free_blocks xs (b, k, False) ys))"
    using bs(5) a(1) by (auto simp: e in_use_freed)
  moreover have "\<forall>x \<in> set (free_blocks xs (b, k, False) ys). low \<le> fst x"
    using freed_heads [of _ xs "(b, k, False)" ys low] bs(4) by (simp add: e)
  ultimately have "heap_holds grant low s' (sizes(a := None))"
    unfolding heap_holds_def using bs(1) s'(2,4) by (intro conjI exI [of _ "free_blocks xs (b, k, False) ys"])
  moreover have "rd (bytes s') c m = rd (bytes s) c m" if "sizes c = Some m" "c \<noteq> a" for c m
  proof -
    obtain d where "c = d + 24" "(d, m) \<in> in_use bs" using bs(5) \<open>sizes c = Some m\<close> by blast
    then have "(d, m, False) \<in> set (xs @ ys)" using \<open>c \<noteq> a\<close> a(1) in_use_at [of d m bs] by (auto simp: e)
    then show ?thesis using bspec [OF s'(3) [unfolded kept_def]] \<open>c = d + 24\<close> by fastforce
  qed
  ultimately show ?thesis using s'(1) by (intro exI [of _ s']) simp
qed

lemma wr_empty: "wr m a [] = m"
  by (rule ext) (auto simp: wr_def)

lemma holds_fill:
  assumes "heap_holds grant low s sizes" "sizes a = Some (length ds)"
  shows "\<exists>s'. mm_fill a ds s = Inr s' \<and> heap_holds grant low s' sizes \<and> rd (bytes s') a (length ds) = ds \<and>
    (\<forall>b m. sizes b = Some m \<longrightarrow> b \<noteq> a \<longrightarrow> rd (bytes s') b m = rd (bytes s) b m)"
proof -
  obtain bs where bs: "grant_within grant low" "heap_ok s bs" "prevs s 0 bs" "\<forall>x \<in> set bs. low \<le> fst x"
    "\<forall>a n. sizes a = Some n \<longleftrightarrow> (\<exists>b. a = b + 24 \<and> (b, n) \<in> in_use bs)"
    using assms(1) by (auto simp: heap_holds_def)
  obtain b where a: "a = b + 24" "(b, length ds, False) \<in> set bs" using bs(5) assms(2) in_use_at by blast
  define s' where "s' = s\<lparr>bytes := wr (bytes s) a ds\<rparr>"
  have "in_heap s a (length ds)"
  proof -
    obtain base where "startOfMem s = Some base" "seg s base bs 0 (brk s)"
      using bs(2) a(2) by (auto simp: heap_ok_def split: option.splits)
    then show ?thesis using seg_all [of s base bs 0 "brk s"] a by (fastforce simp: in_heap_def)
  qed
  then have run: "mm_fill a ds s = Inr s'" by (simp add: mm_fill_def s'_def)
  have md: "md s' (fst y) = md s (fst y)" if "y \<in> set bs" for y
  proof (cases "ds = []")
    case False
    have "length ds = 0 \<or> a + length ds \<le> fst y \<or> fst y + 24 \<le> a"
      using heap_payload [OF bs(2) a(2) _ _ that, of a] heap_payload [OF bs(2) a(2) _ _ that, of "fst y"] a(1)
      by (cases "length ds") fastforce+
    then show ?thesis using False by (auto simp: s'_def md_def)
  qed (simp add: s'_def wr_empty)
  have "startOfMem s' = startOfMem s" "brk s' = brk s" by (simp_all add: s'_def)
  then have "heap_ok s' bs" using bs(2) md seg_frame [of s _ bs 0 "brk s" s']
    by (auto simp: heap_ok_def split: option.splits)
  moreover have "prevs s' 0 bs" using bs(3) md prevs_cong [of bs s' s 0] by simp
  ultimately have "heap_holds grant low s' sizes" using bs(1,4,5) unfolding heap_holds_def by blast
  moreover have "rd (bytes s') c m = rd (bytes s) c m" if "sizes c = Some m" "c \<noteq> a" for c m
  proof -
    have "a + length ds \<le> c \<or> c + m \<le> a"
      using holds_apart [OF assms(1)] assms(2) that unfolding blocks_apart_def by blast
    then show ?thesis by (auto simp: s'_def)
  qed
  ultimately show ?thesis using run by (auto simp: s'_def)
qed

interpretation heap: allocator "mm_malloc grant walk_fuel" mm_free mm_fill "\<lambda>s. rd (bytes s)"
  "heap_holds grant low" may_free 9223372036854775808 for grant low
  by unfold_locales (rule holds_apart holds_alloc holds_free holds_fill; assumption)+

text \<open>C18. A program requests, fills and releases blocks, in any order, asking for less than 2^63
  bytes at a time, and releases only its own blocks and only when may_free holds: not while the
  block before is free and the one behind in use, the one case in which mm_free leaves a stale
  prev pointer (mm_free_correct) that later corrupts data (mm_free_corrupts).  Then mm_malloc and
  mm_free never fault and mm_malloc always returns; at the end of every such sequence every block
  the program has holds what it wrote to it last (or zeros), the blocks are apart from one
  another, and the heap knows exactly these blocks.\<close>

theorem alloc_client_safe:
  assumes "heap_holds grant low s (map_option length \<circ> m)"
    and "\<forall>a bs. m a = Some bs \<longrightarrow> rd (bytes s) a (length bs) = bs"
    and "client_ok (client_may 9223372036854775808 may_free)
           (client_step (mm_malloc grant walk_fuel) mm_free mm_fill) ops (m, s)"
  shows "\<exists>m' s'. client_run (client_step (mm_malloc grant walk_fuel) mm_free mm_fill) ops (m, s) = Inr (m', s') \<and>
    heap_holds grant low s' (map_option length \<circ> m') \<and>
    (\<forall>a bs. m' a = Some bs \<longrightarrow> rd (bytes s') a (length bs) = bs) \<and>
    blocks_apart (map_option length \<circ> m')"
proof -
  have "heap.remembers grant low m s" using assms(1,2) by (simp add: heap.remembers_def)
  then obtain m' s' where
    "client_run (client_step (mm_malloc grant walk_fuel) mm_free mm_fill) ops (m, s) = Inr (m', s')"
    "heap.remembers grant low m' s'"
    using heap.run_remembers [of _ _ "(m, s)"] assms(3) by fastforce
  then show ?thesis using heap.remembers_apart by (auto simp: heap.remembers_def)
qed

text \<open>The lowest block may be freed at any time.\<close>

lemma lowest_may_free:
  assumes "heap_holds grant low s sizes" "sizes (low + 24) = Some n"
  shows "may_free s (low + 24)"
proof -
  obtain bs where bs: "heap_ok s bs" "\<forall>x \<in> set bs. low \<le> fst x" "(low, n, False) \<in> set bs"
    using assms by (auto simp: heap_holds_def in_use_def)
  then obtain xs ys where e: "bs = xs @ (low, n, False) # ys" by (meson split_list)
  have "xs = []"
  proof (rule ccontr)
    assume "xs \<noteq> []"
    then have "hd xs \<in> set bs" by (simp add: e)
    then show False using heap_split [OF bs(1) [unfolded e]] bs(2) \<open>xs \<noteq> []\<close> by (cases xs) (fastforce simp: e)+
  qed
  then have "heap_ok s ([] @ (low + 24 - 24, n, False) # ys) \<and> \<not> goes_stale [] ys"
    using bs(1) by (simp add: e goes_stale_def free_head_def)
  then show ?thesis unfolding may_free_def by blast
qed

definition page :: "nat \<Rightarrow> nat \<Rightarrow> bool" where
  "page b n \<longleftrightarrow> 4096 \<le> b \<and> b + n \<le> 8192"

lemma page_request:
  "\<exists>s. mm_malloc page walk_fuel 8 empty_heap = Inr (4120, s) \<and> heap_holds page 4096 s [4120 \<mapsto> 8]"
proof -
  have g: "grant_within page 4096" by (simp add: grant_within_def page_def)
  then have "heap_holds page 4096 empty_heap Map.empty"
    using empty_heap_ok(1) by (simp add: heap_holds_def in_use_def exI [of _ "[]"])
  then have h: "mm_malloc page walk_fuel 8 empty_heap = Inr (0, empty_heap) \<or>
    (\<exists>a s. mm_malloc page walk_fuel 8 empty_heap = Inr (a, s) \<and> heap_holds page 4096 s [a \<mapsto> 8])"
    using holds_alloc [of page 4096 empty_heap Map.empty 8] by auto
  have "\<exists>s. mm_malloc page walk_fuel 8 empty_heap = Inr (4120, s)"
    using mm_malloc_ok [OF empty_heap_ok(1) heap_holds_grant [OF g empty_heap_ok(1)], of 8 walk_fuel]
    by (simp add: malloc_spec_def empty_heap_def page_def walk_fuel_def split: if_splits) blast
  then show ?thesis using h by auto
qed

theorem alloc_client_safe_witness:
  "\<exists>m' s'. client_run (client_step (mm_malloc page walk_fuel) mm_free mm_fill)
      [Request 8, Fill 4120 ''formally'', Release 4120] (Map.empty, empty_heap) = Inr (m', s') \<and>
    blocks_apart (map_option length \<circ> m')"
proof -
  obtain s where s: "mm_malloc page walk_fuel 8 empty_heap = Inr (4120, s)" "heap_holds page 4096 s [4120 \<mapsto> 8]"
    using page_request by blast
  obtain s' where s': "mm_fill 4120 ''formally'' s = Inr s'" "heap_holds page 4096 s' [4120 \<mapsto> 8]"
    using holds_fill [OF s(2), of 4120 "''formally''"] by auto
  have "may_free s' 4120" using lowest_may_free [OF s'(2), of 8] by simp
  then have "client_ok (client_may 9223372036854775808 may_free)
      (client_step (mm_malloc page walk_fuel) mm_free mm_fill)
      [Request 8, Fill 4120 ''formally'', Release 4120] (Map.empty, empty_heap)"
    using s(1) s'(1) by (simp split: sum.split)
  moreover have "heap_holds page 4096 empty_heap (map_option length \<circ> Map.empty)"
    using empty_heap_ok(1) by (simp add: heap_holds_def grant_within_def page_def in_use_def exI [of _ "[]"])
  moreover have "\<forall>a bs. (Map.empty :: contents) a = Some bs \<longrightarrow> rd (bytes empty_heap) a (length bs) = bs" by simp
  ultimately show ?thesis using alloc_client_safe [of page 4096 empty_heap Map.empty] by blast
qed

end
