(* ===== verification/Exercises.thy ===== *)
theory Exercises
  imports Prelude
begin

text \<open>
  The small programs: \<open>hw0/main.c\<close>, \<open>hw0/map.c\<close> and \<open>hw0/wc.c\<close>, and the functions of
  \<open>hw3/mm_alloc.c\<close>, which are not implemented there.  What a program prints is a list of formats
  with their arguments; addresses and what an uninitialised variable holds are parameters.
\<close>

type_synonym printed = "(string \<times> int list) list"

section \<open>hw0\<close>

definition limits_main :: "printed \<times> int" where
  "limits_main =
     ([(''stack size: %ld'' @ [NEWLINE], [0]),
       (''process limit: %ld'' @ [NEWLINE], [0]),
       (''max file descriptors: %ld'' @ [NEWLINE], [0])], 0)"

definition wc_main :: int where "wc_main = 0"

text \<open>\<open>recur\<close> prints, and calls itself as long as its argument is positive.\<close>

function recur :: "int \<Rightarrow> printed \<times> int" where
  "recur i =
     (let j = i; out = [(''recur call %d: stack@ %p'' @ [NEWLINE], [i, j])] in
      if i > 0 then (let (more, r) = recur (i - 1) in (out @ more, r)) else (out, 0))"
  by pat_completeness auto
termination by (relation "measure nat") auto

declare recur.simps [simp del]

definition stuff :: int where "stuff = 7"

definition map_main :: "int \<Rightarrow> int \<Rightarrow> int \<Rightarrow> int \<Rightarrow> int \<Rightarrow> printed \<times> int" where
  "map_main addr_main addr_recur i buf1 buf2 =
     (let out =
        [(''_main  @ %p'' @ [NEWLINE], [addr_main]),
         (''recur @ %p'' @ [NEWLINE], [addr_recur]),
         (''_main stack: %p'' @ [NEWLINE], [i]),
         (''static data: %p'' @ [NEWLINE], [stuff]),
         (''Heap: malloc 1: %p'' @ [NEWLINE], [buf1]),
         (''Heap: malloc 2: %p'' @ [NEWLINE], [buf2])];
        (more, r) = recur 3 in (out @ more, 0))"

lemma recur_counts_down:
  "recur (int n) = (map (\<lambda>k. (''recur call %d: stack@ %p'' @ [NEWLINE], [int (n - k), int (n - k)])) [0..<Suc n], 0)"
proof (induction n)
  case 0
  then show ?case by (simp add: recur.simps)
next
  case (Suc n)
  have "[0..<Suc (Suc n)] = 0 # map Suc [0..<Suc n]" by (simp add: map_Suc_upt upt_conv_Cons del: upt_Suc)
  then show ?case using Suc by (subst recur.simps) (simp add: comp_def del: upt_Suc)
qed


section \<open>The allocator of hw3\<close>

text \<open>NULL is 0.\<close>

definition stub_malloc :: "nat \<Rightarrow> nat" where "stub_malloc sz = 0"
definition stub_realloc :: "nat \<Rightarrow> nat \<Rightarrow> nat" where "stub_realloc ptr sz = 0"
definition stub_free :: "nat \<Rightarrow> 's \<Rightarrow> 's" where "stub_free ptr s = s"

end
