(* ===== verification/Spec2Isabelle.thy ===== *)
theory Spec2Isabelle
  imports PartialReads FsProps Startup ShellProps TokenMemory JobControl HttpProps UtForeach Threads AllocClient Exercises
begin

text \<open>
  \<^bold>\<open>A verification library for FUSE-using-Memcached\<close>

  The repository holds several C programs.  \<open>cachedfs\<close> is a FUSE file system that keeps everything
  in a memcached server: each operation of the FUSE table (\<open>main.c\<close>) is a conversation with the
  server through a small client (\<open>memcache.c\<close>).  \<open>hw1\<close> is a shell over a word splitter, \<open>hw2\<close>
  the parts of a threaded web server (request parser, work queue), \<open>malloc-master\<close> an
  allocator over \<open>sbrk\<close>; \<open>hw0\<close> and \<open>hw3\<close> are exercises.  The programs do
  not call each other; inside of \<open>cachedfs\<close> every layer
  calls the one below, and the theories follow that.

  \<^bold>\<open>Conventions\<close>  (\<open>Prelude\<close>)

  A C string, a message and a buffer are lists of \<open>char\<close>; a struct that goes over the wire is its
  byte image, read and written by \<open>peek\<close> and \<open>poke\<close> at the offsets of its fields.  \<open>int\<close> is a
  32-bit word.  Everything that can go wrong is a value: \<open>'a result\<close> is a fault or an \<open>'a\<close>, and an
  access outside of a buffer, through NULL, a missing \<open>return\<close>, a read that blocks for ever, an
  \<open>abort\<close> and exhausted fuel are different faults.  Memory the code does not initialise is taken
  from \<open>junk\<close>, an arbitrary function from the place in the program to bytes, over which the
  properties quantify.

  \<^bold>\<open>cachedfs, the client\<close>  (\<open>Memcache\<close>, \<open>CacheProps\<close>: \<open>memcache.c\<close>, \<open>memcache.h\<close>)

  \<open>cache_get\<close>, \<open>cache_set\<close> and \<open>cache_msg\<close> build the request text and take the answer apart byte by
  byte.  The server is not part of the repository: it is a parameter \<open>serve\<close> from a request to an
  answer and a new server state.  The locale \<open>memcached\<close> states what the protocol document says of
  it (get, set, delete, flush_all on a key-value store); it is interpreted as \<open>ref\<close> on the
  executable server \<open>ref_serve\<close>, which is what the witnesses run on.  In \<open>Memcache\<close> an answer has
  arrived whole when it is read; \<open>PartialReads\<close> has \<open>cache_get\<close> with answers that arrive in parts.

  \<^bold>\<open>cachedfs, the file system\<close>  (\<open>main.c\<close>)

  \<^item> \<open>Layout\<close>: \<open>struct header_struct\<close> and the keys: the header of a node is stored under its path,
    its \<open>n\<close>-th child slot, data bucket and attribute under the number and the path with a prefix
    of their own.
  \<^item> \<open>Nodes\<close>, \<open>FileIO\<close>, \<open>Xattr\<close>: the operations, statement by statement, under the names of the source.
    \<open>detach\<close> is the block \<open>hello_rmdir\<close> and \<open>hello_unlink\<close> have in common.
  \<^item> \<open>NodeRuns\<close>, \<open>FileRuns\<close>, \<open>XattrRuns\<close>: each operation as an equation between the store before and
    after it, on every branch that does not fault.
  \<^item> \<open>Namespace\<close>: nodes, children, the invariant \<open>fs_wf\<close>, and what adding, removing and overwriting do
    to them.
  \<^item> \<open>NodeProps\<close>, \<open>FileProps\<close>, \<open>XattrProps\<close>: the functional properties, the round trips, and the
    behaviours that go wrong: the size that is over-reported, the read behind the contents, the
    gap that is lost, the missing parent, the shadowed attribute.
  \<^item> \<open>StoreTypes\<close>: the types of the values in the store as the inductive relation \<open>stored\<close> from keys
    to values, what each array of the code has room for, and that every update keeps the typing.
  \<^item> \<open>FsSpec\<close>, \<open>FsRefine\<close>: the operation table \<open>hello_oper\<close> as one function from requests to
    answers; the abstract file system \<open>fs\<close> (directories with entries, files with contents, extended
    attributes); the relation \<open>fs_rep\<close>, and that each request is answered as the abstract one is.
  \<^item> \<open>Simulation\<close>, \<open>FsProps\<close>: the locale \<open>simulation\<close> lifts a step-wise refinement to sequences of
    calls; it is instantiated for the file system over any \<open>memcached\<close> server.  Reachability from
    \<open>hello_init\<close>, the tree invariant and the typing of the store follow.
  \<^item> \<open>Startup\<close>: \<open>cache_init\<close> and \<open>cache_close_sock\<close>, the options, \<open>show_help\<close> and \<open>main\<close>, with the
    socket calls and libfuse as parameters, and what the operations answer without a server.

  \<open>hello_read\<close> needs as much fuel as bytes are asked for, since every iteration delivers at least
  one; \<open>hello_write\<close> calls itself once, to fill a gap, and one unit is enough where there is none.
  The requests the refinement covers are those of \<open>request_ok\<close>: what the kernel can ask after its
  own lookups, inside of the 250-byte keys and the 32-bit counters; each request of a sequence has
  to meet it in the state its turn finds.  What happens outside of them is
  the subject of the separate properties named above.

  \<^bold>\<open>The shell\<close>  (\<open>Tokenizer\<close>, \<open>TokenizerProps\<close>: \<open>hw1/tokenizer.c\<close>; \<open>Shell\<close>, \<open>ShellProps\<close>: \<open>hw1/shell.c\<close>)

  The scanner is one step function over the three modes; a store behind its token array is a
  fault.  A grammar of lines, as a datatype of
  items with their text and their words, says what it should do.  The shell is a function from
  lines to events (what is executed, with which arguments and redirections); file existence,
  \<open>PATH\<close> and the success of \<open>open\<close> are parameters, and \<open>fork\<close> succeeds (\<open>JobControl\<close> has the other
  case).  \<open>shell_session\<close> is about whole sessions, with the prompts and the counter of background
  processes, an \<open>int\<close> that a session of fewer than \<open>2 ^ 31\<close> lines does not overflow.

  \<open>TokenMemory\<close> adds the allocations of \<open>tokenize\<close>, which do not influence its result, and
  \<open>tokens_destroy\<close>; freeing what is not allocated is a fault, and nothing is left over.  \<open>JobControl\<close>
  is the shell as a process among its children: \<open>job_step\<close> is the step relation of \<open>fork\<close>, which may
  fail, \<open>setpgid\<close>, \<open>tcsetpgrp\<close>, \<open>waitpid\<close>, \<open>wait\<close> and of what children do, who can be stopped and
  killed at any point and, if \<open>grabs\<close> says so, take the terminal themselves.  \<open>terminal_inv\<close> says
  who has the terminal, \<open>count_inv\<close> how \<open>numBack\<close>, the children and the failed forks are related;
  \<open>init_shell\<close> establishes the first when the shell leads its process group.  \<open>foreground_race\<close>,
  \<open>terminal_grabbed\<close> and \<open>terminal_lost\<close> are the ways in which the terminal ends up with the wrong
  group, \<open>fork_failure_counted\<close> what a failed \<open>fork\<close> does to the waiting.

  \<^bold>\<open>The web server\<close>  (\<open>Http\<close>, \<open>HttpProps\<close>: \<open>hw2/libhttp.c\<close>; \<open>UtList\<close>, \<open>UtHeap\<close>, \<open>UtLists\<close>, \<open>UtSort\<close>,
  \<open>UtListProps\<close>, \<open>UtForeach\<close>: \<open>hw2/utlist.h\<close>; \<open>WorkQueue\<close>, \<open>Threads\<close>: \<open>hw2/wq.c\<close>)

  The parser scans a buffer whose end is a fault.  The list macros work on a heap of items:
  \<open>UtHeap\<close> has the segments lists are made of and the three kinds of list, \<open>UtLists\<close> what each macro
  does to them.  The locale \<open>list_macros\<close> is the contract of one kind of list; it is interpreted for
  singly linked (\<open>ll\<close>), doubly linked (\<open>dl\<close>) and circular lists (\<open>cdl\<close>), and gives the refinement of
  sequences of operations.  The three sort macros have one text up to a few lines, which a
  \<open>flavour\<close> selects; \<open>pass\<close> is one pass of the merge sort on lists of addresses.  Loops over a list
  need one unit of fuel more than it has elements, and so does each pass of the sort, whose number
  of passes is at most that, too; run lengths are an \<open>int\<close>, which holds for lists of up to \<open>2 ^ 30\<close>
  elements.  \<open>UtForeach\<close> has the iterations whose body may delete the element, which are the
  sequence of an arbitrary body over the elements, and the two macros for compilers without \<open>typeof\<close>.

  The locale \<open>fifo\<close> is the contract of a queue, interpreted as \<open>work_queue\<close> on \<open>wq_push\<close> and
  \<open>wq_pop\<close>; it gives the refinement of a list on every sequence of calls.  \<open>wq_step\<close> is the step
  relation of any number of threads in \<open>wq_push\<close> and \<open>wq_pop\<close>, one step per statement that another
  thread can see, with spurious wake-ups; mutual exclusion, queue order and wake-ups are
  invariants of it.

  \<^bold>\<open>The allocator\<close>  (\<open>Alloc\<close>, \<open>AllocHeap\<close>, \<open>AllocMalloc\<close>, \<open>AllocFree\<close>, \<open>AllocProps\<close>,
  \<open>AllocClient\<close>: \<open>malloc-master/mm_alloc.c\<close>)

  Memory is a map from addresses to bytes and the structs lie in it, so that a stale pointer reads
  what is there.  \<open>heap_ok\<close> relates a memory to its list of blocks; \<open>mm_malloc\<close> and \<open>mm_free\<close> are
  operations on such lists.  The walk of \<open>mm_malloc\<close> needs one unit of fuel per block and one more.
  Sizes are below \<open>2 ^ 63\<close>, and \<open>grant_ok\<close> keeps the break where the 32-bit size fields are exact.
  \<open>mm_free\<close> is proved for blocks whose \<open>prev\<close> is right; \<open>goes_stale\<close> is the case in which it leaves
  one that is not, and \<open>mm_free_corrupts\<close> what follows.  The locale \<open>allocator\<close> is the contract a
  client relies on, interpreted as \<open>heap\<close> on \<open>mm_malloc\<close> and \<open>mm_free\<close>: whatever sequence of
  requests, writes and releases a client makes, its blocks keep their data, as long as it does not
  release a block in the case of \<open>goes_stale\<close>.

  \<^bold>\<open>The small programs\<close>  (\<open>Exercises\<close>: \<open>hw0\<close>, \<open>hw3/mm_alloc.c\<close>)

  What the three programs of \<open>hw0\<close> print, and the allocator of \<open>hw3\<close>, whose functions are stubs.

  \<^bold>\<open>Not modelled\<close>

  Console output but for the shell's prompts, the help text of \<open>cachedfs\<close> and the programs of \<open>hw0\<close>;
  \<open>http_fatal_error\<close>, which prints and exits; the directory \<open>pwd\<close> prints;
  the casts in the list macros for compilers without \<open>typeof\<close>; and the test drivers.
\<close>

end
